(* ===== verification/Prelude.thy ===== *)
theory Prelude
  imports Main "HOL-Library.Word" "HOL-Library.Char_ord" "HOL-Library.List_Lexorder"
begin

text \<open>
  What the component theories share: the names of the machine types, byte strings and the
  \<open>std::string\<close> operations the sources call, results that may be an exception, and the
  generic lemmas on lists and words.

  A \<open>std::string\<close> is a list of bytes, so \<^typ>\<open>string\<close> is used for it throughout: one
  \<^typ>\<open>char\<close> is one byte and \<open>length\<close> is \<open>size()\<close>.
\<close>

section \<open>Machine types\<close>

type_synonym uint8 = "8 word"
type_synonym uint32 = "32 word"
type_synonym uint64 = "64 word"
type_synonym bytes = "char list"
type_synonym fd = int

text \<open>Collections for the facts groups of proofs share.\<close>

named_theorems wire_simps \<open>sizes and inverses of the wire encodings\<close>
named_theorems omap_simps \<open>lookups after updates of ordered maps\<close>
named_theorems sock_simps \<open>sockets that neither fail nor split\<close>
named_theorems json_simps \<open>accessors of JSON values\<close>

section \<open>Results that may be an exception\<close>

text \<open>
  \<open>Inl e\<close> is an exception \<open>e\<close> that leaves the function, \<open>Inr x\<close> a normal return. The
  helper runs the rest of a body only after a normal return.
\<close>

fun rbind :: "'e + 'a \<Rightarrow> ('a \<Rightarrow> 'e + 'b) \<Rightarrow> 'e + 'b" where
  "rbind (Inl e) f = Inl e"
| "rbind (Inr x) f = f x"

lemma rbind_Inr_iff: "rbind r f = Inr y \<longleftrightarrow> (\<exists>x. r = Inr x \<and> f x = Inr y)"
  by (cases r) auto

lemma rbind_Inl_iff:
  "rbind r f = Inl e \<longleftrightarrow> r = Inl e \<or> (\<exists>x. r = Inr x \<and> f x = Inl e)"
  by (cases r) auto

lemma rbind_Inr_right [simp]: "rbind r Inr = r"
  by (cases r) auto

lemma rbind_assoc: "rbind (rbind r f) g = rbind r (\<lambda>x. rbind (f x) g)"
  by (cases r) auto

section \<open>Byte strings\<close>

text \<open>\<open>s.find(pat) != std::string::npos\<close>.\<close>

fun starts_with :: "string \<Rightarrow> string \<Rightarrow> bool" where
  "starts_with [] s = True"
| "starts_with (p # ps) [] = False"
| "starts_with (p # ps) (c # cs) = (p = c \<and> starts_with ps cs)"

fun str_find :: "string \<Rightarrow> string \<Rightarrow> nat option" where
  "str_find pat [] = (if pat = [] then Some 0 else None)"
| "str_find pat (c # cs) =
     (if starts_with pat (c # cs) then Some 0 else map_option Suc (str_find pat cs))"

definition str_contains :: "string \<Rightarrow> string \<Rightarrow> bool" where
  "str_contains pat s = (str_find pat s \<noteq> None)"

text \<open>
  What a C function reads through \<open>s.c_str()\<close> without a length: the bytes up to the first
  NUL.
\<close>

fun c_str :: "string \<Rightarrow> string" where
  "c_str [] = []"
| "c_str (c # cs) = (if c = CHR 0x00 then [] else c # c_str cs)"

text \<open>Decimal text of an unsigned number: \<open>std::to_string\<close>.\<close>

definition digit_char :: "nat \<Rightarrow> char" where
  "digit_char d = char_of (48 + d)"

fun nat_to_dec :: "nat \<Rightarrow> string" where
  "nat_to_dec n = (if n < 10 then [digit_char n] else nat_to_dec (n div 10) @ [digit_char (n mod 10)])"

declare nat_to_dec.simps [simp del]

definition to_string :: "int \<Rightarrow> string" where
  "to_string i = (if i < 0 then CHR ''-'' # nat_to_dec (nat (- i)) else nat_to_dec (nat i))"

text \<open>Two lower case hexadecimal digits per byte, as \<open>setw(2) << setfill('0') << hex\<close> prints.\<close>

definition hex_digit :: "nat \<Rightarrow> char" where
  "hex_digit d = (if d < 10 then char_of (48 + d) else char_of (87 + d))"

fun hex_string :: "bytes \<Rightarrow> string" where
  "hex_string [] = []"
| "hex_string (c # cs) =
     hex_digit (of_char c div 16) # hex_digit (of_char c mod 16) # hex_string cs"

lemma length_hex_string [simp]: "length (hex_string bs) = 2 * length bs"
  by (induction bs) auto

lemma starts_with_iff: "starts_with p s \<longleftrightarrow> (\<exists>t. s = p @ t)"
  by (induction p s rule: starts_with.induct) auto

lemma str_find_Some: "str_find pat s = Some i \<Longrightarrow> \<exists>a b. s = a @ pat @ b \<and> length a = i"
proof (induction s arbitrary: i)
  case Nil
  then show ?case by (auto split: if_splits)
next
  case (Cons c cs)
  show ?case
  proof (cases "starts_with pat (c # cs)")
    case True
    with Cons.prems show ?thesis by (auto simp: starts_with_iff)
  next
    case False
    with Cons.prems obtain j where j: "str_find pat cs = Some j" and i: "i = Suc j" by auto
    from Cons.IH [OF j] obtain a b where "cs = a @ pat @ b" "length a = j" by blast
    with i show ?thesis by (intro exI [of _ "c # a"] exI [of _ b]) simp
  qed
qed

lemma str_find_None: "str_find pat s = None \<Longrightarrow> \<not> (\<exists>a b. s = a @ pat @ b)"
proof (induction s)
  case Nil
  then show ?case by (auto split: if_splits)
next
  case (Cons c cs)
  then have no: "\<not> starts_with pat (c # cs)" and none: "str_find pat cs = None"
    by (auto split: if_splits)
  show ?case
  proof
    assume "\<exists>a b. c # cs = a @ pat @ b"
    then obtain a b where ab: "c # cs = a @ pat @ b" by blast
    show False
    proof (cases a)
      case Nil
      with ab no show False by (auto simp: starts_with_iff)
    next
      case (Cons x xs)
      with ab have "cs = xs @ pat @ b" by simp
      with Cons.IH [OF none] show False by blast
    qed
  qed
qed

lemma str_contains_iff: "str_contains pat s \<longleftrightarrow> (\<exists>a b. s = a @ pat @ b)"
  unfolding str_contains_def using str_find_Some str_find_None by blast

lemma c_str_takeWhile: "c_str s = takeWhile (\<lambda>c. c \<noteq> CHR 0x00) s"
  by (induction s) auto

lemma c_str_id: "CHR 0x00 \<notin> set s \<Longrightarrow> c_str s = s"
  by (induction s) auto

lemma c_str_idem [simp]: "c_str (c_str s) = c_str s"
  by (induction s) auto

lemma of_char_bound: "(of_char c :: nat) < 256"
  by (metis nat_of_char_less_256)

lemma hex_digit_inj: "a < 16 \<Longrightarrow> b < 16 \<Longrightarrow> hex_digit a = hex_digit b \<Longrightarrow> a = b"
proof -
  assume ab: "a < 16" "b < 16" and eq: "hex_digit a = hex_digit b"
  have "(of_char (hex_digit a) :: nat) = of_char (hex_digit b)" using eq by simp
  with ab show "a = b" by (auto simp: hex_digit_def split: if_splits)
qed

lemma hex_string_inj: "hex_string a = hex_string b \<Longrightarrow> a = b"
proof (induction a arbitrary: b)
  case Nil
  then show ?case by (cases b) auto
next
  case (Cons x xs)
  then obtain y ys where b: "b = y # ys" by (cases b) auto
  have lt: "of_char c div 16 < (16::nat)" "of_char c mod 16 < (16::nat)" for c
    by (auto simp: less_mult_imp_div_less of_char_bound)
  from Cons.prems b have "of_char x div 16 = (of_char y div 16 :: nat)"
      "of_char x mod 16 = (of_char y mod 16 :: nat)" "hex_string xs = hex_string ys"
    by (auto dest: hex_digit_inj [OF lt(1) lt(1)] hex_digit_inj [OF lt(2) lt(2)])
  then have "(of_char x :: nat) = of_char y" and "xs = ys"
    using Cons.IH by (metis div_mult_mod_eq, blast)
  with b show ?case by simp
qed

section \<open>Decimal text\<close>

fun dec_value :: "string \<Rightarrow> nat \<Rightarrow> nat" where
  "dec_value [] acc = acc"
| "dec_value (c # cs) acc = dec_value cs (10 * acc + (of_char c - 48))"

lemma dec_value_append: "dec_value (a @ b) acc = dec_value b (dec_value a acc)"
  by (induction a arbitrary: acc) auto

definition is_digit :: "char \<Rightarrow> bool" where
  "is_digit c = (48 \<le> (of_char c :: nat) \<and> (of_char c :: nat) \<le> 57)"

lemma of_char_digit [simp]: "d < 10 \<Longrightarrow> (of_char (digit_char d) :: nat) = 48 + d"
  by (simp add: digit_char_def)

lemma is_digit_digit_char [simp]: "d < 10 \<Longrightarrow> is_digit (digit_char d)"
  by (simp add: is_digit_def)

lemma nat_to_dec_digits: "\<forall>c \<in> set (nat_to_dec n). is_digit c"
proof (induction n rule: nat_to_dec.induct)
  case (1 n)
  then show ?case by (subst nat_to_dec.simps) auto
qed

lemma nat_to_dec_nonempty [simp]: "nat_to_dec n \<noteq> []"
  by (subst nat_to_dec.simps) auto

lemma dec_value_nat_to_dec: "dec_value (nat_to_dec n) 0 = n"
proof (induction n rule: nat_to_dec.induct)
  case (1 n)
  show ?case
  proof (cases "n < 10")
    case True
    then show ?thesis by (subst nat_to_dec.simps) simp
  next
    case False
    with 1 have "dec_value (nat_to_dec (n div 10)) 0 = n div 10" by simp
    with False show ?thesis by (subst nat_to_dec.simps) (simp add: dec_value_append)
  qed
qed

lemma nat_to_dec_inj: "nat_to_dec a = nat_to_dec b \<longleftrightarrow> a = b"
  by (metis dec_value_nat_to_dec)

lemma hd_nat_to_dec_zero: "hd (nat_to_dec n) = CHR ''0'' \<longleftrightarrow> n = 0"
proof (induction n rule: nat_to_dec.induct)
  case (1 n)
  show ?case
  proof (cases "n < 10")
    case True
    have "digit_char n = digit_char 0 \<longleftrightarrow> n = 0"
      using True by (metis add_left_cancel of_char_digit zero_less_numeral)
    moreover have "digit_char 0 = CHR ''0''" by code_simp
    ultimately show ?thesis using True by (subst nat_to_dec.simps) simp
  next
    case False
    then have "n div 10 \<noteq> 0" by auto
    with 1 False show ?thesis by (subst nat_to_dec.simps) (simp add: hd_append)
  qed
qed

end
