(* ===== verification/Protocol.thy ===== *)
theory Protocol
  imports Prelude
begin

text \<open>
  \<open>common/Common.h\<close> and \<open>common/NetUtil.h\<close>: devices, message types, the packed 5 byte header, and
  \<open>sendExact\<close> / \<open>recvExact\<close> over sockets that may split, stop or fail.

  The hosts are little endian (x86-64 and the Raspberry Pi), so the memory of the packed header
  is the type byte followed by the length with its low byte first; \<open>htonl\<close> reverses the bytes.
\<close>

section \<open>Devices\<close>

datatype device_type = HANWHA | SUB_PI

record device_info =
  dev_id :: string
  dev_ip :: string
  dev_type :: device_type
  dev_is_online :: bool
  dev_source_url :: string
  dev_udp_listen_port :: int
  dev_command_socket_fd :: fd

definition default_device_info :: "device_type \<Rightarrow> device_info" where
  "default_device_info t =
     \<lparr>dev_id = [], dev_ip = [], dev_type = t, dev_is_online = False, dev_source_url = [],
      dev_udp_listen_port = 0, dev_command_socket_fd = -1\<rparr>"

section \<open>Message types\<close>

text \<open>
  A header read from the network can hold any byte; the bytes without an enumerator are
  \<open>OtherType\<close>.
\<close>

datatype message_type =
    ACK | LOGIN | SUCCESS | FAIL | DEVICE | AVAILABLE | AI | CAMERA | ASSIGN | META | IMAGE
  | HANDSHAKE | OtherType nat

fun type_byte :: "message_type \<Rightarrow> nat" where
  "type_byte ACK = 0x00"
| "type_byte LOGIN = 0x01"
| "type_byte SUCCESS = 0x02"
| "type_byte FAIL = 0x03"
| "type_byte DEVICE = 0x04"
| "type_byte AVAILABLE = 0x05"
| "type_byte AI = 0x06"
| "type_byte CAMERA = 0x07"
| "type_byte ASSIGN = 0x08"
| "type_byte META = 0x09"
| "type_byte IMAGE = 0x0a"
| "type_byte HANDSHAKE = 0x0b"
| "type_byte (OtherType n) = n"

definition enumerators :: "message_type list" where
  "enumerators =
     [ACK, LOGIN, SUCCESS, FAIL, DEVICE, AVAILABLE, AI, CAMERA, ASSIGN, META, IMAGE, HANDSHAKE]"

definition byte_type :: "nat \<Rightarrow> message_type" where
  "byte_type n = (if n < length enumerators then enumerators ! n else OtherType n)"

definition type_wf :: "message_type \<Rightarrow> bool" where
  "type_wf t = (case t of OtherType n \<Rightarrow> 0x0c \<le> n \<and> n < 256 | _ \<Rightarrow> True)"

lemma type_byte_bound: "type_wf t \<Longrightarrow> type_byte t < 256"
  by (cases t) (auto simp: type_wf_def)

lemma byte_type_type_byte: "type_wf t \<Longrightarrow> byte_type (type_byte t) = t"
  by (cases t) (auto simp: type_wf_def byte_type_def enumerators_def)

lemma type_byte_byte_type: "type_byte (byte_type n) = n"
proof (cases "n < 12")
  case True
  then have "n \<in> {0, 1, 2, 3, 4, 5, 6, 7, 8, 9, 10, 11}" by (simp; presburger)
  then show ?thesis by (auto simp: byte_type_def enumerators_def)
qed (simp add: byte_type_def enumerators_def)

section \<open>The header\<close>

record packet_header =
  ph_type :: message_type
  ph_body_length :: uint32

fun nat_le_bytes :: "nat \<Rightarrow> nat \<Rightarrow> bytes" where
  "nat_le_bytes 0 n = []"
| "nat_le_bytes (Suc k) n = char_of (n mod 256) # nat_le_bytes k (n div 256)"

definition le_bytes :: "uint32 \<Rightarrow> bytes" where
  "le_bytes w = nat_le_bytes 4 (unat w)"

fun le_value :: "bytes \<Rightarrow> nat" where
  "le_value [] = 0"
| "le_value (c # cs) = of_char c + 256 * le_value cs"

definition htonl :: "uint32 \<Rightarrow> uint32" where
  "htonl w = of_nat (le_value (rev (le_bytes w)))"

definition ntohl :: "uint32 \<Rightarrow> uint32" where
  "ntohl w = of_nat (le_value (rev (le_bytes w)))"

definition header_bytes :: "packet_header \<Rightarrow> bytes" where
  "header_bytes h = char_of (type_byte (ph_type h)) # le_bytes (ph_body_length h)"

text \<open>The five bytes read back as the struct.\<close>

definition header_of_bytes :: "bytes \<Rightarrow> packet_header" where
  "header_of_bytes bs =
     \<lparr>ph_type = byte_type (of_char (hd bs)),
      ph_body_length = of_nat (le_value (take 4 (tl bs)))\<rparr>"

definition header_size :: nat where
  "header_size = 5"

lemma length_nat_le_bytes [simp]: "length (nat_le_bytes k n) = k"
  by (induction k arbitrary: n) auto

lemma length_le_bytes [simp]: "length (le_bytes w) = 4"
  by (simp add: le_bytes_def)

lemma length_header_bytes [simp]: "length (header_bytes h) = header_size"
  by (simp add: header_bytes_def header_size_def)

lemma byte_step_bound: "(c :: nat) < 256 \<Longrightarrow> v < p \<Longrightarrow> c + 256 * v < 256 * p"
  by linarith

lemma le_value_bound: "le_value bs < 256 ^ length bs"
proof (induction bs)
  case (Cons c bs)
  from byte_step_bound [OF of_char_bound [of c] this] show ?case by simp
qed simp

lemma le_value_nat_le_bytes: "n < 256 ^ k \<Longrightarrow> le_value (nat_le_bytes k n) = n"
  by (induction k arbitrary: n) (auto simp: div_less_dividend less_mult_imp_div_less)

lemma nat_le_bytes_le_value: "nat_le_bytes (length bs) (le_value bs) = bs"
proof (induction bs)
  case (Cons c bs)
  have "of_char c < (256 :: nat)" by (rule of_char_bound)
  with Cons show ?case by simp
qed simp

lemma le_value_le_bytes: "le_value (le_bytes w) = unat w"
proof -
  have "unat w < 256 ^ 4" using unsigned_less [of w] by simp
  then show ?thesis by (simp add: le_bytes_def le_value_nat_le_bytes)
qed

lemma le_bytes_le_value:
  assumes "length bs = 4"
  shows "le_bytes (of_nat (le_value bs)) = bs"
proof -
  have "le_value bs < 2 ^ 32" using le_value_bound [of bs] assms by simp
  then have "unat (of_nat (le_value bs) :: uint32) = le_value bs"
    by (simp add: unat_of_nat)
  with assms nat_le_bytes_le_value [of bs] show ?thesis by (simp add: le_bytes_def)
qed

lemma htonl_htonl [wire_simps]: "htonl (htonl w) = w"
proof -
  have "le_bytes (htonl w) = rev (le_bytes w)"
    unfolding htonl_def by (rule le_bytes_le_value) simp
  then have "le_value (rev (le_bytes (htonl w))) = unat w" by (simp add: le_value_le_bytes)
  then show ?thesis by (simp add: htonl_def [of "htonl w"])
qed

lemma ntohl_htonl [wire_simps]: "ntohl (htonl w) = w"
  using htonl_htonl [of w] by (simp add: htonl_def ntohl_def)

text \<open>What \<open>htonl\<close> is for: the bytes in memory have the high byte first.\<close>

lemma le_bytes_htonl: "le_bytes (htonl w) = rev (le_bytes w)"
  unfolding htonl_def by (rule le_bytes_le_value) simp

lemma header_roundtrip [wire_simps]:
  "type_wf (ph_type h) \<Longrightarrow> header_of_bytes (header_bytes h @ rest) = h"
  by (simp add: header_of_bytes_def header_bytes_def type_byte_bound byte_type_type_byte
      le_value_le_bytes le_bytes_def [symmetric])

section \<open>Sockets\<close>

text \<open>
  What a connection does is given in advance: the bytes the peer sends before it closes, and for
  each \<open>recv\<close> and \<open>send\<close> how many bytes the kernel moves at most. A number that is not positive
  is an error return. Past the end of the list every call moves all it can. \<open>recv\<close> returns 0 when
  the peer has nothing more to send. Bytes sent are appended to \<open>sk_tx\<close>.
\<close>

record sock =
  sk_open :: bool
  sk_rx :: bytes
  sk_rx_plan :: "int list"
  sk_tx :: bytes
  sk_tx_plan :: "int list"

type_synonym net = "fd \<Rightarrow> sock"

definition sock_recv :: "nat \<Rightarrow> sock \<Rightarrow> bytes option \<times> sock" where
  "sock_recv len s =
     (if \<not> sk_open s then (None, s)
      else (case sk_rx_plan s of
              [] \<Rightarrow> (Some (take len (sk_rx s)), s\<lparr>sk_rx := drop len (sk_rx s)\<rparr>)
            | n # ns \<Rightarrow>
              (let k = min len (nat n); s' = s\<lparr>sk_rx_plan := ns\<rparr>
               in if n \<le> 0 then (None, s')
                  else (Some (take k (sk_rx s)), s'\<lparr>sk_rx := drop k (sk_rx s)\<rparr>))))"

definition sock_send :: "bytes \<Rightarrow> sock \<Rightarrow> nat option \<times> sock" where
  "sock_send bs s =
     (if \<not> sk_open s then (None, s)
      else (case sk_tx_plan s of
              [] \<Rightarrow> (Some (length bs), s\<lparr>sk_tx := sk_tx s @ bs\<rparr>)
            | n # ns \<Rightarrow>
              (let k = min (length bs) (nat n); s' = s\<lparr>sk_tx_plan := ns\<rparr>
               in if n \<le> 0 then (None, s')
                  else (Some k, s'\<lparr>sk_tx := sk_tx s @ take k bs\<rparr>))))"

text \<open>
  The loops. A zero length result ends them as an error does (\<open>n <= 0\<close>). \<open>buf\<close> is the part of the
  buffer already filled, \<open>sent\<close> the count already sent.
\<close>

function recv_loop :: "nat \<Rightarrow> bytes \<Rightarrow> sock \<Rightarrow> bytes option \<times> sock" where
  "recv_loop len buf s =
     (if length buf < len then
        (case sock_recv (len - length buf) s of
           (None, s') \<Rightarrow> (None, s')
         | (Some bs, s') \<Rightarrow> if bs = [] then (None, s') else recv_loop len (buf @ bs) s')
      else (Some buf, s))"
  by pat_completeness auto

termination
  by (relation "measure (\<lambda>(len, buf, s). len - length buf)") (auto simp: diff_less_mono2)

function send_loop :: "bytes \<Rightarrow> nat \<Rightarrow> sock \<Rightarrow> bool \<times> sock" where
  "send_loop buf sent s =
     (if sent < length buf then
        (case sock_send (drop sent buf) s of
           (None, s') \<Rightarrow> (False, s')
         | (Some n, s') \<Rightarrow> if n = 0 then (False, s') else send_loop buf (sent + n) s')
      else (True, s))"
  by pat_completeness auto

termination
  by (relation "measure (\<lambda>(buf, sent, s). length buf - sent)") auto

declare recv_loop.simps [simp del] send_loop.simps [simp del]

definition recvExact :: "fd \<Rightarrow> nat \<Rightarrow> net \<Rightarrow> bytes option \<times> net" where
  "recvExact fd len net = (case recv_loop len [] (net fd) of (r, s) \<Rightarrow> (r, net(fd := s)))"

definition sendExact :: "fd \<Rightarrow> bytes \<Rightarrow> net \<Rightarrow> bool \<times> net" where
  "sendExact fd buf net = (case send_loop buf 0 (net fd) of (r, s) \<Rightarrow> (r, net(fd := s)))"

definition sock_close :: "fd \<Rightarrow> net \<Rightarrow> net" where
  "sock_close fd net = net(fd := (net fd)\<lparr>sk_open := False\<rparr>)"

text \<open>After \<open>shutdown(fd, SHUT_RDWR)\<close> no call on the socket moves a byte.\<close>

definition sock_shutdown :: "fd \<Rightarrow> net \<Rightarrow> net" where
  "sock_shutdown fd net = net(fd := (net fd)\<lparr>sk_open := False\<rparr>)"

section \<open>Packets\<close>

text \<open>The header is received as a whole.\<close>

definition recv_header :: "fd \<Rightarrow> net \<Rightarrow> packet_header option \<times> net" where
  "recv_header fd net =
     (case recvExact fd header_size net of (r, net') \<Rightarrow> (map_option header_of_bytes r, net'))"

text \<open>
  A header, whose length field is stored through \<open>to_wire\<close>, and a body unless it is empty: what the
  \<open>sendMessage\<close> functions have in common.
\<close>

definition send_packet ::
    "(uint32 \<Rightarrow> uint32) \<Rightarrow> fd \<Rightarrow> message_type \<Rightarrow> bytes \<Rightarrow> net \<Rightarrow> bool \<times> net" where
  "send_packet to_wire fd t body net =
     (case sendExact fd (header_bytes \<lparr>ph_type = t, ph_body_length = to_wire (of_nat (length body))\<rparr>) net of
        (False, net') \<Rightarrow> (False, net')
      | (True, net') \<Rightarrow> if body = [] then (True, net') else sendExact fd body net')"

text \<open>The \<open>sendImageMessage\<close> functions: header, metadata, JPEG.\<close>

definition send_image_packet ::
    "(uint32 \<Rightarrow> uint32) \<Rightarrow> fd \<Rightarrow> bytes \<Rightarrow> bytes \<Rightarrow> net \<Rightarrow> bool \<times> net" where
  "send_image_packet to_wire fd meta jpeg net =
     (case sendExact fd (header_bytes \<lparr>ph_type = IMAGE, ph_body_length = to_wire (of_nat (length meta))\<rparr>) net of
        (False, net') \<Rightarrow> (False, net')
      | (True, net1) \<Rightarrow>
        (case sendExact fd meta net1 of
           (False, net') \<Rightarrow> (False, net')
         | (True, net2) \<Rightarrow> if jpeg = [] then (True, net2) else sendExact fd jpeg net2))"

text \<open>What is on the wire after a whole packet.\<close>

definition packet_bytes :: "(uint32 \<Rightarrow> uint32) \<Rightarrow> message_type \<Rightarrow> bytes \<Rightarrow> bytes" where
  "packet_bytes to_wire t body =
     header_bytes \<lparr>ph_type = t, ph_body_length = to_wire (of_nat (length body))\<rparr> @ body"

section \<open>How the socket loops end\<close>

text \<open>A socket whose calls never fail, however they split the data.\<close>

definition rx_ok :: "sock \<Rightarrow> bool" where
  "rx_ok s = (sk_open s \<and> (\<forall>n \<in> set (sk_rx_plan s). 0 < n))"

definition tx_ok :: "sock \<Rightarrow> bool" where
  "tx_ok s = (sk_open s \<and> (\<forall>n \<in> set (sk_tx_plan s). 0 < n))"

lemma recv_loop_done: "len \<le> length buf \<Longrightarrow> recv_loop len buf s = (Some buf, s)"
  by (subst recv_loop.simps) simp

lemma send_loop_done: "length buf \<le> sent \<Longrightarrow> send_loop buf sent s = (True, s)"
  by (subst send_loop.simps) simp

lemma sock_recv_Some:
  assumes "sock_recv len s = (Some bs, s')"
  shows "sk_rx s = bs @ sk_rx s'" "length bs \<le> len" "sk_tx s' = sk_tx s"
  using assms by (auto simp: sock_recv_def Let_def split: if_splits list.splits)

lemma sock_recv_ok:
  assumes "rx_ok s" "0 < len"
  shows "\<exists>bs s'. sock_recv len s = (Some bs, s') \<and> rx_ok s' \<and> sk_rx s = bs @ sk_rx s' \<and>
    length bs \<le> len \<and> (sk_rx s \<noteq> [] \<longrightarrow> bs \<noteq> [])"
  using assms by (auto simp: sock_recv_def rx_ok_def Let_def split: list.splits)

lemma recv_loop_Some:
  assumes "recv_loop len buf s = (Some r, s')" "length buf \<le> len"
  shows "length r = len \<and> (\<exists>bs. r = buf @ bs \<and> sk_rx s = bs @ sk_rx s')"
  using assms
proof (induction len buf s rule: recv_loop.induct)
  case (1 len buf s)
  show ?case
  proof (cases "length buf < len")
    case True
    obtain o1 s1 where sr: "sock_recv (len - length buf) s = (o1, s1)" by force
    with "1.prems" True obtain bs where o1: "o1 = Some bs" and bs: "bs \<noteq> []"
        and rec: "recv_loop len (buf @ bs) s1 = (Some r, s')"
      by (auto simp: recv_loop.simps [of len buf s] split: option.splits if_splits)
    note some = sock_recv_Some [OF sr [unfolded o1]]
    have "length (buf @ bs) \<le> len" using some(2) True by simp
    from "1.IH" [OF True sr [symmetric, unfolded o1] refl bs rec this]
    obtain bs' where "length r = len" "r = (buf @ bs) @ bs'" "sk_rx s1 = bs' @ sk_rx s'" by blast
    then show ?thesis using some(1) by (intro conjI exI [of _ "bs @ bs'"]) simp_all
  next
    case False
    with "1.prems" show ?thesis by (simp add: recv_loop_done)
  qed
qed

lemma recv_loop_ok:
  assumes "rx_ok s" "length buf \<le> len" "len \<le> length buf + length (sk_rx s)"
  obtains s' where "recv_loop len buf s = (Some (buf @ take (len - length buf) (sk_rx s)), s')"
    "rx_ok s'" "sk_rx s' = drop (len - length buf) (sk_rx s)"
proof -
  have "\<exists>s'. recv_loop len buf s = (Some (buf @ take (len - length buf) (sk_rx s)), s') \<and> rx_ok s' \<and>
      sk_rx s' = drop (len - length buf) (sk_rx s)"
    using assms
  proof (induction len buf s rule: recv_loop.induct)
    case (1 len buf s)
    show ?case
    proof (cases "length buf < len")
      case True
      then have "0 < len - length buf" "sk_rx s \<noteq> []" using "1.prems"(3) by auto
      with sock_recv_ok [OF "1.prems"(1) this(1)] obtain bs s1 where
          sr: "sock_recv (len - length buf) s = (Some bs, s1)"
          and s1: "rx_ok s1" "sk_rx s = bs @ sk_rx s1" "length bs \<le> len - length buf" "bs \<noteq> []"
        by blast
      let ?k = "len - length (buf @ bs)"
      have "length (buf @ bs) \<le> len" "len \<le> length (buf @ bs) + length (sk_rx s1)"
        using s1(2,3) "1.prems"(3) True by auto
      from "1.IH" [OF True sr [symmetric] refl s1(4) s1(1) this] obtain s' where
        s': "recv_loop len (buf @ bs) s1 = (Some ((buf @ bs) @ take ?k (sk_rx s1)), s')" "rx_ok s'"
          "sk_rx s' = drop ?k (sk_rx s1)" by blast
      have k: "len - length buf = length bs + ?k" using s1(3) True by simp
      have "take (len - length buf) (sk_rx s) = bs @ take ?k (sk_rx s1)"
        "drop (len - length buf) (sk_rx s) = drop ?k (sk_rx s1)"
        unfolding k s1(2) by simp_all
      with s' sr s1(4) True show ?thesis
        by (intro exI [of _ s']) (simp add: recv_loop.simps [of len buf s])
    next
      case False
      with "1.prems" show ?thesis by (simp add: recv_loop_done)
    qed
  qed
  with that show ?thesis by blast
qed

lemma recv_loop_short:
  assumes "length buf \<le> len" "length buf + length (sk_rx s) < len"
  shows "fst (recv_loop len buf s) = None"
proof (cases "recv_loop len buf s")
  case (Pair r s')
  with recv_loop_Some [of len buf s _ s'] assms show ?thesis by (cases r) auto
qed

lemma sock_send_cases:
  assumes "sock_send bs s = (r, s')"
  shows "sk_rx s' = sk_rx s" "\<exists>k \<le> length bs. sk_tx s' = sk_tx s @ take k bs \<and> (case r of Some n \<Rightarrow> n = k | None \<Rightarrow> k = 0)"
    "tx_ok s \<Longrightarrow> bs \<noteq> [] \<Longrightarrow> tx_ok s' \<and> (\<exists>n. r = Some n \<and> 0 < n)"
  using assms
  by (auto simp: sock_send_def tx_ok_def Let_def split: if_splits list.splits
      intro: exI [of _ "length bs"] exI [of _ 0])

lemma send_loop_prefix:
  assumes "send_loop buf sent s = (r, s')" "sent \<le> length buf"
  shows "\<exists>k \<le> length buf - sent. sk_tx s' = sk_tx s @ take k (drop sent buf) \<and>
    (r \<longleftrightarrow> k = length buf - sent)"
  using assms
proof (induction buf sent s rule: send_loop.induct)
  case (1 buf sent s)
  show ?case
  proof (cases "sent < length buf")
    case True
    obtain o1 s1 where ss: "sock_send (drop sent buf) s = (o1, s1)" by force
    obtain k where k: "k \<le> length buf - sent" "sk_tx s1 = sk_tx s @ take k (drop sent buf)"
        "case o1 of Some n \<Rightarrow> n = k | None \<Rightarrow> k = 0"
      using sock_send_cases(2) [OF ss] by auto
    show ?thesis
    proof (cases "o1 = Some k \<and> k \<noteq> 0")
      case go: True
      then have rec: "send_loop buf (sent + k) s1 = (r, s')"
        using "1.prems" True ss by (simp add: send_loop.simps [of buf sent s])
      have "sent + k \<le> length buf" using k(1) True by simp
      from "1.IH" [OF True ss [symmetric] _ _ rec this] go obtain j where
        j: "sk_tx s' = sk_tx s1 @ take j (drop (sent + k) buf)" "r \<longleftrightarrow> j = length buf - (sent + k)"
          "j \<le> length buf - (sent + k)"
        by auto
      have "take k (drop sent buf) @ take j (drop (sent + k) buf) = take (k + j) (drop sent buf)"
        by (simp add: take_add add.commute [of sent])
      then have "sk_tx s' = sk_tx s @ take (k + j) (drop sent buf)"
        unfolding j(1) k(2) by simp
      moreover have "r \<longleftrightarrow> k + j = length buf - sent" "k + j \<le> length buf - sent"
        using j(2,3) k(1) by auto
      ultimately show ?thesis by blast
    next
      case False
      with k(3) have o1: "o1 = None \<or> o1 = Some 0" and "k = 0" by (auto split: option.splits)
      moreover have "\<not> r" "s' = s1"
        using "1.prems"(1) True ss o1 by (auto simp: send_loop.simps [of buf sent s])
      ultimately show ?thesis using k(2) True by (intro exI [of _ 0]) auto
    qed
  next
    case False
    with "1.prems" show ?thesis by (simp add: send_loop_done)
  qed
qed

lemma send_loop_ok:
  assumes "tx_ok s"
  shows "fst (send_loop buf sent s) \<and> tx_ok (snd (send_loop buf sent s))"
  using assms
proof (induction buf sent s rule: send_loop.induct)
  case (1 buf sent s)
  show ?case
  proof (cases "sent < length buf")
    case True
    obtain o1 s1 where ss: "sock_send (drop sent buf) s = (o1, s1)" by force
    with sock_send_cases(3) [OF ss "1.prems"] True obtain n where "o1 = Some n" "0 < n" "tx_ok s1" by auto
    with "1.IH" [OF True ss [symmetric]] True ss show ?thesis by (simp add: send_loop.simps [of buf sent s])
  next
    case False
    with "1.prems" show ?thesis by (simp add: send_loop_done)
  qed
qed

lemma send_loop_rx: "sk_rx (snd (send_loop buf sent s)) = sk_rx s"
proof (induction buf sent s rule: send_loop.induct)
  case (1 buf sent s)
  show ?case
  proof (cases "sent < length buf")
    case True
    obtain o1 s1 where ss: "sock_send (drop sent buf) s = (o1, s1)" by force
    with "1.IH" [OF True ss [symmetric]] True sock_send_cases(1) [OF ss] show ?thesis
      by (auto simp: send_loop.simps [of buf sent s] split: option.split)
  next
    case False
    then show ?thesis by (simp add: send_loop_done)
  qed
qed

end
