(* ===== verification/Framing.thy ===== *)
theory Framing
  imports Protocol
begin

text \<open>
  The transport as its users see it: what a connection delivers and what arrives does not
  depend on how the kernel splits it, and a stream of packets is read back packet by packet.
  The two encodings of the length field, raw for the Qt clients and \<open>htonl\<close> between the servers,
  are two instances of one interface.
\<close>

section \<open>One connection of the network\<close>

text \<open>\<open>net'\<close> differs from \<open>net\<close> at \<open>fd\<close> only, where \<open>rest\<close> is still to be received.\<close>

definition received_upto :: "fd \<Rightarrow> bytes \<Rightarrow> net \<Rightarrow> net \<Rightarrow> bool" where
  "received_upto fd rest net net' =
     (rx_ok (net' fd) \<and> sk_rx (net' fd) = rest \<and> (\<forall>g. g \<noteq> fd \<longrightarrow> net' g = net g))"

lemma recvExact_take:
  assumes "rx_ok (net fd)" "n \<le> length (sk_rx (net fd))"
  shows "\<exists>net'. recvExact fd n net = (Some (take n (sk_rx (net fd))), net') \<and>
    received_upto fd (drop n (sk_rx (net fd))) net net'"
proof -
  obtain s' where "recv_loop n [] (net fd) = (Some (take n (sk_rx (net fd))), s')" "rx_ok s'"
      "sk_rx s' = drop n (sk_rx (net fd))"
    using assms by (elim recv_loop_ok [of "net fd" "[]" n]) auto
  then show ?thesis by (auto simp: recvExact_def received_upto_def)
qed

lemma recvExact_prefix:
  assumes "rx_ok (net fd)" "sk_rx (net fd) = bs @ rest" "n = length bs"
  obtains net' where "recvExact fd n net = (Some bs, net')" "received_upto fd rest net net'"
  using recvExact_take [of net fd n] assms by auto

lemma received_upto_trans:
  "received_upto fd r1 net net1 \<Longrightarrow> received_upto fd r2 net1 net2 \<Longrightarrow> received_upto fd r2 net net2"
  by (auto simp: received_upto_def)

lemma recv_header_ok:
  assumes "rx_ok (net fd)" "sk_rx (net fd) = header_bytes h @ rest" "type_wf (ph_type h)"
  obtains net' where "recv_header fd net = (Some h, net')" "received_upto fd rest net net'"
proof -
  obtain net' where "recvExact fd header_size net = (Some (header_bytes h), net')"
      "received_upto fd rest net net'"
    using recvExact_prefix [of net fd "header_bytes h" rest header_size] assms by auto
  then show ?thesis
    using that header_roundtrip [OF assms(3), of "[]"] by (auto simp: recv_header_def)
qed

text \<open>The bytes of \<open>buf\<close> that reached the connection.\<close>

lemma sendExact_ok:
  assumes "tx_ok (net fd)"
  obtains net' where "sendExact fd buf net = (True, net')" "tx_ok (net' fd)"
    "sk_tx (net' fd) = sk_tx (net fd) @ buf" "\<forall>g. g \<noteq> fd \<longrightarrow> net' g = net g"
    "sk_rx (net' fd) = sk_rx (net fd)"
proof -
  obtain r s' where sl: "send_loop buf 0 (net fd) = (r, s')" by force
  moreover have "r \<and> tx_ok s'" using send_loop_ok [OF assms, of buf 0] sl by simp
  moreover have "sk_rx s' = sk_rx (net fd)" using send_loop_rx [of buf 0 "net fd"] sl by simp
  moreover obtain k where "sk_tx s' = sk_tx (net fd) @ take k buf" "r \<longleftrightarrow> k = length buf"
    using send_loop_prefix [OF sl] by auto
  ultimately show ?thesis using that by (auto simp: sendExact_def)
qed

section \<open>Packets in a stream\<close>

text \<open>
  What the senders and receivers of a packet agree on: the length stored by one is read back by
  the other.
\<close>

locale framing =
  fixes to_wire :: "uint32 \<Rightarrow> uint32" and from_wire :: "uint32 \<Rightarrow> uint32"
  assumes from_to: "from_wire (to_wire w) = w"
begin

lemma length_read_back: "length body < 2 ^ 32 \<Longrightarrow> unat (from_wire (to_wire (of_nat (length body)))) = length body"
  by (simp add: from_to unat_of_nat)

text \<open>Reading one packet takes exactly its bytes.\<close>

lemma recv_packet:
  assumes "rx_ok (net fd)" "sk_rx (net fd) = packet_bytes to_wire t body @ rest"
    and "type_wf t" "length body < 2 ^ 32"
  obtains h net1 net2 where "recv_header fd net = (Some h, net1)" "ph_type h = t"
    "unat (from_wire (ph_body_length h)) = length body"
    "recvExact fd (length body) net1 = (Some body, net2)" "received_upto fd rest net net2"
proof -
  let ?h = "\<lparr>ph_type = t, ph_body_length = to_wire (of_nat (length body))\<rparr>"
  obtain net1 where 1: "recv_header fd net = (Some ?h, net1)" "received_upto fd (body @ rest) net net1"
    using recv_header_ok [of net fd ?h "body @ rest"] assms by (auto simp: packet_bytes_def)
  then obtain net2 where 2: "recvExact fd (length body) net1 = (Some body, net2)" "received_upto fd rest net1 net2"
    using recvExact_prefix [of net1 fd body rest "length body"] by (auto simp: received_upto_def)
  show ?thesis
    using that [OF 1(1) _ _ 2(1) received_upto_trans [OF 1(2) 2(2)]] length_read_back [OF assms(4)]
    by simp
qed

lemma send_packet_ok:
  assumes "tx_ok (net fd)"
  obtains net' where "send_packet to_wire fd t body net = (True, net')" "tx_ok (net' fd)"
    "sk_tx (net' fd) = sk_tx (net fd) @ packet_bytes to_wire t body"
    "\<forall>g. g \<noteq> fd \<longrightarrow> net' g = net g"
proof -
  let ?h = "header_bytes \<lparr>ph_type = t, ph_body_length = to_wire (of_nat (length body))\<rparr>"
  obtain net1 where 1: "sendExact fd ?h net = (True, net1)" "tx_ok (net1 fd)"
      "sk_tx (net1 fd) = sk_tx (net fd) @ ?h" "\<forall>g. g \<noteq> fd \<longrightarrow> net1 g = net g"
    using sendExact_ok [of net fd ?h] assms by metis
  obtain net2 where 2: "sendExact fd body net1 = (True, net2)" "tx_ok (net2 fd)"
      "sk_tx (net2 fd) = sk_tx (net1 fd) @ body" "\<forall>g. g \<noteq> fd \<longrightarrow> net2 g = net1 g"
    using sendExact_ok [of net1 fd body] 1(2) by metis
  show ?thesis
    using that [of net1] that [of net2] 1 2
    by (cases "body = []") (auto simp: send_packet_def packet_bytes_def)
qed

end

interpretation qt_framing: framing "\<lambda>w. w" "\<lambda>w. w"
  by unfold_locales simp

interpretation internal_framing: framing htonl ntohl
  by unfold_locales (rule ntohl_htonl)

section \<open>Properties of the transport\<close>

text \<open>
  C10: \<open>recvExact\<close> delivers exactly the next \<open>n\<close> bytes of the stream and leaves the rest, however the
  kernel splits them, and fails when the peer closes before \<open>n\<close> bytes came; other sockets are
  not touched.
\<close>

theorem recvExact_any_split:
  assumes "rx_ok (net fd)"
  shows "fst (recvExact fd n net) =
      (if n \<le> length (sk_rx (net fd)) then Some (take n (sk_rx (net fd))) else None) \<and>
    (n \<le> length (sk_rx (net fd)) \<longrightarrow> received_upto fd (drop n (sk_rx (net fd))) net (snd (recvExact fd n net)))"
proof (cases "n \<le> length (sk_rx (net fd))")
  case True
  with recvExact_take [of net fd n] assms show ?thesis by auto
next
  case False
  with recv_loop_short [of "[]" n "net fd"] show ?thesis
    by (auto simp: recvExact_def split: prod.split)
qed

definition sample_sock :: sock where
  "sample_sock = \<lparr>sk_open = True, sk_rx = ''abcdef'', sk_rx_plan = [1, 2], sk_tx = [], sk_tx_plan = [1]\<rparr>"

lemma recvExact_any_split_witness:
  "fst (recvExact 4 5 (\<lambda>_. sample_sock)) = Some ''abcde''"
  using recvExact_any_split [of "\<lambda>_. sample_sock" 4 5] by (simp add: sample_sock_def rx_ok_def)

lemma sendExact_takes:
  "\<exists>k \<le> length buf. sk_tx (snd (sendExact fd buf net) fd) = sk_tx (net fd) @ take k buf \<and>
    (fst (sendExact fd buf net) \<longleftrightarrow> k = length buf)"
proof -
  obtain r s' where sl: "send_loop buf 0 (net fd) = (r, s')" by force
  from send_loop_prefix [OF sl] show ?thesis by (auto simp: sendExact_def sl)
qed

text \<open>
  Whatever the kernel does, what \<open>sendExact\<close> puts on the wire is a prefix of the buffer, and it
  reports success exactly when that is the whole buffer.
\<close>

lemma sendExact_prefix:
  "\<exists>k \<le> length buf. sk_tx (snd (sendExact fd buf net) fd) = sk_tx (net fd) @ take k buf \<and>
    (fst (sendExact fd buf net) \<longleftrightarrow> k = length buf)"
  by (rule sendExact_takes)

text \<open>
  A packet sent between the servers (length through \<open>htonl\<close>) is read back as it was sent: after
  any number of earlier bytes were consumed, the header gives the type and the length, the body
  follows, and the stream stands at the next packet.
\<close>

lemma internal_packet_roundtrip:
  assumes "tx_ok (net fd)" "rx_ok (peer pfd)" "type_wf t" "length body < 2 ^ 32"
    and "sk_tx (net fd) = []" "sk_rx (peer pfd) = sk_tx (snd (send_packet htonl fd t body net) fd) @ rest"
  shows "\<exists>h net1 net2. recv_header pfd peer = (Some h, net1) \<and> ph_type h = t \<and>
    recvExact pfd (unat (ntohl (ph_body_length h))) net1 = (Some body, net2) \<and> sk_rx (net2 pfd) = rest"
proof -
  obtain net' where "send_packet htonl fd t body net = (True, net')" "tx_ok (net' fd)"
      "sk_tx (net' fd) = sk_tx (net fd) @ packet_bytes htonl t body"
      "\<forall>g. g \<noteq> fd \<longrightarrow> net' g = net g"
    using assms(1) by (rule internal_framing.send_packet_ok [of net fd t body])
  with assms(5,6) have rx: "sk_rx (peer pfd) = packet_bytes htonl t body @ rest" by simp
  obtain h net1 net2 where "recv_header pfd peer = (Some h, net1)" "ph_type h = t"
      "unat (ntohl (ph_body_length h)) = length body"
      "recvExact pfd (length body) net1 = (Some body, net2)" "received_upto pfd rest peer net2"
    by (rule internal_framing.recv_packet [of peer pfd t body rest, OF assms(2) rx assms(3,4)])
  then show ?thesis by (auto simp: received_upto_def)
qed

definition sample_peer :: sock where
  "sample_peer = sample_sock\<lparr>sk_rx := packet_bytes htonl CAMERA ''[]'' @ ''x''\<rparr>"

lemma send_sample:
  "sk_tx (snd (send_packet htonl 1 CAMERA ''[]'' (\<lambda>_. sample_sock)) 1) = packet_bytes htonl CAMERA ''[]''"
proof -
  have "tx_ok sample_sock" "sk_tx sample_sock = []" by (simp_all add: tx_ok_def sample_sock_def)
  note ok = internal_framing.send_packet_ok [of "\<lambda>_. sample_sock" 1 CAMERA "''[]''", OF this(1)]
  show ?thesis by (rule ok) (simp add: \<open>sk_tx sample_sock = []\<close>)
qed

lemma internal_packet_roundtrip_witness:
  "\<exists>h net1 net2. recv_header 2 (\<lambda>_. sample_peer) = (Some h, net1) \<and> ph_type h = CAMERA \<and>
    recvExact 2 (unat (ntohl (ph_body_length h))) net1 = (Some ''[]'', net2) \<and> sk_rx (net2 2) = ''x''"
  by (rule internal_packet_roundtrip [where net = "\<lambda>_. sample_sock" and fd = 1])
    (simp_all add: send_sample, simp_all add: sample_sock_def sample_peer_def tx_ok_def rx_ok_def type_wf_def)

end
