(* ===== verification/Double.thy ===== *)
theory Double
  imports Prelude
begin

text \<open>
  The \<open>double\<close> of the sources: an IEEE 754 binary64 value as its 64 bits, with the conversions
  the JSON library and the monitors use. Decimal text and integer ratios are rounded exactly
  (round to nearest, ties to even), as \<open>strtod\<close> and the hardware operations do.
\<close>

type_synonym double = "64 word"

definition dbl_sign :: "double \<Rightarrow> bool" where
  "dbl_sign x = bit x 63"

definition dbl_exp :: "double \<Rightarrow> nat" where
  "dbl_exp x = unat x div 2 ^ 52 mod 2048"

definition dbl_frac :: "double \<Rightarrow> nat" where
  "dbl_frac x = unat x mod 2 ^ 52"

text \<open>\<open>std::isfinite\<close>: the exponent field is not all ones.\<close>

definition dbl_isfinite :: "double \<Rightarrow> bool" where
  "dbl_isfinite x = (dbl_exp x \<noteq> 2047)"

definition dbl_is_zero :: "double \<Rightarrow> bool" where
  "dbl_is_zero x = (unat x mod 2 ^ 63 = 0)"

definition dbl_neg :: "double \<Rightarrow> double" where
  "dbl_neg x = xor x (push_bit 63 1)"

definition dbl_inf :: double where
  "dbl_inf = 0x7FF0000000000000"

text \<open>A finite magnitude is \<open>m * 2 ^ e\<close> with these \<open>m\<close> and \<open>e\<close>.\<close>

definition dbl_mant :: "double \<Rightarrow> nat" where
  "dbl_mant x = (if dbl_exp x = 0 then dbl_frac x else 2 ^ 52 + dbl_frac x)"

definition dbl_pow :: "double \<Rightarrow> int" where
  "dbl_pow x = (if dbl_exp x = 0 then -1074 else int (dbl_exp x) - 1075)"

section \<open>Rounding a ratio\<close>

fun bitlen :: "nat \<Rightarrow> nat" where
  "bitlen n = (if n = 0 then 0 else Suc (bitlen (n div 2)))"

declare bitlen.simps [simp del]

definition round_half_even :: "nat \<Rightarrow> nat \<Rightarrow> nat" where
  "round_half_even n d =
     (let q = n div d; r = n mod d
      in if 2 * r < d then q else if d < 2 * r then Suc q else if even q then q else Suc q)"

text \<open>\<open>2 ^ e <= n / d\<close>, with \<open>e\<close> possibly negative.\<close>

definition pow2_le_ratio :: "int \<Rightarrow> nat \<Rightarrow> nat \<Rightarrow> bool" where
  "pow2_le_ratio e n d =
     (if 0 \<le> e then d * 2 ^ nat e \<le> n else d \<le> n * 2 ^ nat (- e))"

definition floor_log2 :: "nat \<Rightarrow> nat \<Rightarrow> int" where
  "floor_log2 n d =
     (let e = int (bitlen n) - int (bitlen d) in if pow2_le_ratio e n d then e else e - 1)"

text \<open>
  The bits of the double nearest to \<open>n / d\<close>. With \<open>m\<close> the rounded significand at exponent
  \<open>e\<close>, the bits are \<open>(e + 1074) * 2 ^ 52 + m\<close> for normal and subnormal results alike, and a
  carry out of the significand moves to the next exponent by itself.
\<close>

definition dbl_of_ratio :: "nat \<Rightarrow> nat \<Rightarrow> double" where
  "dbl_of_ratio n d =
     (if n = 0 then 0
      else let e = max (floor_log2 n d - 52) (- 1074);
               m = (if 0 \<le> e then round_half_even n (d * 2 ^ nat e)
                    else round_half_even (n * 2 ^ nat (- e)) d);
               b = nat (e + 1074) * 2 ^ 52 + m
           in if 2047 * 2 ^ 52 \<le> b then dbl_inf else of_nat b)"

definition dbl_of_int :: "int \<Rightarrow> double" where
  "dbl_of_int i = (if i < 0 then dbl_neg (dbl_of_ratio (nat (- i)) 1) else dbl_of_ratio (nat i) 1)"

text \<open>Conversion to an integer truncates; out of range it is undefined in C++.\<close>

definition dbl_trunc :: "double \<Rightarrow> int" where
  "dbl_trunc x =
     (let m = (if 0 \<le> dbl_pow x then dbl_mant x * 2 ^ nat (dbl_pow x)
               else dbl_mant x div 2 ^ nat (- dbl_pow x))
      in if dbl_sign x then - int m else int m)"

section \<open>Arithmetic on finite values\<close>

text \<open>The value of a finite double in units of \<open>2 ^ -1074\<close>, and an exact ratio rounded once.\<close>

definition dbl_units :: "double \<Rightarrow> int" where
  "dbl_units x =
     (let m = int (dbl_mant x * 2 ^ nat (dbl_pow x + 1074)) in if dbl_sign x then - m else m)"

definition dbl_round :: "bool \<Rightarrow> nat \<Rightarrow> nat \<Rightarrow> double" where
  "dbl_round neg n d = (if neg then dbl_neg (dbl_of_ratio n d) else dbl_of_ratio n d)"

definition dbl_sub :: "double \<Rightarrow> double \<Rightarrow> double" where
  "dbl_sub x y = (let u = dbl_units x - dbl_units y in dbl_round (u < 0) (nat \<bar>u\<bar>) (2 ^ 1074))"

definition dbl_mul :: "double \<Rightarrow> double \<Rightarrow> double" where
  "dbl_mul x y =
     dbl_round (dbl_sign x \<noteq> dbl_sign y) (nat \<bar>dbl_units x * dbl_units y\<bar>) (2 ^ 1074 * 2 ^ 1074)"

text \<open>The divisor is not zero.\<close>

definition dbl_div :: "double \<Rightarrow> double \<Rightarrow> double" where
  "dbl_div x y = dbl_round (dbl_sign x \<noteq> dbl_sign y) (nat \<bar>dbl_units x\<bar>) (nat \<bar>dbl_units y\<bar>)"

section \<open>\<open>strtod\<close> on the text of a JSON number\<close>

text \<open>
  The token has the form \<open>[-]digits[.digits][(e|E)[+|-]digits]\<close>. Its value is the integer of
  all digits before the exponent, times a power of ten.
\<close>

fun span_digits :: "string \<Rightarrow> string \<times> string" where
  "span_digits [] = ([], [])"
| "span_digits (c # cs) =
     (if is_digit c then (let (a, b) = span_digits cs in (c # a, b)) else ([], c # cs))"

definition dec_exponent :: "string \<Rightarrow> int" where
  "dec_exponent s =
     (case s of [] \<Rightarrow> 0
      | _ # t \<Rightarrow>
        (case t of [] \<Rightarrow> 0
         | c # u \<Rightarrow>
           (if c = CHR ''-'' then - int (dec_value u 0)
            else if c = CHR ''+'' then int (dec_value u 0)
            else int (dec_value t 0))))"

definition dec_scan :: "string \<Rightarrow> nat \<times> int" where
  "dec_scan s =
     (let (ip, r1) = span_digits s;
          (fp, r2) = (case r1 of [] \<Rightarrow> ([], [])
                      | c # cs \<Rightarrow> if c = CHR ''.'' then span_digits cs else ([], c # cs))
      in (dec_value (ip @ fp) 0, dec_exponent r2 - int (length fp)))"

definition dbl_of_dec :: "nat \<Rightarrow> int \<Rightarrow> double" where
  "dbl_of_dec m e =
     (if 0 \<le> e then dbl_of_ratio (m * 10 ^ nat e) 1 else dbl_of_ratio m (10 ^ nat (- e)))"

definition strtod :: "string \<Rightarrow> double" where
  "strtod s =
     (case s of
        c # cs \<Rightarrow>
          (if c = CHR ''-'' then (let (m, e) = dec_scan cs in dbl_neg (dbl_of_dec m e))
           else (let (m, e) = dec_scan s in dbl_of_dec m e))
      | [] \<Rightarrow> 0)"

section \<open>Facts\<close>

lemma bitlen_0 [simp]: "bitlen 0 = 0"
  by (simp add: bitlen.simps)

lemma bitlen_bounds: "0 < n \<Longrightarrow> 2 ^ (bitlen n - 1) \<le> n \<and> n < 2 ^ bitlen n"
proof (induction n rule: bitlen.induct)
  case (1 n)
  show ?case
  proof (cases "n = 1")
    case True
    then show ?thesis by (simp add: bitlen.simps)
  next
    case False
    with "1.prems" have half: "0 < n div 2" by linarith
    with 1 have IH: "2 ^ (bitlen (n div 2) - 1) \<le> n div 2 \<and> n div 2 < 2 ^ bitlen (n div 2)" by simp
    from half have "bitlen (n div 2) = Suc (bitlen (n div 2 div 2))" by (subst bitlen.simps) simp
    then obtain b where b: "bitlen (n div 2) = Suc b" by blast
    have bl: "bitlen n = Suc (Suc b)"
      using "1.prems" b by (subst bitlen.simps) simp
    from IH b have "2 ^ b \<le> n div 2" and "n div 2 < 2 * 2 ^ b" by auto
    then have "2 * 2 ^ b \<le> n" and "n < 4 * 2 ^ b" by linarith+
    then show ?thesis by (simp add: bl)
  qed
qed

lemma dbl_inf_not_finite [simp]: "\<not> dbl_isfinite dbl_inf"
  by (simp add: dbl_inf_def dbl_isfinite_def dbl_exp_def)

text \<open>A ratio of at least \<open>2 ^ 1024\<close> rounds to infinity.\<close>

lemma round_half_even_ge: "0 < d \<Longrightarrow> k * d \<le> n \<Longrightarrow> k \<le> round_half_even n d"
  by (auto simp: round_half_even_def Let_def less_eq_div_iff_mult_less_eq intro: le_SucI)

lemma dbl_of_ratio_overflow:
  assumes n: "2 ^ 1024 \<le> n"
  shows "dbl_of_ratio n 1 = dbl_inf"
proof -
  have pos: "0 < n" using n by (metis gr0I le_zero_eq power_not_zero zero_neq_numeral)
  define b where "b = bitlen n"
  from bitlen_bounds [OF pos] have lo: "2 ^ (b - 1) \<le> n" and hi: "n < 2 ^ b" by (auto simp: b_def)
  from n hi have "(2::nat) ^ 1024 < 2 ^ b" by simp
  then have b: "1025 \<le> b" by (metis Suc_leI eval_nat_numeral(3) one_less_numeral_iff power_less_imp_less_exp semiring_norm(76))
  have "bitlen 1 = 1" by (simp add: bitlen.simps)
  moreover have "\<not> pow2_le_ratio (int b - 1) n 1 \<Longrightarrow> False"
    using lo b by (simp add: pow2_le_ratio_def nat_diff_distrib)
  ultimately have fl: "floor_log2 n 1 = int b - 1"
    by (auto simp: floor_log2_def b_def [symmetric] Let_def)
  define e where "e = b - 53"
  have e: "max (floor_log2 n 1 - 52) (- 1074) = int e" using b fl by (simp add: e_def)
  have "2 ^ 52 * (1 * 2 ^ e) \<le> n"
  proof -
    have "b - 1 = 52 + e" using b by (simp add: e_def)
    then show ?thesis using lo by (simp only: power_add mult_1)
  qed
  then have m: "2 ^ 52 \<le> round_half_even n (1 * 2 ^ e)"
    by (intro round_half_even_ge) auto
  have "2046 \<le> e + 1074" using b by (simp add: e_def)
  then have "2046 * 2 ^ 52 \<le> (e + 1074) * 2 ^ 52" by simp
  with m have "2047 * 2 ^ 52 \<le> (e + 1074) * 2 ^ 52 + round_half_even n (1 * 2 ^ e)" by simp
  moreover have "nat (int e + 1074) = e + 1074" by simp
  ultimately show ?thesis
    unfolding dbl_of_ratio_def e using pos by (simp only: Let_def) simp
qed

end
