(* ===== verification/StdMap.thy ===== *)
theory StdMap
  imports Prelude
begin

text \<open>
  \<open>std::map\<close> and \<open>std::set\<close>: an association list in ascending key order, which is the order
  every \<open>for (auto& p : m)\<close> of the sources walks. The interface is the locale
  \<open>ordered_map\<close>; the association list interprets it.
\<close>

type_synonym ('k, 'v) omap = "('k \<times> 'v) list"

text \<open>\<open>m.find(k)\<close>, with \<open>None\<close> for \<open>m.end()\<close>.\<close>

fun om_find :: "'k::linorder \<Rightarrow> ('k, 'v) omap \<Rightarrow> 'v option" where
  "om_find k [] = None"
| "om_find k ((k', v) # m) = (if k = k' then Some v else om_find k m)"

text \<open>\<open>m[k] = v\<close>.\<close>

fun om_assign :: "'k::linorder \<Rightarrow> 'v \<Rightarrow> ('k, 'v) omap \<Rightarrow> ('k, 'v) omap" where
  "om_assign k v [] = [(k, v)]"
| "om_assign k v ((k', v') # m) =
     (if k < k' then (k, v) # (k', v') # m
      else if k = k' then (k, v) # m
      else (k', v') # om_assign k v m)"

text \<open>\<open>m.emplace(k, v)\<close>: no effect when the key is present.\<close>

definition om_emplace :: "'k::linorder \<Rightarrow> 'v \<Rightarrow> ('k, 'v) omap \<Rightarrow> ('k, 'v) omap" where
  "om_emplace k v m = (case om_find k m of None \<Rightarrow> om_assign k v m | Some _ \<Rightarrow> m)"

text \<open>\<open>m.erase(k)\<close>.\<close>

fun om_erase :: "'k::linorder \<Rightarrow> ('k, 'v) omap \<Rightarrow> ('k, 'v) omap" where
  "om_erase k [] = []"
| "om_erase k ((k', v) # m) = (if k = k' then m else (k', v) # om_erase k m)"

definition om_keys :: "('k, 'v) omap \<Rightarrow> 'k list" where
  "om_keys m = map fst m"

definition om_wf :: "('k::linorder, 'v) omap \<Rightarrow> bool" where
  "om_wf m = sorted_wrt (<) (om_keys m)"

section \<open>The interface\<close>

text \<open>
  What the components rely on: lookups after each update, and a strictly ascending walk over
  exactly the keys present.
\<close>

locale ordered_map =
  fixes find :: "'k::linorder \<Rightarrow> 'm \<Rightarrow> 'v option"
    and assign :: "'k \<Rightarrow> 'v \<Rightarrow> 'm \<Rightarrow> 'm"
    and erase :: "'k \<Rightarrow> 'm \<Rightarrow> 'm"
    and entries :: "'m \<Rightarrow> ('k \<times> 'v) list"
    and invar :: "'m \<Rightarrow> bool"
  assumes find_assign: "find k (assign k' v m) = (if k = k' then Some v else find k m)"
    and find_erase: "invar m \<Longrightarrow> find k (erase k' m) = (if k = k' then None else find k m)"
    and invar_assign: "invar m \<Longrightarrow> invar (assign k v m)"
    and invar_erase: "invar m \<Longrightarrow> invar (erase k m)"
    and entries_sorted: "invar m \<Longrightarrow> sorted_wrt (<) (map fst (entries m))"
    and entries_find: "invar m \<Longrightarrow> (k, v) \<in> set (entries m) \<longleftrightarrow> find k m = Some v"
begin

lemma find_assign_same: "find k (assign k v m) = Some v"
  by (simp add: find_assign)

lemma find_assign_other: "k \<noteq> k' \<Longrightarrow> find k (assign k' v m) = find k m"
  by (simp add: find_assign)

lemma find_assign_twice: "find k (assign j v (assign j w m)) = find k (assign j v m)"
  by (simp add: find_assign)

lemma find_fold_assign_notin:
  "k \<notin> fst ` set kvs \<Longrightarrow> find k (fold (\<lambda>(k, v). assign k v) kvs m) = find k m"
  by (induction kvs arbitrary: m) (auto simp: find_assign)

lemma invar_fold_assign: "invar m \<Longrightarrow> invar (fold (\<lambda>(k, v). assign k v) kvs m)"
  by (induction kvs arbitrary: m) (auto simp: invar_assign)

lemma invar_fold_erase: "invar m \<Longrightarrow> invar (fold erase ks m)"
  by (induction ks arbitrary: m) (auto simp: invar_erase)

lemma find_fold_erase:
  "invar m \<Longrightarrow> find k (fold erase ks m) = (if k \<in> set ks then None else find k m)"
proof (induction ks arbitrary: m)
  case Nil
  then show ?case by simp
next
  case (Cons x ks)
  then show ?case by (auto simp: find_erase invar_erase)
qed

text \<open>Two maps with the same lookups are walked in the same order.\<close>

lemma entries_unique:
  assumes "invar m" "invar m'" "\<And>k. find k m = find k m'"
  shows "entries m = entries m'"
proof -
  have s: "set (entries m) = set (entries m')"
    using assms by (auto simp: entries_find)
  have sd: "sorted_wrt (<) (map fst xs) \<Longrightarrow> inj_on fst (set xs)" for xs :: "('k \<times> 'v) list"
    by (metis distinct_map strict_sorted_iff)
  have "map fst (entries m) = map fst (entries m')"
    using s assms(1,2) entries_sorted by (intro sorted_distinct_set_unique) (auto simp: strict_sorted_iff)
  with s sd [OF entries_sorted [OF assms(1)]] show ?thesis
    by (intro map_inj_on [of fst]) auto
qed

end

section \<open>The association list implements it\<close>

lemma om_wf_Nil [simp]: "om_wf []"
  by (simp add: om_wf_def om_keys_def)

lemma om_wf_Cons:
  "om_wf ((k, v) # m) \<longleftrightarrow> (\<forall>k' \<in> fst ` set m. k < k') \<and> om_wf m"
  by (auto simp: om_wf_def om_keys_def)

lemma om_find_assign: "om_find k (om_assign k' v m) = (if k = k' then Some v else om_find k m)"
  by (induction k' v m rule: om_assign.induct) auto

lemma keys_assign: "fst ` set (om_assign k v m) = insert k (fst ` set m)"
  by (induction k v m rule: om_assign.induct) auto

lemma om_assign_subset: "set (om_assign k v m) \<subseteq> insert (k, v) (set m)"
  by (induction k v m rule: om_assign.induct) auto

lemma om_wf_assign: "om_wf m \<Longrightarrow> om_wf (om_assign k v m)"
proof (induction k v m rule: om_assign.induct)
  case (2 k v k' v' m)
  then show ?case by (fastforce simp: om_wf_Cons keys_assign)
qed (simp add: om_wf_Cons)

lemma om_find_Some_mem: "om_find k m = Some v \<Longrightarrow> (k, v) \<in> set m"
  by (induction k m rule: om_find.induct) (auto split: if_splits)

lemma om_find_None_iff: "om_find k m = None \<longleftrightarrow> k \<notin> fst ` set m"
  by (induction k m rule: om_find.induct) auto

lemma om_mem_find: "om_wf m \<Longrightarrow> (k, v) \<in> set m \<longleftrightarrow> om_find k m = Some v"
proof (induction k m rule: om_find.induct)
  case (2 k k' v' m)
  then have "(\<forall>j \<in> fst ` set m. k' < j)" by (simp add: om_wf_Cons)
  then have "k' \<notin> fst ` set m" by auto
  with 2 show ?case by (auto simp: om_wf_Cons rev_image_eqI)
qed simp

lemma keys_erase: "om_wf m \<Longrightarrow> fst ` set (om_erase k m) = fst ` set m - {k}"
proof (induction k m rule: om_erase.induct)
  case (2 k k' v m)
  then show ?case by (auto simp: om_wf_Cons)
qed simp

lemma om_wf_erase: "om_wf m \<Longrightarrow> om_wf (om_erase k m)"
proof (induction k m rule: om_erase.induct)
  case (2 k k' v m)
  then show ?case by (auto simp: om_wf_Cons keys_erase)
qed simp

lemma om_find_erase: "om_wf m \<Longrightarrow> om_find k (om_erase k' m) = (if k = k' then None else om_find k m)"
proof (induction k' m rule: om_erase.induct)
  case (2 k' j v m)
  then have "k' = j \<Longrightarrow> om_find j m = None"
    by (auto simp: om_wf_Cons om_find_None_iff)
  with 2 show ?case by (auto simp: om_wf_Cons)
qed simp

lemma om_wf_sorted: "om_wf m \<Longrightarrow> sorted_wrt (<) (map fst m)"
  by (simp add: om_wf_def om_keys_def)

interpretation om: ordered_map om_find om_assign om_erase "\<lambda>m. m" om_wf
  by unfold_locales
    (simp_all add: om_find_assign om_find_erase om_wf_assign om_wf_erase om_mem_find om_wf_sorted)

lemma om_wf_emplace: "om_wf m \<Longrightarrow> om_wf (om_emplace k v m)"
  by (auto simp: om_emplace_def om_wf_assign split: option.splits)

lemma om_emplace_subset: "set (om_emplace k v m) \<subseteq> insert (k, v) (set m)"
  using om_assign_subset [of k v m] by (cases "om_find k m") (simp_all add: om_emplace_def subset_insertI)

lemma fold_emplace_all:
  "\<forall>x \<in> set m. P x \<Longrightarrow> \<forall>x \<in> set kvs. P x \<Longrightarrow> \<forall>x \<in> set (fold (\<lambda>(k, v). om_emplace k v) kvs m). P x"
proof (induction kvs arbitrary: m)
  case (Cons kv kvs)
  obtain k v where kv: "kv = (k, v)" by force
  have "P x" if "x \<in> set (om_emplace k v m)" for x
    using subsetD [OF om_emplace_subset that] Cons.prems kv by auto
  then have "\<forall>x \<in> set (om_emplace k v m). P x" by blast
  from Cons.IH [OF this] Cons.prems(2) kv show ?case by simp
qed simp

lemma om_find_emplace:
  "om_find k (om_emplace k' v m) =
     (if k = k' then (case om_find k m of None \<Rightarrow> Some v | Some w \<Rightarrow> Some w) else om_find k m)"
  by (auto simp: om_emplace_def om_find_assign split: option.splits)

lemmas om_map_simps [omap_simps] =
  om_find_assign om_find_erase om_wf_assign om_wf_erase om_find_emplace om_wf_emplace

section \<open>\<open>std::set\<close>\<close>

type_synonym 'k oset = "('k, unit) omap"

definition os_insert :: "'k::linorder \<Rightarrow> 'k oset \<Rightarrow> 'k oset" where
  "os_insert k s = om_assign k () s"

definition os_member :: "'k::linorder \<Rightarrow> 'k oset \<Rightarrow> bool" where
  "os_member k s = (om_find k s \<noteq> None)"

definition os_elems :: "'k oset \<Rightarrow> 'k list" where
  "os_elems s = map fst s"

lemma os_member_insert [omap_simps]: "os_member k (os_insert k' s) = (k = k' \<or> os_member k s)"
  by (simp add: os_member_def os_insert_def om_find_assign)

lemma os_wf_insert [omap_simps]: "om_wf s \<Longrightarrow> om_wf (os_insert k s)"
  by (simp add: os_insert_def om_wf_assign)

lemma os_member_elems: "os_member k s \<longleftrightarrow> k \<in> set (os_elems s)"
  by (simp add: os_member_def os_elems_def om_find_None_iff)

lemma os_member_Nil [simp]: "\<not> os_member k []"
  by (simp add: os_member_def)

end
