(* ===== verification/Json.thy ===== *)
theory Json
  imports Double StdMap
begin

text \<open>
  The values of \<open>nlohmann::json\<close> (\<open>common/json.hpp\<close>) the servers use, the exceptions its
  operations throw, and the accessors the servers call: \<open>operator[]\<close> with a key, \<open>push_back\<close>,
  \<open>value\<close> with a default, and the conversions behind \<open>value\<close>.

  Numbers keep their C++ width: \<open>JInt\<close> is \<open>number_integer\<close> (64 bits, two's complement), \<open>JUInt\<close>
  is \<open>number_unsigned\<close>, \<open>JFloat\<close> a double. An object is a \<open>std::map\<close> from keys to values. The
  kinds \<open>binary\<close> and \<open>discarded\<close> are never made by the servers and are left out.
\<close>

datatype json =
    JNull
  | JBool bool
  | JString string
  | JInt uint64
  | JUInt uint64
  | JFloat double
  | JArray "json list"
  | JObject "(string \<times> json) list"

text \<open>
  The exceptions, with the library's numbers. \<open>Undefined\<close> stands for behaviour C++ leaves
  undefined (a double converted to an integer type it does not fit).
\<close>

datatype exn = ParseError nat | TypeError nat | OutOfRange nat | Undefined

text \<open>What \<open>catch (const json::parse_error&)\<close> catches.\<close>

fun is_parse_error :: "exn \<Rightarrow> bool" where
  "is_parse_error (ParseError n) = True"
| "is_parse_error _ = False"

section \<open>Kinds\<close>

fun is_object :: "json \<Rightarrow> bool" where
  "is_object (JObject m) = True"
| "is_object _ = False"

fun is_array :: "json \<Rightarrow> bool" where
  "is_array (JArray xs) = True"
| "is_array _ = False"

section \<open>Modifying access\<close>

text \<open>\<open>j[key] = v\<close>: null becomes an object first.\<close>

fun json_set :: "json \<Rightarrow> string \<Rightarrow> json \<Rightarrow> exn + json" where
  "json_set JNull key v = Inr (JObject (om_assign key v []))"
| "json_set (JObject m) key v = Inr (JObject (om_assign key v m))"
| "json_set _ key v = Inl (TypeError 305)"

text \<open>\<open>j.push_back(v)\<close>: null becomes an array first.\<close>

fun json_push_back :: "json \<Rightarrow> json \<Rightarrow> exn + json" where
  "json_push_back JNull v = Inr (JArray [v])"
| "json_push_back (JArray xs) v = Inr (JArray (xs @ [v]))"
| "json_push_back _ v = Inl (TypeError 308)"

section \<open>Conversions\<close>

fun from_json_string :: "json \<Rightarrow> exn + string" where
  "from_json_string (JString s) = Inr s"
| "from_json_string _ = Inl (TypeError 302)"

fun from_json_bool :: "json \<Rightarrow> exn + bool" where
  "from_json_bool (JBool b) = Inr b"
| "from_json_bool _ = Inl (TypeError 302)"

text \<open>\<open>double\<close> is the library's own float type: booleans are rejected.\<close>

fun from_json_double :: "json \<Rightarrow> exn + double" where
  "from_json_double (JUInt n) = Inr (dbl_of_int (uint n))"
| "from_json_double (JInt n) = Inr (dbl_of_int (sint n))"
| "from_json_double (JFloat x) = Inr x"
| "from_json_double _ = Inl (TypeError 302)"

text \<open>
  \<open>int\<close> and \<open>unsigned int\<close> go through the overload for other arithmetic types, which takes
  booleans too. Integers keep their low 32 bits.
\<close>

definition dbl_to_32 :: "int \<Rightarrow> int \<Rightarrow> double \<Rightarrow> exn + uint32" where
  "dbl_to_32 lo hi x =
     (if dbl_isfinite x \<and> lo \<le> dbl_trunc x \<and> dbl_trunc x \<le> hi
      then Inr (of_int (dbl_trunc x)) else Inl Undefined)"

fun from_json_arith32 :: "int \<Rightarrow> int \<Rightarrow> json \<Rightarrow> exn + uint32" where
  "from_json_arith32 lo hi (JUInt n) = Inr (ucast n)"
| "from_json_arith32 lo hi (JInt n) = Inr (ucast n)"
| "from_json_arith32 lo hi (JFloat x) = dbl_to_32 lo hi x"
| "from_json_arith32 lo hi (JBool b) = Inr (if b then 1 else 0)"
| "from_json_arith32 lo hi _ = Inl (TypeError 302)"

definition from_json_int :: "json \<Rightarrow> exn + uint32" where
  "from_json_int = from_json_arith32 (- (2 ^ 31)) (2 ^ 31 - 1)"

definition from_json_uint :: "json \<Rightarrow> exn + uint32" where
  "from_json_uint = from_json_arith32 0 (2 ^ 32 - 1)"

section \<open>\<open>value\<close> with a default\<close>

definition json_value :: "(json \<Rightarrow> exn + 'a) \<Rightarrow> json \<Rightarrow> string \<Rightarrow> 'a \<Rightarrow> exn + 'a" where
  "json_value get j key dflt =
     (case j of
        JObject m \<Rightarrow> (case om_find key m of Some v \<Rightarrow> get v | None \<Rightarrow> Inr dflt)
      | _ \<Rightarrow> Inl (TypeError 306))"

abbreviation value_string :: "json \<Rightarrow> string \<Rightarrow> string \<Rightarrow> exn + string" where
  "value_string \<equiv> json_value from_json_string"

abbreviation value_bool :: "json \<Rightarrow> string \<Rightarrow> bool \<Rightarrow> exn + bool" where
  "value_bool \<equiv> json_value from_json_bool"

text \<open>
  The constructor from an initializer list, with type deduction: an object if every element is
  an array of two whose first is a string, and then the first of two equal keys stays; else an array.
\<close>

fun init_pair :: "json \<Rightarrow> bool" where
  "init_pair (JArray [JString k, v]) = True"
| "init_pair _ = False"

fun emplace_pair :: "json \<Rightarrow> (string \<times> json) list \<Rightarrow> (string \<times> json) list" where
  "emplace_pair (JArray [JString k, v]) m = om_emplace k v m"
| "emplace_pair _ m = m"

definition json_init_list :: "json list \<Rightarrow> json" where
  "json_init_list init =
     (if \<forall>element \<in> set init. init_pair element then JObject (fold emplace_pair init [])
      else JArray init)"

text \<open>An object literal \<open>{{k1, v1}, {k2, v2}}\<close>, as the servers write it.\<close>

definition json_object :: "(string \<times> json) list \<Rightarrow> json" where
  "json_object kvs = JObject (fold (\<lambda>(k, v) m. om_emplace k v m) kvs [])"

lemma json_object_init_list: "json_init_list (map (\<lambda>(k, v). JArray [JString k, v]) kvs) = json_object kvs"
proof -
  have "fold emplace_pair (map (\<lambda>(k, v). JArray [JString k, v]) kvs) m = fold (\<lambda>(k, v) m. om_emplace k v m) kvs m" for m
    by (induction kvs arbitrary: m) auto
  then show ?thesis by (auto simp: json_init_list_def json_object_def)
qed

section \<open>Well-formed values\<close>

text \<open>Every object is a \<open>std::map\<close>: its keys ascend strictly.\<close>

fun json_wf :: "json \<Rightarrow> bool" where
  "json_wf (JArray xs) = (\<forall>x \<in> set xs. json_wf x)"
| "json_wf (JObject m) = (om_wf m \<and> (\<forall>kv \<in> set m. json_wf (snd kv)))"
| "json_wf _ = True"

lemma set_om_assign: "set (om_assign k v m) \<subseteq> insert (k, v) (set m)"
  by (induction k v m rule: om_assign.induct) auto

lemma json_wf_assign:
  assumes "json_wf (JObject m)" "json_wf v"
  shows "json_wf (JObject (om_assign k v m))"
  using assms set_om_assign [of k v m] by (auto simp: om_wf_assign)

lemma json_set_wf: "json_wf j \<Longrightarrow> json_wf v \<Longrightarrow> json_set j k v = Inr j' \<Longrightarrow> json_wf j'"
  by (cases j) (fastforce simp: om_wf_assign om_wf_Cons dest: subsetD [OF set_om_assign])+

lemma json_push_back_wf: "json_wf j \<Longrightarrow> json_wf v \<Longrightarrow> json_push_back j v = Inr j' \<Longrightarrow> json_wf j'"
  by (cases j) auto

lemma json_object_wf: "\<forall>kv \<in> set kvs. json_wf (snd kv) \<Longrightarrow> json_wf (json_object kvs)"
proof -
  have "json_wf (JObject m) \<Longrightarrow> \<forall>kv \<in> set kvs. json_wf (snd kv) \<Longrightarrow>
      json_wf (JObject (fold (\<lambda>(k, v) m. om_emplace k v m) kvs m))" for m
  proof (induction kvs arbitrary: m)
    case Nil
    then show ?case by simp
  next
    case (Cons kv kvs)
    obtain k v where kv: "kv = (k, v)" by force
    have "json_wf (JObject (om_emplace k v m))"
      using Cons.prems kv by (auto simp: om_emplace_def simp del: json_wf.simps(2)
          intro: json_wf_assign split: option.splits)
    with Cons show ?case by (simp add: kv del: json_wf.simps(2))
  qed
  from this [of "[]"] show "\<forall>kv \<in> set kvs. json_wf (snd kv) \<Longrightarrow> json_wf (json_object kvs)"
    by (simp add: json_object_def)
qed

section \<open>Facts the components share\<close>

lemma json_value_object [json_simps]:
  "json_value get (JObject m) k d = (case om_find k m of Some v \<Rightarrow> get v | None \<Rightarrow> Inr d)"
  by (simp add: json_value_def)

lemma json_value_not_object [json_simps]:
  "\<not> is_object j \<Longrightarrow> json_value get j k d = Inl (TypeError 306)"
  by (cases j) (auto simp: json_value_def)

lemma json_set_value [json_simps]:
  "json_set j k v = Inr j' \<Longrightarrow> json_value get j' k d = get v"
  by (cases j) (auto simp: json_value_def om_find_assign)

lemma json_set_value_other:
  "json_set j k v = Inr j' \<Longrightarrow> is_object j \<Longrightarrow> k' \<noteq> k \<Longrightarrow>
   json_value get j' k' d = json_value get j k' d"
  by (cases j) (auto simp: json_value_def om_find_assign)

lemma json_set_Inl_iff [json_simps]:
  "json_set j k v = Inl e \<longleftrightarrow> e = TypeError 305 \<and> j \<noteq> JNull \<and> \<not> is_object j"
  by (cases j) auto

lemma json_set_object: "json_set j k v = Inr j' \<Longrightarrow> is_object j'"
  by (cases j) auto

fun_cases json_set_ArrayE: "json_set (JArray xs) k v = r"

end
