(* ===== verification/Dtoa.thy ===== *)
theory Dtoa
  imports Double "HOL-Library.Signed_Division"
begin

text \<open>
  The Grisu2 conversion of a finite double to decimal text (namespace \<open>dtoa_impl\<close> and
  \<open>to_chars\<close> of \<open>common/json.hpp\<close>). Significands are 64-bit words, so every product, shift and
  subtraction wraps as in the source; exponents are integers. The source's assertions that make
  its loops end are the guards of the recursions here.
\<close>

unbundle bit_operations_syntax

section \<open>\<open>diyfp\<close>\<close>

record diyfp =
  dfp_f :: uint64
  dfp_e :: int

definition dfp_sub :: "diyfp \<Rightarrow> diyfp \<Rightarrow> diyfp" where
  "dfp_sub x y = \<lparr>dfp_f = dfp_f x - dfp_f y, dfp_e = dfp_e x\<rparr>"

definition dfp_mul :: "diyfp \<Rightarrow> diyfp \<Rightarrow> diyfp" where
  "dfp_mul x y =
     (let u_lo = dfp_f x AND 0xFFFFFFFF; u_hi = drop_bit 32 (dfp_f x);
          v_lo = dfp_f y AND 0xFFFFFFFF; v_hi = drop_bit 32 (dfp_f y);
          p0 = u_lo * v_lo; p1 = u_lo * v_hi; p2 = u_hi * v_lo; p3 = u_hi * v_hi;
          p0_hi = drop_bit 32 p0;
          p1_lo = p1 AND 0xFFFFFFFF; p1_hi = drop_bit 32 p1;
          p2_lo = p2 AND 0xFFFFFFFF; p2_hi = drop_bit 32 p2;
          Q = p0_hi + p1_lo + p2_lo;
          Q' = Q + push_bit 31 1;
          h = p3 + p2_hi + p1_hi + drop_bit 32 Q'
      in \<lparr>dfp_f = h, dfp_e = dfp_e x + dfp_e y + 64\<rparr>)"

function dfp_normalize :: "diyfp \<Rightarrow> diyfp" where
  "dfp_normalize x =
     (if dfp_f x \<noteq> 0 \<and> \<not> bit (dfp_f x) 63
      then dfp_normalize \<lparr>dfp_f = push_bit 1 (dfp_f x), dfp_e = dfp_e x - 1\<rparr>
      else x)"
  by pat_completeness auto

lemma unat_less_2p63: "\<not> bit (w :: uint64) 63 \<Longrightarrow> unat w < 2 ^ 63"
proof -
  assume "\<not> bit w 63"
  then have "even (unat w div 2 ^ 63)"
    using bit_unsigned_iff [where w = w and n = 63 and 'a = nat] by (simp add: bit_iff_odd)
  moreover have "unat w < 2 * 2 ^ 63" using unsigned_less [where w = w and 'a = nat] by simp
  then have "unat w div 2 ^ 63 < 2" by (simp add: less_mult_imp_div_less)
  ultimately have "unat w div 2 ^ 63 = 0" by (metis less_2_cases odd_one One_nat_def)
  then show ?thesis by (simp add: div_eq_0_iff)
qed

lemma unat_push_bit_1: "\<not> bit (w :: uint64) 63 \<Longrightarrow> unat (w * 2) = unat w * 2"
  using unat_less_2p63 [of w] by (simp add: unat_mult_lem [THEN iffD1])

termination dfp_normalize
proof (relation "measure (\<lambda>x. 2 ^ 64 - unat (dfp_f x))", goal_cases)
  case (2 x)
  then have "0 < unat (dfp_f x)" and "unat (dfp_f x) < 2 ^ 64"
    using unsigned_less [where w = "dfp_f x" and 'a = nat] by (auto simp: unat_gt_0)
  with 2 show ?case by (simp add: unat_push_bit_1 push_bit_eq_mult mult.commute)
qed simp

definition dfp_normalize_to :: "diyfp \<Rightarrow> int \<Rightarrow> diyfp" where
  "dfp_normalize_to x target_exponent =
     \<lparr>dfp_f = push_bit (nat (dfp_e x - target_exponent)) (dfp_f x), dfp_e = target_exponent\<rparr>"

section \<open>Boundaries\<close>

record boundaries =
  bnd_w :: diyfp
  bnd_minus :: diyfp
  bnd_plus :: diyfp

definition compute_boundaries :: "double \<Rightarrow> boundaries" where
  "compute_boundaries bits =
     (let hidden_bit = push_bit 52 1 :: uint64;
          E = drop_bit 52 bits;
          F = bits AND (hidden_bit - 1);
          v = (if E = 0 then \<lparr>dfp_f = F, dfp_e = - 1074\<rparr>
               else \<lparr>dfp_f = F + hidden_bit, dfp_e = int (unat E) - 1075\<rparr>);
          lower_boundary_is_closer = (F = 0 \<and> 1 < E);
          m_plus = \<lparr>dfp_f = 2 * dfp_f v + 1, dfp_e = dfp_e v - 1\<rparr>;
          m_minus = (if lower_boundary_is_closer
                     then \<lparr>dfp_f = 4 * dfp_f v - 1, dfp_e = dfp_e v - 2\<rparr>
                     else \<lparr>dfp_f = 2 * dfp_f v - 1, dfp_e = dfp_e v - 1\<rparr>);
          w_plus = dfp_normalize m_plus;
          w_minus = dfp_normalize_to m_minus (dfp_e w_plus)
      in \<lparr>bnd_w = dfp_normalize v, bnd_minus = w_minus, bnd_plus = w_plus\<rparr>)"

section \<open>Cached powers of ten\<close>

definition kCachedPowers :: "(uint64 \<times> int \<times> int) list" where
  "kCachedPowers =
    [(0xAB70FE17C79AC6CA, - 1060, - 300),
     (0xFF77B1FCBEBCDC4F, - 1034, - 292),
     (0xBE5691EF416BD60C, - 1007, - 284),
     (0x8DD01FAD907FFC3C, - 980, - 276),
     (0xD3515C2831559A83, - 954, - 268),
     (0x9D71AC8FADA6C9B5, - 927, - 260),
     (0xEA9C227723EE8BCB, - 901, - 252),
     (0xAECC49914078536D, - 874, - 244),
     (0x823C12795DB6CE57, - 847, - 236),
     (0xC21094364DFB5637, - 821, - 228),
     (0x9096EA6F3848984F, - 794, - 220),
     (0xD77485CB25823AC7, - 768, - 212),
     (0xA086CFCD97BF97F4, - 741, - 204),
     (0xEF340A98172AACE5, - 715, - 196),
     (0xB23867FB2A35B28E, - 688, - 188),
     (0x84C8D4DFD2C63F3B, - 661, - 180),
     (0xC5DD44271AD3CDBA, - 635, - 172),
     (0x936B9FCEBB25C996, - 608, - 164),
     (0xDBAC6C247D62A584, - 582, - 156),
     (0xA3AB66580D5FDAF6, - 555, - 148),
     (0xF3E2F893DEC3F126, - 529, - 140),
     (0xB5B5ADA8AAFF80B8, - 502, - 132),
     (0x87625F056C7C4A8B, - 475, - 124),
     (0xC9BCFF6034C13053, - 449, - 116),
     (0x964E858C91BA2655, - 422, - 108),
     (0xDFF9772470297EBD, - 396, - 100),
     (0xA6DFBD9FB8E5B88F, - 369, - 92),
     (0xF8A95FCF88747D94, - 343, - 84),
     (0xB94470938FA89BCF, - 316, - 76),
     (0x8A08F0F8BF0F156B, - 289, - 68),
     (0xCDB02555653131B6, - 263, - 60),
     (0x993FE2C6D07B7FAC, - 236, - 52),
     (0xE45C10C42A2B3B06, - 210, - 44),
     (0xAA242499697392D3, - 183, - 36),
     (0xFD87B5F28300CA0E, - 157, - 28),
     (0xBCE5086492111AEB, - 130, - 20),
     (0x8CBCCC096F5088CC, - 103, - 12),
     (0xD1B71758E219652C, - 77, - 4),
     (0x9C40000000000000, - 50, 4),
     (0xE8D4A51000000000, - 24, 12),
     (0xAD78EBC5AC620000, 3, 20),
     (0x813F3978F8940984, 30, 28),
     (0xC097CE7BC90715B3, 56, 36),
     (0x8F7E32CE7BEA5C70, 83, 44),
     (0xD5D238A4ABE98068, 109, 52),
     (0x9F4F2726179A2245, 136, 60),
     (0xED63A231D4C4FB27, 162, 68),
     (0xB0DE65388CC8ADA8, 189, 76),
     (0x83C7088E1AAB65DB, 216, 84),
     (0xC45D1DF942711D9A, 242, 92),
     (0x924D692CA61BE758, 269, 100),
     (0xDA01EE641A708DEA, 295, 108),
     (0xA26DA3999AEF774A, 322, 116),
     (0xF209787BB47D6B85, 348, 124),
     (0xB454E4A179DD1877, 375, 132),
     (0x865B86925B9BC5C2, 402, 140),
     (0xC83553C5C8965D3D, 428, 148),
     (0x952AB45CFA97A0B3, 455, 156),
     (0xDE469FBD99A05FE3, 481, 164),
     (0xA59BC234DB398C25, 508, 172),
     (0xF6C69A72A3989F5C, 534, 180),
     (0xB7DCBF5354E9BECE, 561, 188),
     (0x88FCF317F22241E2, 588, 196),
     (0xCC20CE9BD35C78A5, 614, 204),
     (0x98165AF37B2153DF, 641, 212),
     (0xE2A0B5DC971F303A, 667, 220),
     (0xA8D9D1535CE3B396, 694, 228),
     (0xFB9B7CD9A4A7443C, 720, 236),
     (0xBB764C4CA7A44410, 747, 244),
     (0x8BAB8EEFB6409C1A, 774, 252),
     (0xD01FEF10A657842C, 800, 260),
     (0x9B10A4E5E9913129, 827, 268),
     (0xE7109BFBA19C0C9D, 853, 276),
     (0xAC2820D9623BF429, 880, 284),
     (0x80444B5E7AA7CF85, 907, 292),
     (0xBF21E44003ACDD2D, 933, 300),
     (0x8E679C2F5E44FF8F, 960, 308),
     (0xD433179D9C8CB841, 986, 316),
     (0x9E19DB92B4E31BA9, 1013, 324)]"

definition get_cached_power_for_binary_exponent :: "int \<Rightarrow> uint64 \<times> int \<times> int" where
  "get_cached_power_for_binary_exponent e =
     (let f = - 60 - e - 1;
          k = (f * 78913) sdiv 2 ^ 18 + (if 0 < f then 1 else 0);
          index = (300 + k + (8 - 1)) sdiv 8
      in kCachedPowers ! nat index)"

section \<open>Digit generation\<close>

definition find_largest_pow10 :: "uint32 \<Rightarrow> nat \<times> uint32" where
  "find_largest_pow10 n =
     (if 1000000000 \<le> n then (10, 1000000000)
      else if 100000000 \<le> n then (9, 100000000)
      else if 10000000 \<le> n then (8, 10000000)
      else if 1000000 \<le> n then (7, 1000000)
      else if 100000 \<le> n then (6, 100000)
      else if 10000 \<le> n then (5, 10000)
      else if 1000 \<le> n then (4, 1000)
      else if 100 \<le> n then (3, 100)
      else if 10 \<le> n then (2, 10)
      else (1, 1))"

text \<open>\<open>buf[len - 1]--\<close>.\<close>

definition dec_last :: "string \<Rightarrow> string" where
  "dec_last buf = butlast buf @ [char_of (of_char (last buf) - (1 :: nat))]"

text \<open>The guard holds the assertions \<open>rest <= delta\<close>, \<open>dist <= delta\<close> and \<open>ten_k > 0\<close>.\<close>

function grisu2_round :: "string \<Rightarrow> uint64 \<Rightarrow> uint64 \<Rightarrow> uint64 \<Rightarrow> uint64 \<Rightarrow> string" where
  "grisu2_round buf dist delta rest ten_k =
     (if rest \<le> delta \<and> dist \<le> delta \<and> 0 < ten_k
         \<and> rest < dist \<and> ten_k \<le> delta - rest
         \<and> (rest + ten_k < dist \<or> rest + ten_k - dist < dist - rest)
      then grisu2_round (dec_last buf) dist delta (rest + ten_k) ten_k
      else buf)"
  by pat_completeness auto

lemma word_add_le_sub: "(r :: uint64) \<le> d \<Longrightarrow> t \<le> d - r \<Longrightarrow> unat (r + t) = unat r + unat t"
proof -
  assume rd: "r \<le> d" and t: "t \<le> d - r"
  then have "unat (d - r) = unat d - unat r" by (simp add: unat_sub word_le_nat_alt)
  with rd t have "unat r + unat t \<le> unat d" by (simp add: word_le_nat_alt)
  also have "\<dots> < 2 ^ 64" using unsigned_less [where w = d and 'a = nat] by simp
  finally show ?thesis by (simp add: unat_add_lem [THEN iffD1])
qed

termination grisu2_round
proof (relation "measure (\<lambda>(buf, dist, delta, rest, ten_k). 2 ^ 64 - unat rest)", goal_cases)
  case (2 buf dist delta rest ten_k)
  then have "unat (rest + ten_k) = unat rest + unat ten_k" and "0 < unat ten_k"
    by (auto simp: word_add_le_sub unat_gt_0)
  moreover have "unat rest < 2 ^ 64" using unsigned_less [where w = rest and 'a = nat] by simp
  ultimately show ?case by simp
qed simp

text \<open>
  The integral digits: \<open>Inl\<close> when digits remain to be generated, \<open>Inr\<close> when the loop returned.
\<close>

type_synonym digits_out = "string \<times> int"

fun digit_gen_int ::
  "nat \<Rightarrow> string \<Rightarrow> uint32 \<Rightarrow> uint32 \<Rightarrow> int \<Rightarrow> nat \<Rightarrow> uint64 \<Rightarrow> uint64 \<Rightarrow> uint64 \<Rightarrow>
   string + digits_out" where
  "digit_gen_int 0 buf p1 pow10 dexp sh p2 delta dist = Inl buf"
| "digit_gen_int (Suc n) buf p1 pow10 dexp sh p2 delta dist =
     (let d = p1 div pow10; r = p1 mod pow10;
          buf' = buf @ [digit_char (unat d)];
          rest = push_bit sh (ucast r :: uint64) + p2
      in if rest \<le> delta
         then Inr (grisu2_round buf' dist delta rest (push_bit sh (ucast pow10)), dexp + int n)
         else digit_gen_int n buf' r (pow10 div 10) dexp sh p2 delta dist)"

text \<open>
  The fractional digits, with \<open>sh = - one.e\<close>. The guard holds the assertions \<open>p2 > delta\<close> and
  \<open>p2 <= max / 10\<close>, and \<open>delta > 0\<close> (the interval \<open>[M-, M+]\<close> is not a point).
\<close>

function digit_gen_frac ::
  "string \<Rightarrow> nat \<Rightarrow> nat \<Rightarrow> uint64 \<Rightarrow> uint64 \<Rightarrow> uint64 \<Rightarrow> string \<times> nat" where
  "digit_gen_frac buf m sh p2 delta dist =
     (if 0 < delta \<and> delta < p2 \<and> p2 \<le> 0x1999999999999999
      then let p10 = p2 * 10;
               d = drop_bit sh p10;
               r = p10 AND (push_bit sh 1 - 1);
               buf' = buf @ [digit_char (unat d)];
               delta' = delta * 10; dist' = dist * 10
           in if r \<le> delta' then (grisu2_round buf' dist' delta' r (push_bit sh 1), Suc m)
              else digit_gen_frac buf' (Suc m) sh r delta' dist'
      else (buf, m))"
  by pat_completeness auto

termination
proof (relation "measure (\<lambda>(buf, m, sh, p2, delta, dist). 2 ^ 64 - unat delta)", goal_cases)
  case (2 buf m sh p2 delta dist p10 d r buf' delta' dist')
  then have "unat delta < unat p2" "unat p2 \<le> unat (0x1999999999999999 :: uint64)" "0 < unat delta"
    by (auto simp: word_less_nat_alt word_le_nat_alt unat_gt_0)
  then have "unat delta * 10 < 2 ^ 64" and "0 < unat delta" by auto
  moreover have "delta' = delta * 10" by (fact 2)
  ultimately show ?case by (simp add: unat_mult_lem [THEN iffD1])
qed simp

definition grisu2_digit_gen :: "int \<Rightarrow> diyfp \<Rightarrow> diyfp \<Rightarrow> diyfp \<Rightarrow> digits_out" where
  "grisu2_digit_gen decimal_exponent M_minus w M_plus =
     (let delta = dfp_f (dfp_sub M_plus M_minus);
          dist = dfp_f (dfp_sub M_plus w);
          sh = nat (- dfp_e M_plus);
          p1 = (ucast (drop_bit sh (dfp_f M_plus)) :: uint32);
          p2 = dfp_f M_plus AND (push_bit sh 1 - 1);
          (k, pow10) = find_largest_pow10 p1
      in case digit_gen_int k [] p1 pow10 decimal_exponent sh p2 delta dist of
           Inr out \<Rightarrow> out
         | Inl buf \<Rightarrow>
             (let (buf', m) = digit_gen_frac buf 0 sh p2 delta dist
              in (buf', decimal_exponent - int m)))"

definition grisu2_scaled :: "diyfp \<Rightarrow> diyfp \<Rightarrow> diyfp \<Rightarrow> digits_out" where
  "grisu2_scaled m_minus v m_plus =
     (let (cf, ce, ck) = get_cached_power_for_binary_exponent (dfp_e m_plus);
          c_minus_k = \<lparr>dfp_f = cf, dfp_e = ce\<rparr>;
          w = dfp_mul v c_minus_k;
          w_minus = dfp_mul m_minus c_minus_k;
          w_plus = dfp_mul m_plus c_minus_k;
          M_minus = \<lparr>dfp_f = dfp_f w_minus + 1, dfp_e = dfp_e w_minus\<rparr>;
          M_plus = \<lparr>dfp_f = dfp_f w_plus - 1, dfp_e = dfp_e w_plus\<rparr>
      in grisu2_digit_gen (- ck) M_minus w M_plus)"

definition grisu2 :: "double \<Rightarrow> digits_out" where
  "grisu2 value =
     (let b = compute_boundaries value in grisu2_scaled (bnd_minus b) (bnd_w b) (bnd_plus b))"

section \<open>Formatting\<close>

definition append_exponent :: "string \<Rightarrow> int \<Rightarrow> string" where
  "append_exponent buf e =
     (let sgn = (if e < 0 then ''-'' else ''+'');
          k = nat (abs e)
      in buf @ sgn @
         (if k < 10 then [digit_char 0, digit_char k]
          else if k < 100 then [digit_char (k div 10), digit_char (k mod 10)]
          else [digit_char (k div 100), digit_char (k mod 100 div 10), digit_char (k mod 100 mod 10)]))"

definition format_buffer :: "string \<Rightarrow> int \<Rightarrow> int \<Rightarrow> int \<Rightarrow> string" where
  "format_buffer buf decimal_exponent min_exp max_exp =
     (let k = int (length buf); n = k + decimal_exponent
      in if k \<le> n \<and> n \<le> max_exp
         then buf @ replicate (nat (n - k)) (CHR ''0'') @ ''.0''
         else if 0 < n \<and> n \<le> max_exp
         then take (nat n) buf @ ''.'' @ drop (nat n) buf
         else if min_exp < n \<and> n \<le> 0
         then ''0.'' @ replicate (nat (- n)) (CHR ''0'') @ buf
         else if k = 1 then append_exponent (buf @ ''e'') (n - 1)
         else append_exponent (take 1 buf @ ''.'' @ drop 1 buf @ ''e'') (n - 1))"

definition to_chars :: "double \<Rightarrow> string" where
  "to_chars x =
     (let sgn = (if dbl_sign x then ''-'' else []);
          value = (if dbl_sign x then dbl_neg x else x)
      in if dbl_is_zero value then sgn @ ''0.0''
         else let (buf, decimal_exponent) = grisu2 value
              in sgn @ format_buffer buf decimal_exponent (- 4) 15)"

declare dfp_normalize.simps [simp del] grisu2_round.simps [simp del] digit_gen_frac.simps [simp del]

end
