(* ===== verification/JsonDump.thy ===== *)
theory JsonDump
  imports Json Dtoa
begin

text \<open>
  The serializer of \<open>common/json.hpp\<close> with the arguments of \<open>dump()\<close>: no indentation, no
  \<open>ensure_ascii\<close>, the strict error handler. The 512 byte string buffer is part of the state, so
  its bounds are a theorem.
\<close>

unbundle bit_operations_syntax

section \<open>The UTF-8 decoder\<close>

definition utf8d :: "nat list" where
  "utf8d =
     replicate 128 0
     @ replicate 16 1 @ replicate 16 9
     @ replicate 32 7
     @ replicate 2 8 @ replicate 30 2
     @ [0xA, 3, 3, 3, 3, 3, 3, 3, 3, 3, 3, 3, 3, 4, 3, 3]
     @ [0xB, 6, 6, 6, 5, 8, 8, 8, 8, 8, 8, 8, 8, 8, 8, 8]
     @ [0, 1, 2, 3, 5, 8, 7, 1, 1, 1, 4, 6, 1, 1, 1, 1]
     @ [1, 1, 1, 1, 1, 1, 1, 1, 1, 1, 1, 1, 1, 1, 1, 1]
     @ [1, 0, 1, 1, 1, 1, 1, 0, 1, 0, 1, 1, 1, 1, 1, 1]
     @ [1, 2, 1, 1, 1, 1, 1, 2, 1, 2, 1, 1, 1, 1, 1, 1]
     @ [1, 1, 1, 1, 1, 1, 1, 2, 1, 1, 1, 1, 1, 1, 1, 1]
     @ [1, 2, 1, 1, 1, 1, 1, 1, 1, 2, 1, 1, 1, 1, 1, 1]
     @ [1, 1, 1, 1, 1, 1, 1, 3, 1, 3, 1, 1, 1, 1, 1, 1]
     @ [1, 3, 1, 1, 1, 1, 1, 3, 1, 3, 1, 1, 1, 1, 1, 1]
     @ [1, 3, 1, 1, 1, 1, 1, 1, 1, 1, 1, 1, 1, 1, 1, 1]"

text \<open>\<open>decode(state, codep, byte)\<close>: the new state and code point.\<close>

definition utf8_decode :: "nat \<Rightarrow> nat \<Rightarrow> nat \<Rightarrow> nat \<times> nat" where
  "utf8_decode state codep byte =
     (let type = utf8d ! byte;
          codep' = (if state \<noteq> 0 then take_bit 32 ((byte AND 0x3F) OR push_bit 6 codep)
                    else drop_bit type 0xFF AND byte);
          state' = utf8d ! (256 + state * 16 + type)
      in (state', codep'))"

section \<open>Escaping strings\<close>

record escaper =
  esc_state :: nat
  esc_codep :: nat
  esc_buf :: string
  esc_out :: string

definition hex4 :: "nat \<Rightarrow> string" where
  "hex4 n = [hex_digit (n div 4096 mod 16), hex_digit (n div 256 mod 16),
             hex_digit (n div 16 mod 16), hex_digit (n mod 16)]"

text \<open>What is written for an accepted code point whose last byte is \<open>c\<close>.\<close>

definition escape_codepoint :: "nat \<Rightarrow> char \<Rightarrow> string" where
  "escape_codepoint cp c =
     (if cp = 0x08 then [CHR 0x5C, CHR ''b'']
      else if cp = 0x09 then [CHR 0x5C, CHR ''t'']
      else if cp = 0x0A then [CHR 0x5C, CHR ''n'']
      else if cp = 0x0C then [CHR 0x5C, CHR ''f'']
      else if cp = 0x0D then [CHR 0x5C, CHR ''r'']
      else if cp = 0x22 then [CHR 0x5C, CHR 0x22]
      else if cp = 0x5C then [CHR 0x5C, CHR 0x5C]
      else if cp \<le> 0x1F then [CHR 0x5C, CHR ''u''] @ hex4 cp
      else [c])"

definition esc_flush :: "escaper \<Rightarrow> escaper" where
  "esc_flush e =
     (if 512 - length (esc_buf e) < 13
      then e\<lparr>esc_out := esc_out e @ esc_buf e, esc_buf := []\<rparr> else e)"

definition esc_byte :: "escaper \<Rightarrow> char \<Rightarrow> exn + escaper" where
  "esc_byte e c =
     (let (st, cp) = utf8_decode (esc_state e) (esc_codep e) (of_char c);
          e' = e\<lparr>esc_state := st, esc_codep := cp\<rparr>
      in if st = 0 then Inr (esc_flush (e'\<lparr>esc_buf := esc_buf e @ escape_codepoint cp c\<rparr>))
         else if st = 1 then Inl (TypeError 316)
         else Inr (e'\<lparr>esc_buf := esc_buf e @ [c]\<rparr>))"

fun esc_bytes :: "escaper \<Rightarrow> string \<Rightarrow> exn + escaper" where
  "esc_bytes e [] = Inr e"
| "esc_bytes e (c # cs) = rbind (esc_byte e c) (\<lambda>e'. esc_bytes e' cs)"

definition esc_init :: escaper where
  "esc_init = \<lparr>esc_state = 0, esc_codep = 0, esc_buf = [], esc_out = []\<rparr>"

definition dump_escaped :: "string \<Rightarrow> exn + string" where
  "dump_escaped s =
     rbind (esc_bytes esc_init s)
       (\<lambda>e. if esc_state e = 0 then Inr (esc_out e @ esc_buf e) else Inl (TypeError 316))"

section \<open>Integers\<close>

fun count_digits :: "nat \<Rightarrow> nat" where
  "count_digits x =
     (if x < 10 then 1 else if x < 100 then 2 else if x < 1000 then 3 else if x < 10000 then 4
      else count_digits (x div 10000) + 4)"

declare count_digits.simps [simp del]

text \<open>
  The two-digits-at-a-time loop. \<open>acc\<close> is what already stands to the right of \<open>buffer_ptr\<close>.
\<close>

definition digits_to_99 :: "nat \<Rightarrow> string" where
  "digits_to_99 i = [digit_char (i div 10), digit_char (i mod 10)]"

fun dump_digits :: "nat \<Rightarrow> string \<Rightarrow> string" where
  "dump_digits x acc =
     (if 100 \<le> x then dump_digits (x div 100) (digits_to_99 (x mod 100) @ acc)
      else if 10 \<le> x then digits_to_99 x @ acc
      else digit_char x # acc)"

declare dump_digits.simps [simp del]

text \<open>
  The text ends up right-aligned in a buffer of \<open>n_chars\<close> bytes, of which the first is the sign
  of a negative number; \<open>number_buffer\<close> bytes that stay unwritten would show as NUL.
\<close>

definition dump_magnitude :: "bool \<Rightarrow> nat \<Rightarrow> string" where
  "dump_magnitude neg x =
     (let n_chars = (if neg then 1 else 0) + count_digits x;
          ds = dump_digits x []
      in (if neg then ''-'' else []) @
         replicate (n_chars - (if neg then 1 else 0) - length ds) (CHR 0x00) @ ds)"

definition remove_sign :: "uint64 \<Rightarrow> uint64" where
  "remove_sign x = - (x + 1) + 1"

definition dump_int :: "uint64 \<Rightarrow> string" where
  "dump_int x =
     (if x = 0 then ''0''
      else if sint x < 0 then dump_magnitude True (unat (remove_sign x))
      else dump_magnitude False (unat x))"

definition dump_uint :: "uint64 \<Rightarrow> string" where
  "dump_uint x = (if x = 0 then ''0'' else dump_magnitude False (unat x))"

section \<open>Values\<close>

definition dump_float :: "double \<Rightarrow> string" where
  "dump_float x = (if dbl_isfinite x then to_chars x else ''null'')"

definition dump_string :: "string \<Rightarrow> exn + string" where
  "dump_string s = rbind (dump_escaped s) (\<lambda>t. Inr (CHR 0x22 # t @ [CHR 0x22]))"

text \<open>The elements of an array or object, with a comma after all but the last.\<close>

fun json_dump :: "json \<Rightarrow> exn + string"
  and dump_elems :: "json list \<Rightarrow> exn + string"
  and dump_members :: "(string \<times> json) list \<Rightarrow> exn + string" where
  "json_dump JNull = Inr ''null''"
| "json_dump (JBool b) = Inr (if b then ''true'' else ''false'')"
| "json_dump (JString s) = dump_string s"
| "json_dump (JInt n) = Inr (dump_int n)"
| "json_dump (JUInt n) = Inr (dump_uint n)"
| "json_dump (JFloat x) = Inr (dump_float x)"
| "json_dump (JArray xs) =
     (if xs = [] then Inr ''[]''
      else rbind (dump_elems xs) (\<lambda>t. Inr (''['' @ t @ '']'')))"
| "json_dump (JObject m) =
     (if m = [] then Inr ''{}''
      else rbind (dump_members m) (\<lambda>t. Inr (''{'' @ t @ ''}'')))"
| "dump_elems [] = Inr []"
| "dump_elems (x # xs) =
     rbind (json_dump x)
       (\<lambda>t. if xs = [] then Inr t else rbind (dump_elems xs) (\<lambda>u. Inr (t @ '','' @ u)))"
| "dump_members [] = Inr []"
| "dump_members ((k, v) # m) =
     rbind (dump_string k)
       (\<lambda>q. rbind (json_dump v)
         (\<lambda>t. if m = [] then Inr (q @ '':'' @ t)
              else rbind (dump_members m) (\<lambda>u. Inr (q @ '':'' @ t @ '','' @ u))))"

end
