(* ===== verification/JsonLexer.thy ===== *)
theory JsonLexer
  imports Json
begin

text \<open>
  The lexer of \<open>common/json.hpp\<close>: input management with one character of push-back, and the
  scanners for strings, numbers, literals and structural characters. The state leaves out what
  only error messages use (\<open>token_string\<close>, line and column, \<open>error_message\<close>); the decimal point
  is that of the "C" locale, which the servers never change; \<open>ignore_comments\<close> is false, as in
  every call of \<open>parse\<close>.
\<close>

unbundle bit_operations_syntax

datatype token =
    TUninitialized | TLiteralTrue | TLiteralFalse | TLiteralNull | TValueString
  | TValueUnsigned | TValueInteger | TValueFloat | TBeginArray | TBeginObject
  | TEndArray | TEndObject | TNameSeparator | TValueSeparator | TParseError
  | TEndOfInput | TLiteralOrValue

record lexer =
  lx_ia :: string
  lx_current :: "char option"
  lx_next_unget :: bool
  lx_total :: nat
  lx_buf :: string
  lx_unsigned :: uint64
  lx_integer :: uint64
  lx_float :: double

definition lexer_init :: "string \<Rightarrow> lexer" where
  "lexer_init s =
     \<lparr>lx_ia = s, lx_current = None, lx_next_unget = False, lx_total = 0, lx_buf = [],
      lx_unsigned = 0, lx_integer = 0, lx_float = 0\<rparr>"

section \<open>Input management\<close>

definition lx_reset :: "lexer \<Rightarrow> lexer" where
  "lx_reset l = l\<lparr>lx_buf := []\<rparr>"

definition lx_get :: "lexer \<Rightarrow> lexer" where
  "lx_get l =
     (let l' = l\<lparr>lx_total := Suc (lx_total l)\<rparr>
      in if lx_next_unget l then l'\<lparr>lx_next_unget := False\<rparr>
         else (case lx_ia l of
                 [] \<Rightarrow> l'\<lparr>lx_current := None\<rparr>
               | c # cs \<Rightarrow> l'\<lparr>lx_current := Some c, lx_ia := cs\<rparr>))"

definition lx_unget :: "lexer \<Rightarrow> lexer" where
  "lx_unget l = l\<lparr>lx_next_unget := True, lx_total := lx_total l - 1\<rparr>"

definition lx_add :: "char \<Rightarrow> lexer \<Rightarrow> lexer" where
  "lx_add c l = l\<lparr>lx_buf := lx_buf l @ [c]\<rparr>"

text \<open>Characters the next calls of \<open>lx_get\<close> can still deliver: the measure of every loop.\<close>

definition lx_size :: "lexer \<Rightarrow> nat" where
  "lx_size l = length (lx_ia l) + (if lx_next_unget l \<and> lx_current l \<noteq> None then 1 else 0)"

lemma lx_size_get_le: "lx_size (lx_get l) \<le> lx_size l"
  by (auto simp: lx_size_def lx_get_def Let_def split: list.splits)

lemma lx_size_get_less: "lx_current (lx_get l) = Some c \<Longrightarrow> lx_size (lx_get l) < lx_size l"
  by (auto simp: lx_size_def lx_get_def Let_def split: list.splits if_splits)

lemma lx_size_add [simp]: "lx_size (lx_add c l) = lx_size l"
  by (simp add: lx_size_def lx_add_def)

lemma lx_size_reset [simp]: "lx_size (lx_reset l) = lx_size l"
  by (simp add: lx_size_def lx_reset_def)

lemma lx_size_unget_get: "lx_size (lx_unget (lx_get l)) \<le> lx_size l"
  by (auto simp: lx_size_def lx_get_def lx_unget_def Let_def split: list.splits)

lemma lx_next_unget_get [simp]: "lx_next_unget (lx_get l) = False"
  by (auto simp: lx_get_def Let_def split: list.splits)

section \<open>Strings\<close>

definition hex_value :: "char option \<Rightarrow> nat option" where
  "hex_value c =
     (case c of None \<Rightarrow> None
      | Some c \<Rightarrow>
        (let n = of_char c in
         if 0x30 \<le> n \<and> n \<le> 0x39 then Some (n - 0x30)
         else if 0x41 \<le> n \<and> n \<le> 0x46 then Some (n - 0x37)
         else if 0x61 \<le> n \<and> n \<le> 0x66 then Some (n - 0x57)
         else None))"

fun codepoint_loop :: "nat list \<Rightarrow> nat \<Rightarrow> lexer \<Rightarrow> nat option \<times> lexer" where
  "codepoint_loop [] cp l = (Some cp, l)"
| "codepoint_loop (factor # fs) cp l =
     (let l' = lx_get l
      in case hex_value (lx_current l') of
           None \<Rightarrow> (None, l')
         | Some v \<Rightarrow> codepoint_loop fs (cp + push_bit factor v) l')"

definition get_codepoint :: "lexer \<Rightarrow> nat option \<times> lexer" where
  "get_codepoint l = codepoint_loop [12, 8, 4, 0] 0 l"

fun byte_in_ranges :: "(nat \<times> nat) list \<Rightarrow> lexer \<Rightarrow> bool \<times> lexer" where
  "byte_in_ranges [] l = (True, l)"
| "byte_in_ranges ((lo, hi) # rs) l =
     (let l' = lx_get l
      in case lx_current l' of
           None \<Rightarrow> (False, l')
         | Some c \<Rightarrow>
           (if lo \<le> of_char c \<and> of_char c \<le> hi then byte_in_ranges rs (lx_add c l')
            else (False, l')))"

definition next_byte_in_range :: "(nat \<times> nat) list \<Rightarrow> lexer \<Rightarrow> bool \<times> lexer" where
  "next_byte_in_range rs l =
     (case lx_current l of
        Some c \<Rightarrow> byte_in_ranges rs (lx_add c l)
      | None \<Rightarrow> (False, l))"

text \<open>A code point as UTF-8 bytes.\<close>

definition codepoint_bytes :: "nat \<Rightarrow> string" where
  "codepoint_bytes cp =
     (if cp < 0x80 then [char_of cp]
      else if cp \<le> 0x7FF then
        [char_of (0xC0 OR drop_bit 6 cp), char_of (0x80 OR (cp AND 0x3F))]
      else if cp \<le> 0xFFFF then
        [char_of (0xE0 OR drop_bit 12 cp), char_of (0x80 OR (drop_bit 6 cp AND 0x3F)),
         char_of (0x80 OR (cp AND 0x3F))]
      else
        [char_of (0xF0 OR drop_bit 18 cp), char_of (0x80 OR (drop_bit 12 cp AND 0x3F)),
         char_of (0x80 OR (drop_bit 6 cp AND 0x3F)), char_of (0x80 OR (cp AND 0x3F))])"

definition lx_add_all :: "string \<Rightarrow> lexer \<Rightarrow> lexer" where
  "lx_add_all s l = fold lx_add s l"

text \<open>After \<open>\u\<close>: one code unit, or a high surrogate and the low surrogate that must follow.\<close>

definition scan_unicode_escape :: "lexer \<Rightarrow> bool \<times> lexer" where
  "scan_unicode_escape l =
     (case get_codepoint l of
        (None, l1) \<Rightarrow> (False, l1)
      | (Some cp1, l1) \<Rightarrow>
        (if 0xD800 \<le> cp1 \<and> cp1 \<le> 0xDBFF then
           (let l2 = lx_get l1
            in if lx_current l2 = Some (CHR 0x5C) then
                 (let l3 = lx_get l2
                  in if lx_current l3 = Some (CHR ''u'') then
                       (case get_codepoint l3 of
                          (None, l4) \<Rightarrow> (False, l4)
                        | (Some cp2, l4) \<Rightarrow>
                          (if 0xDC00 \<le> cp2 \<and> cp2 \<le> 0xDFFF
                           then (True, lx_add_all (codepoint_bytes (push_bit 10 cp1 + cp2 - 0x35FDC00)) l4)
                           else (False, l4)))
                     else (False, l3))
               else (False, l2))
         else if 0xDC00 \<le> cp1 \<and> cp1 \<le> 0xDFFF then (False, l1)
         else (True, lx_add_all (codepoint_bytes cp1) l1)))"

text \<open>After a backslash.\<close>

definition scan_escape :: "lexer \<Rightarrow> bool \<times> lexer" where
  "scan_escape l0 =
     (let l = lx_get l0
      in case lx_current l of
           None \<Rightarrow> (False, l)
         | Some c \<Rightarrow>
           (if c = CHR 0x22 then (True, lx_add (CHR 0x22) l)
            else if c = CHR 0x5C then (True, lx_add (CHR 0x5C) l)
            else if c = CHR ''/'' then (True, lx_add (CHR ''/'') l)
            else if c = CHR ''b'' then (True, lx_add (CHR 0x08) l)
            else if c = CHR ''f'' then (True, lx_add (CHR 0x0C) l)
            else if c = CHR ''n'' then (True, lx_add (CHR 0x0A) l)
            else if c = CHR ''r'' then (True, lx_add (CHR 0x0D) l)
            else if c = CHR ''t'' then (True, lx_add (CHR 0x09) l)
            else if c = CHR ''u'' then scan_unicode_escape l
            else (False, l)))"

text \<open>The bytes that may follow a lead byte of 0x80 or more; \<open>None\<close> for an ill-formed lead.\<close>

definition utf8_follow :: "nat \<Rightarrow> (nat \<times> nat) list option" where
  "utf8_follow n =
     (if 0xC2 \<le> n \<and> n \<le> 0xDF then Some [(0x80, 0xBF)]
      else if n = 0xE0 then Some [(0xA0, 0xBF), (0x80, 0xBF)]
      else if 0xE1 \<le> n \<and> n \<le> 0xEC \<or> n = 0xEE \<or> n = 0xEF then Some [(0x80, 0xBF), (0x80, 0xBF)]
      else if n = 0xED then Some [(0x80, 0x9F), (0x80, 0xBF)]
      else if n = 0xF0 then Some [(0x90, 0xBF), (0x80, 0xBF), (0x80, 0xBF)]
      else if 0xF1 \<le> n \<and> n \<le> 0xF3 then Some [(0x80, 0xBF), (0x80, 0xBF), (0x80, 0xBF)]
      else if n = 0xF4 then Some [(0x80, 0x8F), (0x80, 0xBF), (0x80, 0xBF)]
      else None)"

lemma lx_size_add_all [simp]: "lx_size (lx_add_all s l) = lx_size l"
  by (induction s arbitrary: l) (auto simp: lx_add_all_def)

lemma lx_size_codepoint_loop: "codepoint_loop fs cp l = (r, l') \<Longrightarrow> lx_size l' \<le> lx_size l"
proof (induction fs cp l rule: codepoint_loop.induct)
  case (2 factor fs cp l)
  then show ?case
    using lx_size_get_le [of l] by (auto simp: Let_def split: option.splits intro: order_trans)
qed simp

lemma lx_size_get_codepoint: "get_codepoint l = (r, l') \<Longrightarrow> lx_size l' \<le> lx_size l"
  unfolding get_codepoint_def by (rule lx_size_codepoint_loop)

lemma lx_size_byte_in_ranges: "byte_in_ranges rs l = (r, l') \<Longrightarrow> lx_size l' \<le> lx_size l"
proof (induction rs l rule: byte_in_ranges.induct)
  case (2 lo hi rs l)
  then show ?case
    using lx_size_get_le [of l]
    by (fastforce simp: Let_def split: option.splits if_splits intro: order_trans)
qed simp

lemma lx_size_next_byte_in_range: "next_byte_in_range rs l = (r, l') \<Longrightarrow> lx_size l' \<le> lx_size l"
  by (auto simp: next_byte_in_range_def dest: lx_size_byte_in_ranges split: option.splits)

lemma lx_size_unicode_escape: "scan_unicode_escape l = (r, l') \<Longrightarrow> lx_size l' \<le> lx_size l"
proof -
  assume a: "scan_unicode_escape l = (r, l')"
  obtain o1 l1 where 1: "get_codepoint l = (o1, l1)" by force
  obtain o2 l4 where 2: "get_codepoint (lx_get (lx_get l1)) = (o2, l4)" by force
  note le = lx_size_get_codepoint [OF 1] lx_size_get_codepoint [OF 2]
    lx_size_get_le [of l1] lx_size_get_le [of "lx_get l1"]
  show "lx_size l' \<le> lx_size l"
    using a le by (auto simp: scan_unicode_escape_def 1 2 Let_def split: option.splits if_splits)
qed

lemma lx_size_escape: "scan_escape l = (r, l') \<Longrightarrow> lx_size l' \<le> lx_size l"
  using lx_size_get_le [of l]
  by (auto simp: scan_escape_def Let_def split: option.splits if_splits
      dest!: lx_size_unicode_escape)

function scan_string_loop :: "lexer \<Rightarrow> token \<times> lexer" where
  "scan_string_loop l0 =
     (let l = lx_get l0
      in case lx_current l of
           None \<Rightarrow> (TParseError, l)
         | Some c \<Rightarrow>
           (if c = CHR 0x22 then (TValueString, l)
            else if c = CHR 0x5C then
              (case scan_escape l of
                 (True, l') \<Rightarrow> scan_string_loop l'
               | (False, l') \<Rightarrow> (TParseError, l'))
            else if of_char c \<le> (0x1F :: nat) then (TParseError, l)
            else if of_char c \<le> (0x7F :: nat) then scan_string_loop (lx_add c l)
            else (case utf8_follow (of_char c) of
                    None \<Rightarrow> (TParseError, l)
                  | Some rs \<Rightarrow>
                    (case next_byte_in_range rs l of
                       (True, l') \<Rightarrow> scan_string_loop l'
                     | (False, l') \<Rightarrow> (TParseError, l')))))"
  by pat_completeness auto

termination
proof (relation "measure lx_size", goal_cases)
  case 1
  show ?case by simp
next
  case (2 l0 l c b l')
  then show ?case
    using lx_size_get_less [of l0] lx_size_escape [of l] by (metis in_measure le_less_trans)
next
  case (3 l0 l c)
  then show ?case using lx_size_get_less [of l0] by simp
next
  case (4 l0 l c rs b l')
  then show ?case
    using lx_size_get_less [of l0] lx_size_next_byte_in_range [of rs l]
    by (metis in_measure le_less_trans)
qed

declare scan_string_loop.simps [simp del]

definition scan_string :: "lexer \<Rightarrow> token \<times> lexer" where
  "scan_string l = scan_string_loop (lx_reset l)"

section \<open>Numbers\<close>

text \<open>One state per label of \<open>scan_number\<close>, and where each \<open>switch\<close> goes.\<close>

datatype num_state =
    NumMinus | NumZero | NumAny1 | NumDecimal1 | NumDecimal2 | NumExponent | NumSign | NumAny2

datatype num_move = NumGoto num_state | NumDone | NumError

fun num_next :: "num_state \<Rightarrow> char option \<Rightarrow> num_move" where
  "num_next NumMinus c =
     (if c = Some (CHR ''0'') then NumGoto NumZero
      else if \<exists>d. c = Some d \<and> is_digit d then NumGoto NumAny1 else NumError)"
| "num_next NumZero c =
     (if c = Some (CHR ''.'') then NumGoto NumDecimal1
      else if c = Some (CHR ''e'') \<or> c = Some (CHR ''E'') then NumGoto NumExponent else NumDone)"
| "num_next NumAny1 c =
     (if \<exists>d. c = Some d \<and> is_digit d then NumGoto NumAny1
      else if c = Some (CHR ''.'') then NumGoto NumDecimal1
      else if c = Some (CHR ''e'') \<or> c = Some (CHR ''E'') then NumGoto NumExponent else NumDone)"
| "num_next NumDecimal1 c =
     (if \<exists>d. c = Some d \<and> is_digit d then NumGoto NumDecimal2 else NumError)"
| "num_next NumDecimal2 c =
     (if \<exists>d. c = Some d \<and> is_digit d then NumGoto NumDecimal2
      else if c = Some (CHR ''e'') \<or> c = Some (CHR ''E'') then NumGoto NumExponent else NumDone)"
| "num_next NumExponent c =
     (if c = Some (CHR ''+'') \<or> c = Some (CHR ''-'') then NumGoto NumSign
      else if \<exists>d. c = Some d \<and> is_digit d then NumGoto NumAny2 else NumError)"
| "num_next NumSign c =
     (if \<exists>d. c = Some d \<and> is_digit d then NumGoto NumAny2 else NumError)"
| "num_next NumAny2 c =
     (if \<exists>d. c = Some d \<and> is_digit d then NumGoto NumAny2 else NumDone)"

text \<open>The assignments to \<open>number_type\<close> at the labels.\<close>

fun num_type :: "num_state \<Rightarrow> token \<Rightarrow> token" where
  "num_type NumMinus ty = TValueInteger"
| "num_type NumDecimal1 ty = TValueFloat"
| "num_type NumExponent ty = TValueFloat"
| "num_type _ ty = ty"

function scan_number_loop :: "num_state \<Rightarrow> token \<Rightarrow> lexer \<Rightarrow> token option \<times> lexer" where
  "scan_number_loop st ty0 l =
     (let ty = num_type st ty0; l' = lx_get l
      in case num_next st (lx_current l') of
           NumDone \<Rightarrow> (Some ty, lx_unget l')
         | NumError \<Rightarrow> (None, l')
         | NumGoto st' \<Rightarrow>
           (case lx_current l' of
              Some c \<Rightarrow> scan_number_loop st' ty (lx_add c l')
            | None \<Rightarrow> (None, l')))"
  by pat_completeness auto

termination
  by (relation "measure (\<lambda>(st, ty, l). lx_size l)") (auto simp: lx_size_get_less)

declare scan_number_loop.simps [simp del]

text \<open>\<open>strtoull\<close> and \<open>strtoll\<close> in base 10; \<open>None\<close> when \<open>errno\<close> is \<open>ERANGE\<close>.\<close>

definition strtoull :: "string \<Rightarrow> uint64 option" where
  "strtoull s = (let n = dec_value s 0 in if n < 2 ^ 64 then Some (of_nat n) else None)"

definition strtoll :: "string \<Rightarrow> uint64 option" where
  "strtoll s =
     (let (neg, ds) = (case s of c # cs \<Rightarrow> if c = CHR ''-'' then (True, cs) else (False, s)
                       | [] \<Rightarrow> (False, []));
          n = dec_value ds 0
      in if neg then (if n \<le> 2 ^ 63 then Some (- of_nat n) else None)
         else (if n < 2 ^ 63 then Some (of_nat n) else None))"

definition convert_number :: "token \<Rightarrow> lexer \<Rightarrow> token \<times> lexer" where
  "convert_number ty l =
     (let as_float = (TValueFloat, l\<lparr>lx_float := strtod (lx_buf l)\<rparr>)
      in if ty = TValueUnsigned then
           (case strtoull (lx_buf l) of
              Some x \<Rightarrow> (TValueUnsigned, l\<lparr>lx_unsigned := x\<rparr>)
            | None \<Rightarrow> as_float)
         else if ty = TValueInteger then
           (case strtoll (lx_buf l) of
              Some x \<Rightarrow> (TValueInteger, l\<lparr>lx_integer := x\<rparr>)
            | None \<Rightarrow> as_float)
         else as_float)"

definition scan_number :: "lexer \<Rightarrow> token \<times> lexer" where
  "scan_number l0 =
     (case lx_current l0 of
        None \<Rightarrow> (TParseError, l0)
      | Some c \<Rightarrow>
        (let l = lx_add c (lx_reset l0);
             st = (if c = CHR ''-'' then NumMinus else if c = CHR ''0'' then NumZero else NumAny1)
         in case scan_number_loop st TValueUnsigned l of
              (Some ty, l') \<Rightarrow> convert_number ty l'
            | (None, l') \<Rightarrow> (TParseError, l')))"

section \<open>Literals, white space, tokens\<close>

fun scan_literal :: "string \<Rightarrow> token \<Rightarrow> lexer \<Rightarrow> token \<times> lexer" where
  "scan_literal [] ty l = (ty, l)"
| "scan_literal (c # cs) ty l =
     (let l' = lx_get l
      in if lx_current l' = Some c then scan_literal cs ty l' else (TParseError, l'))"

definition skip_bom :: "lexer \<Rightarrow> bool \<times> lexer" where
  "skip_bom l0 =
     (let l = lx_get l0
      in if lx_current l = Some (CHR 0xEF) then
           (let l2 = lx_get l
            in if lx_current l2 = Some (CHR 0xBB)
               then (let l3 = lx_get l2 in (lx_current l3 = Some (CHR 0xBF), l3))
               else (False, l2))
         else (True, lx_unget l))"

definition is_space :: "char \<Rightarrow> bool" where
  "is_space c = (c = CHR '' '' \<or> c = CHR 0x09 \<or> c = CHR 0x0A \<or> c = CHR 0x0D)"

function skip_whitespace :: "lexer \<Rightarrow> lexer" where
  "skip_whitespace l =
     (let l' = lx_get l
      in case lx_current l' of
           Some c \<Rightarrow> (if is_space c then skip_whitespace l' else l')
         | None \<Rightarrow> l')"
  by pat_completeness auto

termination
  by (relation "measure lx_size") (auto simp: lx_size_get_less)

declare skip_whitespace.simps [simp del]

definition scan_token :: "lexer \<Rightarrow> token \<times> lexer" where
  "scan_token l =
     (case lx_current l of
        None \<Rightarrow> (TEndOfInput, l)
      | Some c \<Rightarrow>
        (if c = CHR ''['' then (TBeginArray, l)
         else if c = CHR '']'' then (TEndArray, l)
         else if c = CHR ''{'' then (TBeginObject, l)
         else if c = CHR ''}'' then (TEndObject, l)
         else if c = CHR '':'' then (TNameSeparator, l)
         else if c = CHR '','' then (TValueSeparator, l)
         else if c = CHR ''t'' then scan_literal ''rue'' TLiteralTrue l
         else if c = CHR ''f'' then scan_literal ''alse'' TLiteralFalse l
         else if c = CHR ''n'' then scan_literal ''ull'' TLiteralNull l
         else if c = CHR 0x22 then scan_string l
         else if c = CHR ''-'' \<or> is_digit c then scan_number l
         else if c = CHR 0x00 then (TEndOfInput, l)
         else (TParseError, l)))"

definition scan :: "lexer \<Rightarrow> token \<times> lexer" where
  "scan l =
     (case (if lx_total l = 0 then skip_bom l else (True, l)) of
        (False, l') \<Rightarrow> (TParseError, l')
      | (True, l') \<Rightarrow> scan_token (skip_whitespace l'))"

section \<open>Every token but the end of input consumes characters\<close>

lemma scan_string_loop_cases:
  assumes "scan_string_loop l = (t, l')"
  obtains (stop) "lx_size l' \<le> lx_size l"
  | (step) l1 where "lx_size l1 < lx_size l" "scan_string_loop l1 = (t, l')"
proof (cases "lx_current (lx_get l)")
  case None
  then show ?thesis
    using assms stop lx_size_get_le [of l] by (simp add: scan_string_loop.simps [of l] Let_def)
next
  case (Some c)
  obtain b1 e1 where esc: "scan_escape (lx_get l) = (b1, e1)" by force
  obtain b2 e2 where nb: "next_byte_in_range (the (utf8_follow (of_char c))) (lx_get l) = (b2, e2)"
    by force
  have lt: "lx_size (lx_get l) < lx_size l" by (rule lx_size_get_less [OF Some])
  have e1: "lx_size e1 < lx_size l" using lx_size_escape [OF esc] lt by simp
  have e2: "lx_size e2 < lx_size l" using lx_size_next_byte_in_range [OF nb] lt by simp
  show ?thesis
    using assms Some esc nb e1 e2 lt stop step(1) [of "lx_get l"] step(1) [of e1] step(1) [of e2]
      step(1) [of "lx_add c (lx_get l)"]
    by (auto simp: scan_string_loop.simps [of l] Let_def split: if_splits bool.splits option.splits)
qed

lemma lx_size_string_loop: "scan_string_loop l = (t, l') \<Longrightarrow> lx_size l' \<le> lx_size l"
proof (induction "lx_size l" arbitrary: l rule: less_induct)
  case less
  from less.prems show ?case
  proof (cases rule: scan_string_loop_cases)
    case (step l1)
    from less.hyps [OF step] step(1) show ?thesis by simp
  qed
qed

lemma lx_size_number_loop: "scan_number_loop st ty l = (t, l') \<Longrightarrow> lx_size l' \<le> lx_size l"
proof (induction "lx_size l" arbitrary: st ty l rule: less_induct)
  case less
  note le = lx_size_get_le [of l] and un = lx_size_unget_get [of l] and lt = lx_size_get_less [of l]
  show ?case
  proof (cases "\<exists>st' c. num_next st (lx_current (lx_get l)) = NumGoto st' \<and> lx_current (lx_get l) = Some c")
    case True
    then obtain st' c where
      n: "num_next st (Some c) = NumGoto st'" and c: "lx_current (lx_get l) = Some c" by auto
    have "scan_number_loop st' (num_type st ty) (lx_add c (lx_get l)) = (t, l')"
      using less.prems n c by (simp add: scan_number_loop.simps [of st ty l])
    from less.hyps [OF _ this] lt [OF c] show ?thesis by simp
  next
    case False
    with less.prems le un show ?thesis
      by (auto simp: scan_number_loop.simps [of st ty l] Let_def split: num_move.splits option.splits)
  qed
qed

lemma lx_size_convert [simp]: "lx_size (snd (convert_number ty l)) = lx_size l"
  by (auto simp: convert_number_def lx_size_def Let_def split: option.splits)

lemma lx_size_scan_number: "scan_number l = (t, l') \<Longrightarrow> lx_size l' \<le> lx_size l"
proof -
  assume a: "scan_number l = (t, l')"
  show ?thesis
  proof (cases "lx_current l")
    case None
    with a show ?thesis by (simp add: scan_number_def)
  next
    case (Some c)
    define st where "st = (if c = CHR ''-'' then NumMinus else if c = CHR ''0'' then NumZero else NumAny1)"
    obtain r l1 where n: "scan_number_loop st TValueUnsigned (lx_add c (lx_reset l)) = (r, l1)" by force
    have "lx_size l1 \<le> lx_size l" using lx_size_number_loop [OF n] by simp
    moreover have "r = Some ty \<Longrightarrow> lx_size l' = lx_size l1" for ty
      using a Some n lx_size_convert [of ty l1]
      by (simp add: scan_number_def st_def [symmetric] Let_def del: lx_size_convert)
    moreover have "r = None \<Longrightarrow> l' = l1"
      using a Some n by (simp add: scan_number_def st_def [symmetric] Let_def)
    ultimately show ?thesis by (cases r) auto
  qed
qed

lemma lx_size_scan_literal: "scan_literal s ty l = (t, l') \<Longrightarrow> lx_size l' \<le> lx_size l"
proof (induction s ty l rule: scan_literal.induct)
  case (2 c cs ty l)
  then show ?case using lx_size_get_le [of l] by (auto simp: Let_def split: if_splits intro: order_trans)
qed simp

lemma skip_whitespace_le_current:
  "lx_size (skip_whitespace l) \<le> lx_size (lx_get l)"
proof (induction "lx_size l" arbitrary: l rule: less_induct)
  case less
  show ?case
  proof (cases "\<exists>c. lx_current (lx_get l) = Some c \<and> is_space c")
    case True
    then obtain c where c: "lx_current (lx_get l) = Some c" "is_space c" by blast
    from less.hyps [OF lx_size_get_less [OF c(1)]] c lx_size_get_le [of "lx_get l"] show ?thesis
      by (simp add: skip_whitespace.simps [of l])
  next
    case False
    then show ?thesis by (auto simp: skip_whitespace.simps [of l] Let_def split: option.splits)
  qed
qed

lemma skip_whitespace_current:
  "lx_current (skip_whitespace l) = Some c \<Longrightarrow> \<exists>d. lx_current (lx_get l) = Some d"
  by (cases "lx_current (lx_get l)") (simp_all add: skip_whitespace.simps [of l])

lemma lx_size_skip_whitespace_le: "lx_size (skip_whitespace l) \<le> lx_size l"
  using skip_whitespace_le_current [of l] lx_size_get_le [of l] by simp

lemma lx_size_skip_whitespace_less:
  assumes "lx_current (skip_whitespace l) = Some c"
  shows "lx_size (skip_whitespace l) < lx_size l"
  using skip_whitespace_current [OF assms] skip_whitespace_le_current [of l]
    lx_size_get_less [of l] by fastforce

lemma lx_size_skip_bom: "skip_bom l = (b, l') \<Longrightarrow> lx_size l' \<le> lx_size l"
  using lx_size_get_le [of l] lx_size_get_le [of "lx_get l"] lx_size_get_le [of "lx_get (lx_get l)"]
    lx_size_unget_get [of l]
  by (auto simp: skip_bom_def Let_def split: if_splits)

lemma lx_size_skip_bom_False: "skip_bom l = (False, l') \<Longrightarrow> lx_size l' < lx_size l"
  using lx_size_get_less [of l] lx_size_get_le [of "lx_get l"] lx_size_get_le [of "lx_get (lx_get l)"]
  by (auto simp: skip_bom_def Let_def split: if_splits)

lemma if_size_le:
  "lx_size (snd x) \<le> n \<Longrightarrow> lx_size (snd y) \<le> n \<Longrightarrow> lx_size (snd (if b then x else y)) \<le> n"
  by simp

lemma lx_size_snd_le:
  "lx_size (snd (scan_literal s ty l)) \<le> lx_size l"
  "lx_size (snd (scan_number l)) \<le> lx_size l"
  "lx_size (snd (scan_string l)) \<le> lx_size l"
  by (metis lx_size_scan_literal prod.collapse)
    (metis lx_size_scan_number prod.collapse,
     metis lx_size_string_loop lx_size_reset prod.collapse scan_string_def)

lemma lx_size_scan_token_snd: "lx_size (snd (scan_token l)) \<le> lx_size l"
proof (cases "lx_current l")
  case None
  then show ?thesis by (simp add: scan_token_def)
next
  case (Some c)
  then show ?thesis
    by (simp only: scan_token_def option.case) (intro if_size_le lx_size_snd_le, simp_all)
qed

lemma lx_size_scan_token: "scan_token l = (t, l') \<Longrightarrow> lx_size l' \<le> lx_size l"
  using lx_size_scan_token_snd [of l] by simp

lemma scan_token_None: "lx_current l = None \<Longrightarrow> scan_token l = (TEndOfInput, l)"
  by (simp add: scan_token_def)

lemma scan_size_le: "scan l = (t, l') \<Longrightarrow> lx_size l' \<le> lx_size l"
proof -
  assume a: "scan l = (t, l')"
  obtain b l1 where b: "(if lx_total l = 0 then skip_bom l else (True, l)) = (b, l1)" by force
  then have "lx_size l1 \<le> lx_size l" by (auto dest: lx_size_skip_bom split: if_splits)
  moreover have "b \<Longrightarrow> scan_token (skip_whitespace l1) = (t, l')" "\<not> b \<Longrightarrow> l' = l1"
    using a b by (auto simp: scan_def)
  ultimately show ?thesis
    using lx_size_skip_whitespace_le [of l1] by (cases b) (auto dest!: lx_size_scan_token)
qed

text \<open>A token other than the end of input consumes at least one character.\<close>

lemma scan_size_less:
  assumes a: "scan l = (t, l')" and t: "t \<noteq> TEndOfInput"
  shows "lx_size l' < lx_size l"
proof -
  obtain b l1 where b: "(if lx_total l = 0 then skip_bom l else (True, l)) = (b, l1)" by force
  then have le: "lx_size l1 \<le> lx_size l" by (auto dest: lx_size_skip_bom split: if_splits)
  show ?thesis
  proof (cases b)
    case False
    with a b show ?thesis by (auto simp: scan_def dest: lx_size_skip_bom_False split: if_splits)
  next
    case True
    with a b have st: "scan_token (skip_whitespace l1) = (t, l')" by (simp add: scan_def)
    with t obtain c where c: "lx_current (skip_whitespace l1) = Some c"
      by (cases "lx_current (skip_whitespace l1)") (auto simp: scan_token_None)
    from lx_size_scan_token [OF st] lx_size_skip_whitespace_less [OF c] le show ?thesis by simp
  qed
qed

end
