(* ===== verification/JsonText.thy ===== *)
theory JsonText
  imports JsonDump JsonLexer
begin

text \<open>
  Facts on the text of strings and numbers that the serializer writes: what the UTF-8 automaton
  accepts, what is written for it, the size of the string buffer, and the decimal text of the
  integers.
\<close>

unbundle bit_operations_syntax

section \<open>Integers\<close>

lemma count_digits_length: "count_digits x = length (nat_to_dec x)"
proof (induction x rule: count_digits.induct)
  case (1 x)
  have d: "length (nat_to_dec y) = Suc (length (nat_to_dec (y div 10)))" if "10 \<le> y" for y
    using that by (subst nat_to_dec.simps) simp
  have s: "length (nat_to_dec y) = 1" if "y < 10" for y using that by (subst nat_to_dec.simps) simp
  consider "x < 10" | "10 \<le> x" "x < 100" | "100 \<le> x" "x < 1000" | "1000 \<le> x" "x < 10000" | "10000 \<le> x"
    by linarith
  then show ?case
  proof cases
    case 5
    then have "\<not> x < 10" "\<not> x < 100" "\<not> x < 1000" "\<not> x < 10000" by auto
    moreover have "length (nat_to_dec x) = 4 + length (nat_to_dec (x div 10000))"
      using 5 d [of x] d [of "x div 10"] d [of "x div 100"] d [of "x div 1000"]
      by (simp add: div_mult2_eq [symmetric])
    ultimately show ?thesis using 1 by (subst count_digits.simps) simp
  next
    case 4
    then show ?thesis using d [of x] d [of "x div 10"] d [of "x div 100"] s [of "x div 1000"]
      by (subst count_digits.simps) (simp add: div_mult2_eq [symmetric] less_mult_imp_div_less)
  next
    case 3
    then show ?thesis using d [of x] d [of "x div 10"] s [of "x div 100"]
      by (subst count_digits.simps) (simp add: div_mult2_eq [symmetric] less_mult_imp_div_less)
  next
    case 2
    then show ?thesis using d [of x] s [of "x div 10"]
      by (subst count_digits.simps) (simp add: less_mult_imp_div_less)
  next
    case 1
    then show ?thesis by (subst count_digits.simps) (simp add: s)
  qed
qed

lemma two_digits:
  "(x :: nat) mod 100 div 10 = x div 10 mod 10" "x mod 100 mod 10 = x mod 10" "x div 10 div 10 = x div 100"
  using mod_mult2_eq [of x 10 10] by (simp_all add: mod_mod_cancel div_mult2_eq [symmetric])

lemma dump_digits_text: "dump_digits x acc = nat_to_dec x @ acc"
proof (induction x acc rule: dump_digits.induct)
  case (1 x acc)
  show ?case
  proof (cases "100 \<le> x")
    case True
    then have "nat_to_dec x = nat_to_dec (x div 100) @ [digit_char (x div 10 mod 10), digit_char (x mod 10)]"
      using nat_to_dec.simps [of x] nat_to_dec.simps [of "x div 10"] two_digits(3) [of x] by simp
    with True 1 two_digits(1,2) [of x] show ?thesis
      by (subst dump_digits.simps) (simp add: digits_to_99_def)
  next
    case False
    then show ?thesis
      using nat_to_dec.simps [of x] nat_to_dec.simps [of "x div 10"]
      by (subst dump_digits.simps) (simp add: digits_to_99_def less_mult_imp_div_less)
  qed
qed

lemma dump_magnitude_text: "dump_magnitude neg x = (if neg then ''-'' else []) @ nat_to_dec x"
  by (simp add: dump_magnitude_def dump_digits_text count_digits_length)

lemma nat_to_dec_0: "nat_to_dec 0 = ''0''"
  by code_simp

lemma sint_nonneg_unat: "0 \<le> sint (x :: uint64) \<Longrightarrow> sint x = int (unat x)"
proof -
  assume nn: "0 \<le> sint x"
  have "sint x < 2 ^ 64" using sint_less [of x] by simp
  with nn have "take_bit 64 (sint x) = sint x" by (simp add: take_bit_int_eq_self)
  then show ?thesis by (simp add: uint_sint)
qed

lemma unat_remove_sign: "sint (x :: uint64) < 0 \<Longrightarrow> unat (remove_sign x) = nat (- sint x)"
proof -
  assume neg: "sint x < 0"
  have u: "uint (word_of_int k :: uint64) = k" if "0 \<le> k" "k < 2 ^ 64" for k
    using that by (simp add: uint_word_of_int)
  have "- sint x < 2 ^ 64" using sint_ge [of x] by simp
  with neg u [of "- sint x"] have "uint (- x) = - sint x" by simp
  then show ?thesis by (simp add: remove_sign_def unat_eq_nat_uint)
qed

lemma dump_int_text: "dump_int x = to_string (sint x)"
proof (cases "x = 0")
  case True
  then show ?thesis by (simp add: dump_int_def to_string_def nat_to_dec_0)
next
  case False
  show ?thesis
  proof (cases "sint x < 0")
    case True
    with False show ?thesis
      by (simp add: dump_int_def to_string_def dump_magnitude_text unat_remove_sign)
  next
    case pos: False
    with False sint_nonneg_unat [of x] show ?thesis
      by (simp add: dump_int_def to_string_def dump_magnitude_text)
  qed
qed

lemma dump_uint_text: "dump_uint x = nat_to_dec (unat x)"
  by (simp add: dump_uint_def dump_magnitude_text nat_to_dec_0)

section \<open>Well-formed UTF-8\<close>

text \<open>The bytes a list of ranges admits, and the strings made of complete characters.\<close>

fun follow_ok :: "(nat \<times> nat) list \<Rightarrow> string \<Rightarrow> bool" where
  "follow_ok [] cs = True"
| "follow_ok (r # rs) [] = False"
| "follow_ok (r # rs) (c # cs) = (fst r \<le> of_char c \<and> of_char c \<le> snd r \<and> follow_ok rs cs)"

function utf8_ok :: "string \<Rightarrow> bool" where
  "utf8_ok [] = True"
| "utf8_ok (c # cs) =
     (if of_char c < (0x80 :: nat) then utf8_ok cs
      else case utf8_follow (of_char c) of
             None \<Rightarrow> False
           | Some rs \<Rightarrow> follow_ok rs cs \<and> utf8_ok (drop (length rs) cs))"
  by pat_completeness auto

termination utf8_ok
  by (relation "measure length") auto

text \<open>What is written for one byte of an accepted string.\<close>

definition escape_byte :: "char \<Rightarrow> string" where
  "escape_byte c = (if of_char c < (0x80 :: nat) then escape_codepoint (of_char c) c else [c])"

definition escape_text :: "string \<Rightarrow> string" where
  "escape_text s = concat (map escape_byte s)"

section \<open>The decoder accepts exactly well-formed UTF-8\<close>

text \<open>What each state still expects, and the least code point so far.\<close>

fun expects :: "nat \<Rightarrow> (nat \<times> nat) list" where
  "expects st =
     (if st = 2 then [(0x80, 0xBF)]
      else if st = 3 then [(0x80, 0xBF), (0x80, 0xBF)]
      else if st = 4 then [(0xA0, 0xBF), (0x80, 0xBF)]
      else if st = 5 then [(0x80, 0x9F), (0x80, 0xBF)]
      else if st = 6 then [(0x90, 0xBF), (0x80, 0xBF), (0x80, 0xBF)]
      else if st = 7 then [(0x80, 0xBF), (0x80, 0xBF), (0x80, 0xBF)]
      else if st = 8 then [(0x80, 0x8F), (0x80, 0xBF), (0x80, 0xBF)]
      else [])"

definition cp_low :: "nat \<Rightarrow> nat" where
  "cp_low st = (if st = 0 then 128 else if st = 2 then 2 else if st = 4 \<or> st = 6 then 0 else 1)"

definition cp_inv :: "nat \<Rightarrow> nat \<Rightarrow> bool" where
  "cp_inv st cp = (cp_low st \<le> cp \<and> cp < 2 ^ (26 - 6 * length (expects st)))"

declare expects.simps [simp del]

lemma high_byte_cases:
  assumes "\<not> n < 0xE0" "n < (256 :: nat)"
  shows "n \<in> {0xE0, 0xE1, 0xE2, 0xE3, 0xE4, 0xE5, 0xE6, 0xE7, 0xE8, 0xE9, 0xEA, 0xEB, 0xEC, 0xED, 0xEE, 0xEF,
     0xF0, 0xF1, 0xF2, 0xF3, 0xF4, 0xF5, 0xF6, 0xF7, 0xF8, 0xF9, 0xFA, 0xFB, 0xFC, 0xFD, 0xFE, 0xFF}"
proof -
  from assms have mem: "n \<in> set [0xE0..<256]" by (simp only: set_upt atLeastLessThan_iff) simp
  have "[0xE0..<256] =
    [0xE0, 0xE1, 0xE2, 0xE3, 0xE4, 0xE5, 0xE6, 0xE7, 0xE8, 0xE9, 0xEA, 0xEB, 0xEC, 0xED, 0xEE, 0xEF,
     0xF0, 0xF1, 0xF2, 0xF3, 0xF4, 0xF5, 0xF6, 0xF7, 0xF8, 0xF9, 0xFA, 0xFB, 0xFC, 0xFD, 0xFE, 0xFF]"
    by (simp add: upt_rec_numeral)
  with mem show ?thesis by (simp only: list.set)
qed

lemma utf8_type:
  assumes "n < 256"
  shows "utf8d ! n =
    (if n < 0x80 then 0 else if n < 0x90 then 1 else if n < 0xA0 then 9 else if n < 0xC0 then 7
     else if n < 0xC2 then 8 else if n < 0xE0 then 2 else if n = 0xE0 then 0xA else if n = 0xED then 4
     else if n < 0xF0 then 3 else if n = 0xF0 then 0xB else if n < 0xF4 then 6 else if n = 0xF4 then 5
     else 8)"
proof (cases "n < 0xE0")
  case True
  then consider "n < 0x80" | "0x80 \<le> n" "n < 0x90" | "0x90 \<le> n" "n < 0xA0" | "0xA0 \<le> n" "n < 0xC0"
    | "0xC0 \<le> n" "n < 0xC2" | "0xC2 \<le> n" "n < 0xE0" by linarith
  then show ?thesis by cases (simp_all add: utf8d_def nth_append less_diff_conv2)
next
  case False
  from high_byte_cases [OF this assms] show ?thesis
    by (elim insertE emptyE) (simp_all add: utf8d_def nth_append)
qed

text \<open>The classes of bytes, as one case rule.\<close>

lemma byte_types:
  assumes "n < 256"
  obtains "n < 0x80" "utf8d ! n = 0"
  | "0x80 \<le> n" "n < 0x90" "utf8d ! n = 1"
  | "0x90 \<le> n" "n < 0xA0" "utf8d ! n = 9"
  | "0xA0 \<le> n" "n < 0xC0" "utf8d ! n = 7"
  | "0xC0 \<le> n" "n < 0xC2" "utf8d ! n = 8"
  | "0xC2 \<le> n" "n < 0xE0" "utf8d ! n = 2"
  | "n = 0xE0" "utf8d ! n = 0xA"
  | "0xE1 \<le> n" "n < 0xED" "utf8d ! n = 3"
  | "n = 0xED" "utf8d ! n = 4"
  | "0xEE \<le> n" "n < 0xF0" "utf8d ! n = 3"
  | "n = 0xF0" "utf8d ! n = 0xB"
  | "0xF1 \<le> n" "n < 0xF4" "utf8d ! n = 6"
  | "n = 0xF4" "utf8d ! n = 5"
  | "0xF5 \<le> n" "utf8d ! n = 8"
proof -
  consider "n < 0xC0" | "0xC0 \<le> n" "n < 0xED" | "0xED \<le> n" "n < 0xF1" | "0xF1 \<le> n"
    by linarith
  then show thesis
  proof cases
    case 1
    then consider "n < 0x80" | "0x80 \<le> n" "n < 0x90" | "0x90 \<le> n" "n < 0xA0" | "0xA0 \<le> n" by linarith
    then show ?thesis using 1 assms by cases (rule that; (assumption | simp add: utf8_type; fail))+
  next
    case 2
    then consider "n < 0xC2" | "0xC2 \<le> n" "n < 0xE0" | "n = 0xE0" | "0xE1 \<le> n" by linarith
    then show ?thesis using 2 assms by cases (rule that; (assumption | simp add: utf8_type; fail))+
  next
    case 3
    then consider "n = 0xED" | "0xEE \<le> n" "n < 0xF0" | "n = 0xF0" by linarith
    then show ?thesis using 3 assms by cases (rule that; (assumption | simp add: utf8_type; fail))+
  next
    case 4
    then consider "n < 0xF4" | "n = 0xF4" | "0xF5 \<le> n" by linarith
    then show ?thesis using 4 assms by cases (rule that; (assumption | simp add: utf8_type; fail))+
  qed
qed

definition utf8_trans :: "nat list" where
  "utf8_trans = drop 256 utf8d"

lemma utf8_trans_eq: "utf8_trans =
    [0, 1, 2, 3, 5, 8, 7, 1, 1, 1, 4, 6, 1, 1, 1, 1]
     @ [1, 1, 1, 1, 1, 1, 1, 1, 1, 1, 1, 1, 1, 1, 1, 1]
     @ [1, 0, 1, 1, 1, 1, 1, 0, 1, 0, 1, 1, 1, 1, 1, 1]
     @ [1, 2, 1, 1, 1, 1, 1, 2, 1, 2, 1, 1, 1, 1, 1, 1]
     @ [1, 1, 1, 1, 1, 1, 1, 2, 1, 1, 1, 1, 1, 1, 1, 1]
     @ [1, 2, 1, 1, 1, 1, 1, 1, 1, 2, 1, 1, 1, 1, 1, 1]
     @ [1, 1, 1, 1, 1, 1, 1, 3, 1, 3, 1, 1, 1, 1, 1, 1]
     @ [1, 3, 1, 1, 1, 1, 1, 3, 1, 3, 1, 1, 1, 1, 1, 1]
     @ [1, 3, 1, 1, 1, 1, 1, 1, 1, 1, 1, 1, 1, 1, 1, 1]"
  by (simp add: utf8_trans_def utf8d_def)

lemma utf8_decode_state: "fst (utf8_decode st cp n) = utf8_trans ! (st * 16 + utf8d ! n)"
proof -
  have "length utf8d = 400" by (simp add: utf8d_def)
  then show ?thesis by (simp add: utf8_decode_def Let_def utf8_trans_def add.assoc)
qed

lemma and_low_bits: "(63 :: nat) AND n = n mod 64" "(31 :: nat) AND n = n mod 32"
    "(15 :: nat) AND n = n mod 16" "(7 :: nat) AND n = n mod 8" "(3 :: nat) AND n = n mod 4"
    "n AND (63 :: nat) = n mod 64" "(255 :: nat) AND n = n mod 256"
  using take_bit_eq_mask [of 8 n] take_bit_eq_mask [of 6 n] take_bit_eq_mask [of 5 n] take_bit_eq_mask [of 4 n]
    take_bit_eq_mask [of 3 n] take_bit_eq_mask [of 2 n]
  by (simp_all add: take_bit_eq_mod mask_eq_exp_minus_1 and.commute)

lemma follow_step:
  assumes st: "2 \<le> st" "st \<le> 8" and n: "n < 256"
  shows "\<exists>r rs. expects st = r # rs \<and>
      (let st' = fst (utf8_decode st cp n) in
        if fst r \<le> n \<and> n \<le> snd r
        then expects st' = rs \<and> (if rs = [] then st' = 0 else 2 \<le> st' \<and> st' \<le> 8)
             \<and> (cp_low st \<le> cp \<longrightarrow> cp_low st' \<le> 64 * cp + n mod 64)
        else st' = 1)"
proof -
  have m: "128 \<le> n \<Longrightarrow> n < 192 \<Longrightarrow> n mod 64 = n - 128"
    by (simp add: le_mod_geq)
  have mem: "st \<in> {2, 3, 4, 5, 6, 7, 8}" using st by auto
  show ?thesis
    by (insert mem, rule byte_types [OF n]; elim insertE emptyE;
      simp add: utf8_decode_state utf8_trans_eq expects.simps cp_low_def m; (intro impI; linarith)?)
qed

lemma lead_step:
  assumes n: "n < (256 :: nat)"
  shows "if n < 128 then utf8_decode 0 cp n = (0, n)
         else (case utf8_follow n of
                 None \<Rightarrow> fst (utf8_decode 0 cp n) = 1
               | Some rs \<Rightarrow> rs \<noteq> [] \<and> (\<exists>st cp'. utf8_decode 0 cp n = (st, cp') \<and> 2 \<le> st \<and> st \<le> 8
                   \<and> expects st = rs \<and> cp_inv st cp'))"
proof -
  have st: "fst (utf8_decode 0 cp n) = utf8_trans ! (utf8d ! n)"
    using utf8_decode_state [of 0 cp n] by simp
  have cp: "snd (utf8_decode 0 cp n) = drop_bit (utf8d ! n) 0xFF AND n"
    by (simp add: utf8_decode_def Let_def)
  have m1: "192 \<le> n \<Longrightarrow> n mod 64 = n - 192" "224 \<le> n \<Longrightarrow> n mod 32 = n - 224"
    using n by (simp_all add: le_mod_geq)
  have m2: "n mod 4 = n - 240" if "240 \<le> n" "n < 244"
  proof -
    from that consider "n = 240" | "n = 241" | "n = 242" | "n = 243" by linarith
    then show ?thesis by cases simp_all
  qed
  have m3: "n = 238 \<or> n = 239" if "238 \<le> n" "n < 240" using that by linarith
  obtain st' cp' where d: "utf8_decode 0 cp n = (st', cp')" by force
  note dec = st [unfolded d fst_conv] cp [unfolded d snd_conv] d
  show ?thesis
    by (insert n dec, rule byte_types [OF n];
      simp add: utf8_trans_eq expects.simps cp_low_def cp_inv_def utf8_follow_def and_low_bits m1 m2 m3;
      (intro conjI; linarith)?)
qed

lemma continuation_cp:
  assumes "cp < 2 ^ 26" "st \<noteq> 0"
  shows "snd (utf8_decode st cp n) = 64 * cp + n mod 64"
proof -
  have "n mod 64 = take_bit 6 n" by (simp add: take_bit_eq_mod)
  then have "bit (n mod 64) k \<Longrightarrow> \<not> 6 \<le> k" for k by (simp add: bit_take_bit_iff)
  then have "(n AND 63) OR push_bit 6 cp = n mod 64 + push_bit 6 cp"
    by (subst disjunctive_add) (auto simp: bit_push_bit_iff and_low_bits)
  moreover have "n mod 64 + push_bit 6 cp < 2 ^ 32" using assms by (simp add: push_bit_eq_mult)
  ultimately show ?thesis
    using assms by (simp add: utf8_decode_def Let_def push_bit_eq_mult take_bit_nat_eq_self)
qed

text \<open>The two, with the state as a whole: a follow byte keeps the invariant on the code point.\<close>

lemma follow_decode:
  assumes st: "2 \<le> st" "st \<le> 8" and n: "n < 256" and inv: "cp_inv st cp"
    and dec: "utf8_decode st cp n = (st', cp')"
  obtains r rs where "expects st = r # rs"
    "\<not> (fst r \<le> n \<and> n \<le> snd r) \<Longrightarrow> st' = 1"
    "fst r \<le> n \<and> n \<le> snd r \<Longrightarrow> expects st' = rs \<and> cp_inv st' cp'
       \<and> (if rs = [] then st' = 0 else 2 \<le> st' \<and> st' \<le> 8)"
proof -
  from follow_step [OF st n, of cp] dec obtain r rs where ex: "expects st = r # rs"
    and f: "if fst r \<le> n \<and> n \<le> snd r
        then expects st' = rs \<and> (if rs = [] then st' = 0 else 2 \<le> st' \<and> st' \<le> 8)
             \<and> (cp_low st \<le> cp \<longrightarrow> cp_low st' \<le> 64 * cp + n mod 64)
        else st' = 1"
    by (auto simp: Let_def)
  have len: "length rs \<le> 2" using ex by (auto simp: expects.simps split: if_splits)
  have "cp < 2 ^ (26 - 6 * Suc (length rs))" using inv ex by (simp add: cp_inv_def)
  moreover have "length rs = 0 \<or> length rs = 1 \<or> length rs = 2" using len by linarith
  ultimately have b: "64 * cp + n mod 64 < 2 ^ (26 - 6 * length rs)" and "cp < 2 ^ 26"
    using mod_less_divisor [of 64 n] by auto
  then have "cp' = 64 * cp + n mod 64" using continuation_cp [of cp st n] dec st by simp
  with f b inv have "fst r \<le> n \<and> n \<le> snd r \<Longrightarrow> expects st' = rs \<and> cp_inv st' cp'
       \<and> (if rs = [] then st' = 0 else 2 \<le> st' \<and> st' \<le> 8)"
    by (auto simp: cp_inv_def)
  with that [OF ex] f show ?thesis by auto
qed

definition esc_text :: "escaper \<Rightarrow> string" where
  "esc_text e = esc_out e @ esc_buf e"

definition esc_finish :: "escaper \<Rightarrow> exn + string" where
  "esc_finish e = (if esc_state e = 0 then Inr (esc_text e) else Inl (TypeError 316))"

definition esc_rest :: "escaper \<Rightarrow> string \<Rightarrow> exn + string" where
  "esc_rest e s = rbind (esc_bytes e s) esc_finish"

lemma esc_rest_Nil: "esc_rest e [] = esc_finish e"
  by (simp add: esc_rest_def)

lemma esc_rest_Cons: "esc_rest e (c # cs) = rbind (esc_byte e c) (\<lambda>e'. esc_rest e' cs)"
  by (simp add: esc_rest_def rbind_assoc)

lemma esc_flush_text [simp]: "esc_text (esc_flush e) = esc_text e"
  "esc_state (esc_flush e) = esc_state e" "esc_codep (esc_flush e) = esc_codep e"
  by (simp_all add: esc_flush_def esc_text_def)

lemma escape_high: "128 \<le> cp \<Longrightarrow> escape_codepoint cp c = [c]"
  by (simp add: escape_codepoint_def)

lemma esc_byte_follow:
  assumes "2 \<le> esc_state e" "esc_state e \<le> 8" "cp_inv (esc_state e) (esc_codep e)"
  obtains r rs where "expects (esc_state e) = r # rs"
    "\<not> (fst r \<le> of_char c \<and> of_char c \<le> snd r) \<longrightarrow> esc_byte e c = Inl (TypeError 316)"
    "fst r \<le> of_char c \<and> of_char c \<le> snd r \<longrightarrow> (\<exists>e'. esc_byte e c = Inr e' \<and> esc_text e' = esc_text e @ [c]
       \<and> expects (esc_state e') = rs \<and> cp_inv (esc_state e') (esc_codep e')
       \<and> (if rs = [] then esc_state e' = 0 else 2 \<le> esc_state e' \<and> esc_state e' \<le> 8))"
proof -
  obtain st' cp' where d: "utf8_decode (esc_state e) (esc_codep e) (of_char c) = (st', cp')" by force
  have e0: "expects 0 = []" by (simp add: expects.simps)
  from follow_decode [OF assms(1,2) of_char_bound assms(3) d] obtain r rs where
    f: "expects (esc_state e) = r # rs"
    "\<not> (fst r \<le> of_char c \<and> of_char c \<le> snd r) \<Longrightarrow> st' = 1"
    "fst r \<le> of_char c \<and> of_char c \<le> snd r \<Longrightarrow> expects st' = rs \<and> cp_inv st' cp'
       \<and> (if rs = [] then st' = 0 else 2 \<le> st' \<and> st' \<le> 8)" by blast
  have high: "escape_codepoint cp' c = [c]" if "st' = 0" "cp_inv st' cp'"
    using that by (simp add: cp_inv_def cp_low_def escape_high)
  have no: "\<not> (fst r \<le> of_char c \<and> of_char c \<le> snd r) \<longrightarrow> esc_byte e c = Inl (TypeError 316)"
    using f(2) by (simp add: esc_byte_def d)
  have yes: "\<exists>e'. esc_byte e c = Inr e' \<and> esc_text e' = esc_text e @ [c]
       \<and> expects (esc_state e') = rs \<and> cp_inv (esc_state e') (esc_codep e')
       \<and> (if rs = [] then esc_state e' = 0 else 2 \<le> esc_state e' \<and> esc_state e' \<le> 8)"
    if r: "fst r \<le> of_char c \<and> of_char c \<le> snd r"
  proof (cases "rs = []")
    case True
    with f(3) [OF r] have z: "st' = 0" "cp_inv 0 cp'" by auto
    with high have "escape_codepoint cp' c = [c]" by simp
    with z True e0 show ?thesis by (simp add: esc_byte_def d) (simp add: esc_text_def)
  next
    case False
    with f(3) [OF r] show ?thesis by (simp add: esc_byte_def d esc_text_def)
  qed
  from that [OF f(1)] no yes show thesis by blast
qed

lemma esc_rest_follow:
  assumes "2 \<le> esc_state e" "esc_state e \<le> 8" "cp_inv (esc_state e) (esc_codep e)"
    "rs = expects (esc_state e)"
  shows "\<exists>e'. esc_state e' = 0 \<and> (follow_ok rs cs \<longrightarrow> esc_text e' = esc_text e @ take (length rs) cs) \<and>
    esc_rest e cs = (if follow_ok rs cs then esc_rest e' (drop (length rs) cs)
                     else Inl (TypeError 316))"
  using assms
proof (induction cs arbitrary: e rs)
  case (Nil e rs)
  have "\<not> follow_ok rs []"
    using Nil(1-4) by (auto simp: expects.simps)
  with Nil(1) show ?case
    by (intro exI [of _ esc_init]) (simp add: esc_rest_Nil esc_finish_def, simp add: esc_init_def)
next
  case (Cons c cs e rs0)
  obtain r rs where f: "expects (esc_state e) = r # rs"
    "\<not> (fst r \<le> of_char c \<and> of_char c \<le> snd r) \<longrightarrow> esc_byte e c = Inl (TypeError 316)"
    "fst r \<le> of_char c \<and> of_char c \<le> snd r \<longrightarrow> (\<exists>e'. esc_byte e c = Inr e' \<and> esc_text e' = esc_text e @ [c]
       \<and> expects (esc_state e') = rs \<and> cp_inv (esc_state e') (esc_codep e')
       \<and> (if rs = [] then esc_state e' = 0 else 2 \<le> esc_state e' \<and> esc_state e' \<le> 8))"
    by (rule esc_byte_follow [OF Cons.prems(1-3), where c = c])
  show ?case
  proof (cases "fst r \<le> of_char c \<and> of_char c \<le> snd r")
    case False
    with f(1) Cons.prems(4) have no: "\<not> follow_ok rs0 (c # cs)" by auto
    with f(2) False show ?thesis
      by (intro exI [of _ esc_init]) (simp add: esc_rest_Cons esc_init_def)
  next
    case True
    from f(3) True obtain e' where e': "esc_byte e c = Inr e'" "esc_text e' = esc_text e @ [c]"
      "expects (esc_state e') = rs" "cp_inv (esc_state e') (esc_codep e')"
      "if rs = [] then esc_state e' = 0 else 2 \<le> esc_state e' \<and> esc_state e' \<le> 8" by blast
    show ?thesis
    proof (cases "rs = []")
      case True': True
      with e' True f(1) Cons.prems(4) show ?thesis
        by (intro exI [of _ e']) (simp add: esc_rest_Cons)
    next
      case False
      with e' Cons.IH [of e' rs] obtain e2 where "esc_state e2 = 0"
        "follow_ok rs cs \<longrightarrow> esc_text e2 = esc_text e' @ take (length rs) cs"
        "esc_rest e' cs = (if follow_ok rs cs then esc_rest e2 (drop (length rs) cs) else Inl (TypeError 316))"
        by auto
      with e' True f(1) Cons.prems(4) show ?thesis
        by (intro exI [of _ e2]) (simp add: esc_rest_Cons)
    qed
  qed
qed

lemma escape_byte_take:
  "follow_ok rs cs \<Longrightarrow> \<forall>r \<in> set rs. 0x80 \<le> fst r \<Longrightarrow> escape_text (take (length rs) cs) = take (length rs) cs"
  by (induction rs cs rule: follow_ok.induct) (auto simp: escape_text_def escape_byte_def)

lemma utf8_follow_high: "utf8_follow n = Some rs \<Longrightarrow> \<forall>r \<in> set rs. 0x80 \<le> fst r"
  by (auto simp: utf8_follow_def split: if_splits)

text \<open>The decoder, the buffer and the escapes together: a string is written exactly if it is
  well-formed UTF-8, as the escapes of its bytes.\<close>

lemma esc_rest_text:
  "esc_state e = 0 \<Longrightarrow>
   esc_rest e s = (if utf8_ok s then Inr (esc_text e @ escape_text s) else Inl (TypeError 316))"
proof (induction s arbitrary: e rule: utf8_ok.induct)
  case 1
  then show ?case by (simp add: esc_rest_Nil esc_finish_def escape_text_def)
next
  case (2 c cs e)
  note lead = lead_step [OF of_char_bound [of c], of "esc_codep e"]
  show ?case
  proof (cases "of_char c < (128 :: nat)")
    case True
    with lead 2(3) obtain e' where e': "esc_byte e c = Inr e'" "esc_state e' = 0"
      "esc_text e' = esc_text e @ escape_byte c"
      by (simp add: esc_byte_def escape_byte_def) (simp add: esc_text_def)
    with 2(1) [OF True e'(2)] True show ?thesis by (simp add: esc_rest_Cons escape_text_def)
  next
    case False
    show ?thesis
    proof (cases "utf8_follow (of_char c)")
      case None
      obtain st cp' where d: "utf8_decode 0 (esc_codep e) (of_char c) = (st, cp')" by force
      with lead False None have "st = 1" by simp
      with 2(3) None False d show ?thesis by (simp add: esc_rest_Cons esc_byte_def)
    next
      case (Some rs)
      with lead False obtain st cp' where l: "utf8_decode 0 (esc_codep e) (of_char c) = (st, cp')"
        "2 \<le> st" "st \<le> 8" "expects st = rs" "cp_inv st cp'" by auto
      define e1 where "e1 = e\<lparr>esc_state := st, esc_codep := cp', esc_buf := esc_buf e @ [c]\<rparr>"
      have b: "esc_byte e c = Inr e1" using l 2(3) by (simp add: esc_byte_def e1_def)
      from esc_rest_follow [of e1 rs cs] l obtain e2 where e2: "esc_state e2 = 0"
        "follow_ok rs cs \<longrightarrow> esc_text e2 = esc_text e1 @ take (length rs) cs"
        "esc_rest e1 cs = (if follow_ok rs cs then esc_rest e2 (drop (length rs) cs) else Inl (TypeError 316))"
        by (auto simp: e1_def)
      have "escape_text cs = take (length rs) cs @ escape_text (drop (length rs) cs)" if "follow_ok rs cs"
        using escape_byte_take [OF that utf8_follow_high [OF Some]]
        by (metis append_take_drop_id concat_append escape_text_def map_append)
      moreover have "esc_text e1 = esc_text e @ [c]" by (simp add: e1_def esc_text_def)
      ultimately show ?thesis
        using b e2 2(2) [OF False Some e2(1)] False Some
        by (simp add: esc_rest_Cons escape_text_def escape_byte_def)
    qed
  qed
qed

lemma dump_escaped_text:
  "dump_escaped s = (if utf8_ok s then Inr (escape_text s) else Inl (TypeError 316))"
proof -
  have "(\<lambda>e. if esc_state e = 0 then Inr (esc_out e @ esc_buf e) else Inl (TypeError 316)) = esc_finish"
    by (rule ext) (simp add: esc_finish_def esc_text_def)
  then have "dump_escaped s = esc_rest esc_init s" by (simp add: dump_escaped_def esc_rest_def)
  then show ?thesis by (simp add: esc_rest_text esc_init_def esc_text_def)
qed

section \<open>The string buffer\<close>

text \<open>
  The 512 bytes of \<open>string_buffer\<close>: between characters at most 499 are in use, and inside a
  character each byte already written is one the decoder no longer expects.
\<close>

definition esc_buf_ok :: "escaper \<Rightarrow> bool" where
  "esc_buf_ok e =
     (esc_state e = 0 \<and> length (esc_buf e) \<le> 499
      \<or> 2 \<le> esc_state e \<and> esc_state e \<le> 8
        \<and> length (esc_buf e) + length (expects (esc_state e)) \<le> 503)"

lemma expects_nonempty: "2 \<le> st \<Longrightarrow> st \<le> 8 \<Longrightarrow> 1 \<le> length (expects st) \<and> length (expects st) \<le> 3"
  by (simp add: expects.simps)

lemma escape_codepoint_length: "1 \<le> length (escape_codepoint cp c) \<and> length (escape_codepoint cp c) \<le> 6"
  by (simp add: escape_codepoint_def hex4_def)

lemma esc_buf_ok_room: "esc_buf_ok e \<Longrightarrow> length (esc_buf e) \<le> 502"
  using expects_nonempty [of "esc_state e"] by (auto simp: esc_buf_ok_def)

lemma esc_buf_ok_flush:
  "length (esc_buf e) \<le> 502 \<Longrightarrow> esc_state e = 0 \<Longrightarrow>
   esc_buf_ok (esc_flush (e\<lparr>esc_codep := cp, esc_buf := esc_buf e @ escape_codepoint cp c\<rparr>))"
  using escape_codepoint_length [of cp c] by (auto simp: esc_buf_ok_def esc_flush_def)

lemma lead_state:
  assumes "utf8_decode 0 cp n = (st, cp')" "n < 256" "st \<noteq> 0" "st \<noteq> 1"
  shows "2 \<le> st \<and> st \<le> 8"
proof (cases "n < 128")
  case True
  with lead_step [OF assms(2), of cp] assms show ?thesis by simp
next
  case False
  note l = lead_step [OF assms(2), of cp, unfolded if_not_P [OF False] assms(1)]
  show ?thesis using l assms(4) by (cases "utf8_follow n") simp_all
qed

lemma follow_state:
  assumes "utf8_decode st0 cp n = (st, cp')" "n < 256" "st \<noteq> 1" "2 \<le> st0" "st0 \<le> 8"
  shows "length (expects st0) = Suc (length (expects st)) \<and> (st = 0 \<or> 2 \<le> st \<and> st \<le> 8)"
proof -
  from follow_step [OF assms(4,5,2), of cp, unfolded assms(1) Let_def fst_conv] obtain r rs where
    ex: "expects st0 = r # rs" and f: "if fst r \<le> n \<and> n \<le> snd r
        then expects st = rs \<and> (if rs = [] then st = 0 else 2 \<le> st \<and> st \<le> 8)
             \<and> (cp_low st0 \<le> cp \<longrightarrow> cp_low st \<le> 64 * cp + n mod 64)
        else st = 1" by blast
  from f assms(3) have "fst r \<le> n \<and> n \<le> snd r" by (rule_tac ccontr) simp
  with f ex show ?thesis by (cases "rs = []") (simp_all add: expects.simps [of 0])
qed

lemma esc_buf_ok_byte:
  assumes ok: "esc_buf_ok e" and b: "esc_byte e c = Inr e'"
  shows "esc_buf_ok e'"
proof -
  obtain st cp where d: "utf8_decode (esc_state e) (esc_codep e) (of_char c) = (st, cp)" by force
  have room: "length (esc_buf (e\<lparr>esc_state := 0\<rparr>)) \<le> 502" using esc_buf_ok_room [OF ok] by simp
  note b' = b [unfolded esc_byte_def d Let_def prod.case]
  show ?thesis
  proof (cases "st = 0")
    case True
    with b' have "e' = esc_flush (e\<lparr>esc_state := 0, esc_codep := cp, esc_buf := esc_buf e @ escape_codepoint cp c\<rparr>)"
      by simp
    with esc_buf_ok_flush [OF room, of cp c] show ?thesis by simp
  next
    case False
    with b' have ne: "st \<noteq> 1" and e': "e' = e\<lparr>esc_state := st, esc_codep := cp, esc_buf := esc_buf e @ [c]\<rparr>"
      by (simp_all split: if_splits)
    show ?thesis
    proof (cases "esc_state e = 0")
      case True
      note lead_state [OF d [unfolded True] of_char_bound False ne]
      with expects_nonempty [of st] ok True e' show ?thesis by (simp add: esc_buf_ok_def)
    next
      case False: False
      with ok have "2 \<le> esc_state e" "esc_state e \<le> 8" by (auto simp: esc_buf_ok_def)
      from follow_state [OF d of_char_bound ne this] \<open>st \<noteq> 0\<close> ok False e' show ?thesis
        by (simp add: esc_buf_ok_def)
    qed
  qed
qed

lemma esc_buf_ok_bytes: "esc_buf_ok e \<Longrightarrow> esc_bytes e s = Inr e' \<Longrightarrow> esc_buf_ok e'"
  by (induction s arbitrary: e) (auto simp: rbind_Inr_iff intro: esc_buf_ok_byte)

text \<open>
  C14: no string overruns the serializer's string buffer. Before every byte at most 502 of the 512
  bytes are used, so the longest write, the six bytes of an escape and the NUL that
  \<open>snprintf\<close> adds, stays inside.
\<close>

theorem escape_buffer_bound:
  assumes "esc_bytes esc_init s = Inr e"
  shows "length (esc_buf e) + length (escape_codepoint cp c) + 1 \<le> 512"
  using esc_buf_ok_room [OF esc_buf_ok_bytes [OF _ assms]] escape_codepoint_length [of cp c]
  by (simp add: esc_buf_ok_def esc_init_def)

lemma escape_buffer_bound_witness:
  "\<exists>e. esc_bytes esc_init ''d'' = Inr e \<and> length (esc_buf e) = 1
     \<and> length (esc_buf e) + length (escape_codepoint 1 (CHR 0x01)) + 1 \<le> 512"
proof -
  have "case esc_bytes esc_init ''d'' of Inl x \<Rightarrow> False | Inr e \<Rightarrow> length (esc_buf e) = 1" by code_simp
  then obtain e where "esc_bytes esc_init ''d'' = Inr e" "length (esc_buf e) = 1"
    by (auto split: sum.splits)
  with escape_buffer_bound [of "''d''" e 1 "CHR 0x01"] show ?thesis by blast
qed

text \<open>
  C13: a string is written exactly if it is well-formed UTF-8, and then as the escapes of its
  bytes; any other string makes \<open>dump\<close> throw \<open>type_error\<close> 316.
\<close>

theorem dump_string_iff_utf8:
  "dump_string s = (if utf8_ok s then Inr (CHR 0x22 # escape_text s @ [CHR 0x22])
                    else Inl (TypeError 316))"
  by (simp add: dump_string_def dump_escaped_text)

text \<open>
  The digit-pair loops that fill the number buffer from the right write exactly the decimal
  text of the number, leaving no byte of the counted length unwritten.
\<close>

lemma dump_numbers_text:
  "dump_uint x = nat_to_dec (unat x) \<and> dump_int x = to_string (sint x)"
  by (simp add: dump_int_text dump_uint_text)

end
