(* ===== verification/JsonParser.thy ===== *)
theory JsonParser
  imports JsonLexer
begin

text \<open>
  The DOM builder (\<open>json_sax_dom_parser\<close>) and the parser of \<open>common/json.hpp\<close>, down to
  \<open>json::parse\<close> with its default arguments. \<open>ref_stack\<close> points into the value under
  construction; here each entry holds the container it points to, innermost first, and is put
  into its parent when it is popped. Nothing reads the value in between: a parse that throws
  discards it.
\<close>

section \<open>The DOM builder\<close>

text \<open>An object under construction also remembers the key \<open>object_element\<close> points at.\<close>

datatype frame = ArrFrame "json list" | ObjFrame "(string \<times> json) list" string

record dom =
  dom_root :: json
  dom_stack :: "frame list"

definition dom_init :: dom where
  "dom_init = \<lparr>dom_root = JNull, dom_stack = []\<rparr>"

definition dom_value :: "json \<Rightarrow> dom \<Rightarrow> dom" where
  "dom_value v d =
     (case dom_stack d of
        [] \<Rightarrow> d\<lparr>dom_root := v\<rparr>
      | ArrFrame xs # fs \<Rightarrow> d\<lparr>dom_stack := ArrFrame (xs @ [v]) # fs\<rparr>
      | ObjFrame m k # fs \<Rightarrow> d\<lparr>dom_stack := ObjFrame (om_assign k v m) k # fs\<rparr>)"

definition dom_start_array :: "dom \<Rightarrow> dom" where
  "dom_start_array d = d\<lparr>dom_stack := ArrFrame [] # dom_stack d\<rparr>"

definition dom_start_object :: "dom \<Rightarrow> dom" where
  "dom_start_object d = d\<lparr>dom_stack := ObjFrame [] [] # dom_stack d\<rparr>"

definition dom_key :: "string \<Rightarrow> dom \<Rightarrow> dom" where
  "dom_key k d =
     (case dom_stack d of
        ObjFrame m k' # fs \<Rightarrow> d\<lparr>dom_stack := ObjFrame (om_emplace k JNull m) k # fs\<rparr>
      | _ \<Rightarrow> d)"

text \<open>\<open>end_array\<close> and \<open>end_object\<close>.\<close>

definition dom_end :: "dom \<Rightarrow> dom" where
  "dom_end d =
     (case dom_stack d of
        [] \<Rightarrow> d
      | ArrFrame xs # fs \<Rightarrow> dom_value (JArray xs) (d\<lparr>dom_stack := fs\<rparr>)
      | ObjFrame m k # fs \<Rightarrow> dom_value (JObject m) (d\<lparr>dom_stack := fs\<rparr>))"

section \<open>The parser\<close>

record parser =
  ps_lexer :: lexer
  ps_last :: token
  ps_dom :: dom

definition get_token :: "parser \<Rightarrow> parser" where
  "get_token p = (case scan (ps_lexer p) of (t, l) \<Rightarrow> p\<lparr>ps_lexer := l, ps_last := t\<rparr>)"

definition with_dom :: "(dom \<Rightarrow> dom) \<Rightarrow> parser \<Rightarrow> parser" where
  "with_dom f p = p\<lparr>ps_dom := f (ps_dom p)\<rparr>"

text \<open>
  A key and the separator after it, and the first token of the value: the part the two places
  that read a key have in common. The key is the last token.
\<close>

definition parse_key :: "parser \<Rightarrow> exn + parser" where
  "parse_key p =
     (if ps_last p \<noteq> TValueString then Inl (ParseError 101)
      else let p1 = get_token (with_dom (dom_key (lx_buf (ps_lexer p))) p)
           in if ps_last p1 \<noteq> TNameSeparator then Inl (ParseError 101)
              else Inr (get_token p1))"

text \<open>
  The \<open>switch\<close> on the last token. \<open>Evaluate\<close> is leaving the switch by \<open>break\<close>, \<open>Continue\<close> is
  the next round of the loop without evaluating the state.
\<close>

datatype after_value = Evaluate | Continue

definition parse_value :: "bool list \<Rightarrow> parser \<Rightarrow> exn + (after_value \<times> bool list \<times> parser)" where
  "parse_value states p =
     (let leaf = (\<lambda>v. Inr (Evaluate, states, with_dom (dom_value v) p)) in
      case ps_last p of
        TBeginObject \<Rightarrow>
          (let p1 = get_token (with_dom dom_start_object p)
           in if ps_last p1 = TEndObject then Inr (Evaluate, states, with_dom dom_end p1)
              else rbind (parse_key p1) (\<lambda>p2. Inr (Continue, False # states, p2)))
      | TBeginArray \<Rightarrow>
          (let p1 = get_token (with_dom dom_start_array p)
           in if ps_last p1 = TEndArray then Inr (Evaluate, states, with_dom dom_end p1)
              else Inr (Continue, True # states, p1))
      | TValueFloat \<Rightarrow>
          (if dbl_isfinite (lx_float (ps_lexer p)) then leaf (JFloat (lx_float (ps_lexer p)))
           else Inl (OutOfRange 406))
      | TLiteralFalse \<Rightarrow> leaf (JBool False)
      | TLiteralNull \<Rightarrow> leaf JNull
      | TLiteralTrue \<Rightarrow> leaf (JBool True)
      | TValueInteger \<Rightarrow> leaf (JInt (lx_integer (ps_lexer p)))
      | TValueString \<Rightarrow> leaf (JString (lx_buf (ps_lexer p)))
      | TValueUnsigned \<Rightarrow> leaf (JUInt (lx_unsigned (ps_lexer p)))
      | _ \<Rightarrow> Inl (ParseError 101))"

text \<open>
  The evaluation of the state after a value. The result is \<open>None\<close> when the stack is empty, or
  \<open>skip_to_state_evaluation\<close> for the next round with the new stack.
\<close>

definition eval_state :: "bool list \<Rightarrow> parser \<Rightarrow> exn + (bool \<times> bool list \<times> parser) option" where
  "eval_state states p =
     (case states of
        [] \<Rightarrow> Inr None
      | arr # rest \<Rightarrow>
        (let p1 = get_token p
         in if ps_last p1 = TValueSeparator then
              (if arr then Inr (Some (False, states, get_token p1))
               else rbind (parse_key (get_token p1)) (\<lambda>p2. Inr (Some (False, states, p2))))
            else if ps_last p1 = (if arr then TEndArray else TEndObject)
              then Inr (Some (True, rest, with_dom dom_end p1))
            else Inl (ParseError 101)))"

text \<open>One round of the loop; \<open>None\<close> in the second component is \<open>return true\<close>.\<close>

definition parse_round ::
    "bool \<Rightarrow> bool list \<Rightarrow> parser \<Rightarrow> exn + (parser \<times> (bool \<times> bool list \<times> parser) option)" where
  "parse_round skip states p =
     (if skip then rbind (eval_state states p) (\<lambda>r. Inr (p, r))
      else rbind (parse_value states p)
             (\<lambda>(a, states', p').
                case a of
                  Continue \<Rightarrow> Inr (p', Some (False, states', p'))
                | Evaluate \<Rightarrow> rbind (eval_state states' p') (\<lambda>r. Inr (p', r))))"

text \<open>What bounds the rounds: the characters left, and whether a token is still to be used.\<close>

definition ps_size :: "bool \<Rightarrow> parser \<Rightarrow> nat" where
  "ps_size skip p =
     lx_size (ps_lexer p) + (if skip \<or> ps_last p \<noteq> TEndOfInput then 1 else 0)"

lemma ps_lexer_with_dom [simp]: "ps_lexer (with_dom f p) = ps_lexer p"
  and ps_last_with_dom [simp]: "ps_last (with_dom f p) = ps_last p"
  and ps_dom_with_dom [simp]: "ps_dom (with_dom f p) = f (ps_dom p)"
  by (simp_all add: with_dom_def)

lemma get_token_size_le: "lx_size (ps_lexer (get_token p)) \<le> lx_size (ps_lexer p)"
  by (auto simp: get_token_def split: prod.splits dest: scan_size_le)

lemma get_token_size_less:
  "ps_last (get_token p) \<noteq> TEndOfInput \<Longrightarrow> lx_size (ps_lexer (get_token p)) < lx_size (ps_lexer p)"
  by (auto simp: get_token_def split: prod.splits dest: scan_size_less)

lemma get_token_ps_size: "ps_size False (get_token p) \<le> lx_size (ps_lexer p)"
  using get_token_size_le [of p] get_token_size_less [of p] by (auto simp: ps_size_def)

lemma parse_key_size:
  assumes "parse_key p = Inr q"
  shows "ps_size False q < lx_size (ps_lexer p)"
proof -
  define p1 where "p1 = get_token (with_dom (dom_key (lx_buf (ps_lexer p))) p)"
  from assms have q: "q = get_token p1" "ps_last p1 = TNameSeparator"
    by (auto simp: parse_key_def p1_def Let_def split: if_splits)
  then have "lx_size (ps_lexer p1) < lx_size (ps_lexer p)"
    using get_token_size_less [of "with_dom (dom_key (lx_buf (ps_lexer p))) p"] by (simp add: p1_def)
  with get_token_ps_size [of p1] q show ?thesis by simp
qed

lemma parse_value_size:
  assumes "parse_value states p = Inr (a, states', q)"
  shows "lx_size (ps_lexer q) \<le> lx_size (ps_lexer p)" "ps_last p \<noteq> TEndOfInput"
    "a = Continue \<Longrightarrow> ps_size False q < ps_size False p"
proof -
  let ?o = "get_token (with_dom dom_start_object p)" and ?a = "get_token (with_dom dom_start_array p)"
  have o: "lx_size (ps_lexer ?o) \<le> lx_size (ps_lexer p)" "ps_size False ?o \<le> lx_size (ps_lexer p)"
    using get_token_size_le [of "with_dom dom_start_object p"]
      get_token_ps_size [of "with_dom dom_start_object p"] by simp_all
  have ar: "lx_size (ps_lexer ?a) \<le> lx_size (ps_lexer p)" "ps_size False ?a \<le> lx_size (ps_lexer p)"
    using get_token_size_le [of "with_dom dom_start_array p"]
      get_token_ps_size [of "with_dom dom_start_array p"] by simp_all
  have k: "parse_key ?o = Inr r \<Longrightarrow> ps_size False r < lx_size (ps_lexer p) \<and> lx_size (ps_lexer r) \<le> lx_size (ps_lexer p)" for r
    using parse_key_size [of ?o r] o by (auto simp: ps_size_def)
  show "lx_size (ps_lexer q) \<le> lx_size (ps_lexer p)" "ps_last p \<noteq> TEndOfInput"
    "a = Continue \<Longrightarrow> ps_size False q < ps_size False p"
    using assms o(1) ar k
    by (auto simp: rbind_Inr_iff parse_value_def Let_def ps_size_def split: token.splits if_splits sum.splits)
qed

lemma eval_state_size:
  assumes "eval_state states p = Inr (Some (skip', states', q))"
  shows "ps_size skip' q \<le> lx_size (ps_lexer p)"
proof -
  have g: "ps_last (get_token p) \<noteq> TEndOfInput \<Longrightarrow> lx_size (ps_lexer (get_token p)) < lx_size (ps_lexer p)"
    by (rule get_token_size_less)
  have g2: "ps_size False (get_token (get_token p)) \<le> lx_size (ps_lexer (get_token p))"
    by (rule get_token_ps_size)
  have k: "parse_key (get_token (get_token p)) = Inr r \<Longrightarrow> ps_size False r \<le> lx_size (ps_lexer (get_token p))" for r
    using parse_key_size [of "get_token (get_token p)" r] get_token_size_le [of "get_token p"] by simp
  show ?thesis
  proof (cases "ps_last (get_token p) = TValueSeparator")
    case True
    with assms g g2 k show ?thesis
      by (fastforce simp: rbind_Inr_iff eval_state_def Let_def split: list.splits if_splits)
  next
    case False
    with assms g show ?thesis
      by (auto simp: eval_state_def Let_def ps_size_def split: list.splits if_splits)
  qed
qed

lemma parse_round_size:
  assumes "parse_round skip states p = Inr (r, Some (skip', states', q))"
  shows "ps_size skip' q < ps_size skip p"
proof (cases skip)
  case True
  with assms eval_state_size [of states p skip' states' q] show ?thesis
    by (auto simp: rbind_Inr_iff parse_round_def ps_size_def)
next
  case False
  with assms obtain a st p' where v: "parse_value states p = Inr (a, st, p')"
    by (auto simp: rbind_Inr_iff parse_round_def)
  show ?thesis
  proof (cases a)
    case Continue
    with assms False v parse_value_size(3) [OF v] show ?thesis by (auto simp: parse_round_def)
  next
    case Evaluate
    with assms False v have "eval_state st p' = Inr (Some (skip', states', q))"
      by (auto simp: rbind_Inr_iff parse_round_def)
    from eval_state_size [OF this] parse_value_size(1,2) [OF v] False show ?thesis
      by (simp add: ps_size_def)
  qed
qed

function sax_parse_internal :: "bool \<Rightarrow> bool list \<Rightarrow> parser \<Rightarrow> exn + parser" where
  "sax_parse_internal skip states p =
     (case parse_round skip states p of
        Inl e \<Rightarrow> Inl e
      | Inr (r, None) \<Rightarrow> Inr r
      | Inr (r, Some (skip', states', q)) \<Rightarrow> sax_parse_internal skip' states' q)"
  by pat_completeness auto

termination
  by (relation "measure (\<lambda>(skip, states, p). ps_size skip p)") (auto dest: parse_round_size)

declare sax_parse_internal.simps [simp del]

text \<open>\<open>json::parse(s)\<close>: strict, with exceptions, without a callback.\<close>

definition parser_init :: "string \<Rightarrow> parser" where
  "parser_init s =
     get_token \<lparr>ps_lexer = lexer_init s, ps_last = TUninitialized, ps_dom = dom_init\<rparr>"

definition json_parse :: "string \<Rightarrow> exn + json" where
  "json_parse s =
     rbind (sax_parse_internal False [] (parser_init s))
       (\<lambda>p. if ps_last (get_token p) = TEndOfInput then Inr (dom_root (ps_dom p))
            else Inl (ParseError 101))"

end
