(* ===== verification/JsonRead.thy ===== *)
theory JsonRead
  imports JsonText JsonParser
begin

text \<open>
  What the lexer reads in a text of the serializer. \<open>pending\<close> is the text the next calls of \<open>get\<close>
  deliver, the character put back by \<open>unget\<close> included; each lemma names a kind of token, the
  text before the lexer and the text it leaves.
\<close>

section \<open>The text before the lexer\<close>

definition pending :: "lexer \<Rightarrow> string" where
  "pending l =
     (if lx_next_unget l then (case lx_current l of Some c \<Rightarrow> c # lx_ia l | None \<Rightarrow> lx_ia l)
      else lx_ia l)"

text \<open>After the end of the input there is nothing more.\<close>

definition lx_ok :: "lexer \<Rightarrow> bool" where
  "lx_ok l = (lx_next_unget l \<and> lx_current l = None \<longrightarrow> lx_ia l = [])"

lemma pending_update [simp]:
  "pending (l\<lparr>lx_unsigned := x\<rparr>) = pending l" "pending (l\<lparr>lx_integer := x\<rparr>) = pending l"
  "pending (l\<lparr>lx_float := y\<rparr>) = pending l"
  by (auto simp: pending_def split: option.splits)

lemma lx_ok_update [simp]:
  "lx_ok (l\<lparr>lx_unsigned := x\<rparr>) = lx_ok l" "lx_ok (l\<lparr>lx_integer := x\<rparr>) = lx_ok l"
  "lx_ok (l\<lparr>lx_float := y\<rparr>) = lx_ok l"
  by (auto simp: lx_ok_def)

text \<open>\<open>reads l c rest\<close>: \<open>l\<close> has just got \<open>c\<close> (or met the end) and \<open>rest\<close> is left.\<close>

definition reads :: "lexer \<Rightarrow> char option \<Rightarrow> string \<Rightarrow> bool" where
  "reads l c rest = (lx_ok l \<and> \<not> lx_next_unget l \<and> lx_current l = c \<and> lx_ia l = rest
                     \<and> (c = None \<longrightarrow> rest = []))"

lemma reads_get_Cons: "lx_ok l \<Longrightarrow> pending l = c # cs \<Longrightarrow> reads (lx_get l) (Some c) cs"
  by (auto simp: reads_def lx_ok_def pending_def lx_get_def Let_def split: option.splits list.splits if_splits)

lemma reads_get_Nil: "lx_ok l \<Longrightarrow> pending l = [] \<Longrightarrow> reads (lx_get l) None []"
  by (auto simp: reads_def lx_ok_def pending_def lx_get_def Let_def split: option.splits list.splits if_splits)

lemma reads_pending: "reads l c rest \<Longrightarrow> lx_ok l \<and> pending l = rest"
  by (auto simp: reads_def pending_def)

lemma reads_current: "reads l c rest \<Longrightarrow> lx_current l = c"
  by (simp add: reads_def)

lemma reads_get: "reads l c (d # rest) \<Longrightarrow> reads (lx_get l) (Some d) rest"
  using reads_pending reads_get_Cons by blast

lemma reads_get_end: "reads l c [] \<Longrightarrow> reads (lx_get l) None []"
  using reads_pending reads_get_Nil by blast

lemma reads_add [simp]: "reads (lx_add d l) c rest = reads l c rest"
  by (simp add: reads_def lx_add_def lx_ok_def)

lemma reads_add_all [simp]: "reads (lx_add_all s l) c rest = reads l c rest"
  by (induction s arbitrary: l) (simp_all add: lx_add_all_def)

lemma reads_reset [simp]: "reads (lx_reset l) c rest = reads l c rest"
  by (simp add: reads_def lx_reset_def lx_ok_def)

lemma reads_unget: "reads l c rest \<Longrightarrow> lx_ok (lx_unget l) \<and> pending (lx_unget l) = (case c of Some c \<Rightarrow> c # rest | None \<Rightarrow> [])"
  by (auto simp: reads_def lx_unget_def lx_ok_def pending_def split: option.splits)

lemma buf_get [simp]: "lx_buf (lx_get l) = lx_buf l"
  by (simp add: lx_get_def Let_def split: list.splits)

lemma buf_add [simp]: "lx_buf (lx_add c l) = lx_buf l @ [c]"
  by (simp add: lx_add_def)

lemma buf_add_all [simp]: "lx_buf (lx_add_all s l) = lx_buf l @ s"
  by (induction s arbitrary: l) (simp_all add: lx_add_all_def)

lemma buf_reset [simp]: "lx_buf (lx_reset l) = []"
  by (simp add: lx_reset_def)

lemma buf_unget [simp]: "lx_buf (lx_unget l) = lx_buf l"
  by (simp add: lx_unget_def)

section \<open>Finding the token\<close>

lemma skip_whitespace_reads:
  assumes "lx_ok l" "pending l = c # cs" "\<not> is_space c"
  shows "reads (skip_whitespace l) (Some c) cs" "skip_whitespace l = lx_get l"
  using reads_get_Cons [OF assms(1,2)] assms(3)
  by (auto simp: skip_whitespace.simps [of l] reads_current)

text \<open>A token that starts with \<open>c\<close> is scanned where \<open>c\<close> is the current character.\<close>

lemma scan_at:
  assumes "lx_ok l" "pending l = c # cs" "\<not> is_space c" "c \<noteq> CHR 0xEF"
  obtains l' where "scan l = scan_token l'" "reads l' (Some c) cs"
proof -
  note r = reads_get_Cons [OF assms(1,2)]
  have bom: "skip_bom l = (True, lx_unget (lx_get l))"
    using reads_current [OF r] assms(4) by (simp add: skip_bom_def)
  have "lx_ok (lx_unget (lx_get l))" "pending (lx_unget (lx_get l)) = c # cs"
    using reads_unget [OF r] by simp_all
  from that [of "skip_whitespace (lx_unget (lx_get l))"] skip_whitespace_reads(1) [OF this assms(3)]
    that [of "skip_whitespace l"] skip_whitespace_reads(1) [OF assms(1-3)] bom
  show thesis by (cases "lx_total l = 0") (simp_all add: scan_def)
qed

lemma scan_end:
  assumes "lx_ok l" "pending l = []"
  shows "fst (scan l) = TEndOfInput"
proof -
  note r = reads_get_Nil [OF assms]
  have bom: "skip_bom l = (True, lx_unget (lx_get l))"
    using reads_current [OF r] by (simp add: skip_bom_def)
  have "lx_current (skip_whitespace l) = None"
    using reads_current [OF r] by (simp add: skip_whitespace.simps [of l])
  moreover have "lx_current (skip_whitespace (lx_unget (lx_get l))) = None"
    using reads_current [OF reads_get_Nil [of "lx_unget (lx_get l)"]] reads_unget [OF r]
    by (simp add: skip_whitespace.simps [of "lx_unget (lx_get l)"])
  ultimately show ?thesis
    using bom by (cases "lx_total l = 0") (simp_all add: scan_def scan_token_def)
qed

text \<open>Structural characters.\<close>

lemma scan_structural:
  assumes "lx_ok l" "pending l = c # cs"
    and "(c, t) \<in> {(CHR ''['', TBeginArray), (CHR '']'', TEndArray), (CHR ''{'', TBeginObject),
                    (CHR ''}'', TEndObject), (CHR '':'', TNameSeparator), (CHR '','', TValueSeparator)}"
  obtains l' where "scan l = (t, l')" "lx_ok l'" "pending l' = cs"
proof -
  have ns: "\<not> is_space c" "c \<noteq> CHR 0xEF" using assms(3) by (auto simp: is_space_def)
  obtain l' where l': "scan l = scan_token l'" "reads l' (Some c) cs"
    by (rule scan_at [OF assms(1,2) ns])
  have "scan_token l' = (t, l')"
    by (insert assms(3), elim insertE emptyE; simp add: scan_token_def reads_current [OF l'(2)])
  with l' reads_pending [OF l'(2)] show thesis by (intro that [of l']) simp_all
qed

section \<open>Literals\<close>

lemma scan_literal_reads:
  "reads l c (s @ rest) \<Longrightarrow> \<exists>l' c'. scan_literal s ty l = (ty, l') \<and> reads l' c' rest"
proof (induction s arbitrary: l c)
  case Nil
  then show ?case by auto
next
  case (Cons d s)
  then have r: "reads (lx_get l) (Some d) (s @ rest)" by (simp add: reads_get)
  from Cons.IH [OF r] reads_current [OF r] show ?case by (simp add: Let_def)
qed

lemma scan_literals:
  assumes "lx_ok l" "pending l = s @ rest"
    and "(s, t) \<in> {(''true'', TLiteralTrue), (''false'', TLiteralFalse), (''null'', TLiteralNull)}"
  obtains l' where "scan l = (t, l')" "lx_ok l'" "pending l' = rest"
proof -
  obtain c s' where s: "s = c # s'" using assms(3) by auto
  have ns: "\<not> is_space c" "c \<noteq> CHR 0xEF" using assms(3) s by (auto simp: is_space_def)
  obtain l1 where l1: "scan l = scan_token l1" "reads l1 (Some c) (s' @ rest)"
    by (rule scan_at [OF assms(1) _ ns]) (simp add: assms(2) s)
  from scan_literal_reads [OF l1(2)] obtain l' c' where
    "scan_literal s' t l1 = (t, l')" "reads l' c' rest" by blast
  moreover have "scan_token l1 = scan_literal s' t l1"
    by (insert assms(3) s, elim insertE emptyE; simp add: scan_token_def reads_current [OF l1(2)])
  ultimately show thesis using that l1 reads_pending by metis
qed

section \<open>Numbers\<close>

text \<open>The automaton of \<open>scan_number\<close> on a text of its own, without the lexer.\<close>

fun num_run :: "num_state \<Rightarrow> token \<Rightarrow> string \<Rightarrow> token option" where
  "num_run st ty [] = (if num_next st None = NumDone then Some (num_type st ty) else None)"
| "num_run st ty (c # cs) =
     (case num_next st (Some c) of NumGoto st' \<Rightarrow> num_run st' (num_type st ty) cs | _ \<Rightarrow> None)"

definition num_start :: "char \<Rightarrow> num_state" where
  "num_start c = (if c = CHR ''-'' then NumMinus else if c = CHR ''0'' then NumZero else NumAny1)"

fun num_text :: "string \<Rightarrow> token option" where
  "num_text [] = None"
| "num_text (c # cs) =
     (if c = CHR ''-'' \<or> is_digit c then num_run (num_start c) TValueUnsigned cs else None)"

text \<open>What follows a value in a text of the serializer.\<close>

definition ends :: "string \<Rightarrow> bool" where
  "ends rest = (rest = [] \<or> hd rest \<in> {CHR '','', CHR '']'', CHR ''}''})"

lemma ends_next: "ends rest \<Longrightarrow> reads l c rest \<Longrightarrow>
    \<exists>d. reads (lx_get l) d (tl rest) \<and> num_next st d = num_next st None
      \<and> lx_ok (lx_unget (lx_get l)) \<and> pending (lx_unget (lx_get l)) = rest"
proof (cases rest)
  case Nil
  assume r: "reads l c rest"
  with Nil have "reads (lx_get l) None []" by (simp add: reads_get_end)
  with reads_unget [OF this] Nil show ?thesis by auto
next
  case (Cons d rest')
  assume e: "ends rest" and r: "reads l c rest"
  with Cons have g: "reads (lx_get l) (Some d) rest'" by (simp add: reads_get)
  have "d \<in> {CHR '','', CHR '']'', CHR ''}''}" using e Cons by (simp add: ends_def)
  then have "num_next st (Some d) = num_next st None"
    by (elim insertE emptyE; cases st; simp add: is_digit_def)
  with g reads_unget [OF g] Cons show ?thesis by auto
qed

lemma scan_number_loop_run:
  assumes "num_run st ty s = Some ty'" "reads l c (s @ rest)" "ends rest"
  shows "\<exists>l'. scan_number_loop st ty l = (Some ty', l') \<and> lx_ok l' \<and> pending l' = rest
           \<and> lx_buf l' = lx_buf l @ s"
  using assms
proof (induction st ty s arbitrary: l c rule: num_run.induct)
  case (1 st ty)
  then have n: "num_next st None = NumDone" "ty' = num_type st ty" by (auto split: if_splits)
  from ends_next [of rest l c st] 1 obtain d where "reads (lx_get l) d (tl rest)"
    "num_next st d = num_next st None" "lx_ok (lx_unget (lx_get l))" "pending (lx_unget (lx_get l)) = rest"
    by auto
  with n show ?case by (simp add: scan_number_loop.simps [of st ty l] reads_current)
next
  case (2 st ty d ds)
  then obtain st' where n: "num_next st (Some d) = NumGoto st'" "num_run st' (num_type st ty) ds = Some ty'"
    by (auto split: num_move.splits)
  have g: "reads (lx_get l) (Some d) (ds @ rest)" using 2(3) by (simp add: reads_get)
  from 2(1) [OF n(1) n(2), of "lx_add d (lx_get l)" "Some d"] g 2(4) obtain l' where
    "scan_number_loop st' (num_type st ty) (lx_add d (lx_get l)) = (Some ty', l')" "lx_ok l'"
    "pending l' = rest" "lx_buf l' = lx_buf l @ d # ds" by auto
  with n g show ?case by (simp add: scan_number_loop.simps [of st ty l] reads_current)
qed

lemma scan_number_text:
  assumes "lx_ok l" "pending l = s @ rest" "ends rest" "num_text s = Some ty"
  obtains l' where "scan l = convert_number ty l'" "lx_ok l'" "pending l' = rest" "lx_buf l' = s"
proof -
  obtain c cs where s: "s = c # cs" using assms(4) by (cases s) auto
  with assms(4) have c: "c = CHR ''-'' \<or> is_digit c" and
    run: "num_run (num_start c) TValueUnsigned cs = Some ty" by (auto split: if_splits)
  have ns: "\<not> is_space c" "c \<noteq> CHR 0xEF" using c by (auto simp: is_space_def is_digit_def)
  obtain l1 where l1: "scan l = scan_token l1" "reads l1 (Some c) (cs @ rest)"
    by (rule scan_at [OF assms(1) _ ns]) (simp add: assms(2) s)
  have "c \<notin> {CHR ''['', CHR '']'', CHR ''{'', CHR ''}'', CHR '':'', CHR '','', CHR ''t'', CHR ''f'',
      CHR ''n'', CHR 0x22}"
    using c by (auto simp: is_digit_def)
  with c have tok: "scan_token l1 = scan_number l1" by (simp add: scan_token_def reads_current [OF l1(2)])
  have "reads (lx_add c (lx_reset l1)) (Some c) (cs @ rest)" using l1(2) by simp
  from scan_number_loop_run [OF run this assms(3)] obtain l' where
    "scan_number_loop (num_start c) TValueUnsigned (lx_add c (lx_reset l1)) = (Some ty, l')"
    "lx_ok l'" "pending l' = rest" "lx_buf l' = s" by (auto simp: s)
  with that l1 tok show thesis
    by (simp add: scan_number_def reads_current [OF l1(2)] num_start_def [symmetric] Let_def)
qed

text \<open>Decimal texts.\<close>

lemma num_run_digits: "\<forall>c \<in> set s. is_digit c \<Longrightarrow> num_run NumAny1 ty s = Some ty"
  by (induction s arbitrary: ty) auto

lemma num_text_nat: "num_text (nat_to_dec n) = Some TValueUnsigned"
proof -
  obtain c cs where s: "nat_to_dec n = c # cs" by (cases "nat_to_dec n") auto
  with nat_to_dec_digits [of n] have d: "is_digit c" "\<forall>c \<in> set cs. is_digit c" by auto
  show ?thesis
  proof (cases "n = 0")
    case True
    then show ?thesis by (simp add: nat_to_dec_0 is_digit_def num_start_def)
  next
    case False
    with hd_nat_to_dec_zero [of n] s have "c \<noteq> CHR ''0''" by simp
    moreover have "c \<noteq> CHR ''-''" using d(1) by (auto simp: is_digit_def)
    ultimately show ?thesis using d by (simp add: s num_start_def num_run_digits)
  qed
qed

lemma num_text_minus: "0 < n \<Longrightarrow> num_text (CHR ''-'' # nat_to_dec n) = Some TValueInteger"
proof -
  assume n: "0 < n"
  obtain c cs where s: "nat_to_dec n = c # cs" by (cases "nat_to_dec n") auto
  with nat_to_dec_digits [of n] have d: "is_digit c" "\<forall>c \<in> set cs. is_digit c" by auto
  moreover have "c \<noteq> CHR ''0''" using hd_nat_to_dec_zero [of n] s n by simp
  ultimately show ?thesis by (simp add: s num_start_def num_run_digits)
qed

lemma strtoull_text: "strtoull (nat_to_dec (unat x)) = Some x"
  using unsigned_less [where w = x and 'a = nat] by (simp add: strtoull_def dec_value_nat_to_dec)

lemma strtoll_text: "sint x < 0 \<Longrightarrow> strtoll (CHR ''-'' # nat_to_dec (nat (- sint x))) = Some x"
proof -
  assume neg: "sint x < 0"
  have "- (of_nat (nat (- sint x)) :: uint64) = - of_int (- sint x)"
    using neg by (metis neg_0_less_iff_less of_int_of_nat_eq order_less_imp_le zero_le_imp_eq_int nat_int)
  also have "\<dots> = x" by simp
  finally show ?thesis using neg sint_ge [of x] by (simp add: strtoll_def Let_def dec_value_nat_to_dec)
qed

lemma scan_unsigned:
  assumes "lx_ok l" "pending l = nat_to_dec (unat x) @ rest" "ends rest"
  obtains l' where "scan l = (TValueUnsigned, l')" "lx_unsigned l' = x" "lx_ok l'" "pending l' = rest"
proof -
  obtain l1 where l1: "scan l = convert_number TValueUnsigned l1" "lx_ok l1" "pending l1 = rest"
    "lx_buf l1 = nat_to_dec (unat x)"
    by (rule scan_number_text [OF assms num_text_nat])
  with that [of "l1\<lparr>lx_unsigned := x\<rparr>"] show thesis
    by (simp add: convert_number_def strtoull_text)
qed

lemma scan_negative:
  assumes "lx_ok l" "pending l = to_string (sint x) @ rest" "ends rest" "sint x < 0"
  obtains l' where "scan l = (TValueInteger, l')" "lx_integer l' = x" "lx_ok l'" "pending l' = rest"
proof -
  have t: "to_string (sint x) = CHR ''-'' # nat_to_dec (nat (- sint x))"
    using assms(4) by (simp add: to_string_def)
  have n: "num_text (CHR ''-'' # nat_to_dec (nat (- sint x))) = Some TValueInteger"
    using assms(4) by (intro num_text_minus) simp
  obtain l1 where l1: "scan l = convert_number TValueInteger l1" "lx_ok l1" "pending l1 = rest"
    "lx_buf l1 = CHR ''-'' # nat_to_dec (nat (- sint x))"
    by (rule scan_number_text [OF assms(1) assms(2) [unfolded t] assms(3) n])
  with that [of "l1\<lparr>lx_integer := x\<rparr>"] show thesis
    by (simp add: convert_number_def strtoll_text [OF assms(4)])
qed

text \<open>A float comes back if its text is a JSON number that \<open>strtod\<close> reads as the same double.\<close>

definition float_text_ok :: "double \<Rightarrow> bool" where
  "float_text_ok x = (num_text (to_chars x) = Some TValueFloat \<and> strtod (to_chars x) = x)"

lemma convert_float: "convert_number TValueFloat l = (TValueFloat, l\<lparr>lx_float := strtod (lx_buf l)\<rparr>)"
  by (simp add: convert_number_def)

lemma scan_float:
  assumes "lx_ok l" "pending l = to_chars x @ rest" "ends rest" "float_text_ok x"
  obtains l' where "scan l = (TValueFloat, l')" "lx_float l' = x" "lx_ok l'" "pending l' = rest"
proof -
  have n: "num_text (to_chars x) = Some TValueFloat" using assms(4) by (simp add: float_text_ok_def)
  obtain l1 where l1: "scan l = convert_number TValueFloat l1" "lx_ok l1" "pending l1 = rest"
    "lx_buf l1 = to_chars x"
    by (rule scan_number_text [OF assms(1-3) n])
  have "strtod (to_chars x) = x" using assms(4) by (simp only: float_text_ok_def)
  with l1 have "scan l = (TValueFloat, l1\<lparr>lx_float := x\<rparr>)" by (simp only: convert_float)
  then show thesis by (rule that) (simp_all add: l1)
qed

section \<open>Strings\<close>

lemma hex_value_digit: "d < 16 \<Longrightarrow> hex_value (Some (hex_digit d)) = Some d"
  by (cases "d < 10") (simp_all add: hex_value_def hex_digit_def Let_def)

lemma codepoint_loop_digits:
  "length ds = length fs \<Longrightarrow> \<forall>d \<in> set ds. d < 16 \<Longrightarrow> reads l c (map hex_digit ds @ rest) \<Longrightarrow>
   \<exists>l'. codepoint_loop fs cp l = (Some (cp + sum_list (map2 push_bit fs ds)), l')
     \<and> (\<exists>c'. reads l' c' rest) \<and> lx_buf l' = lx_buf l"
proof (induction ds fs arbitrary: cp l c rule: list_induct2)
  case Nil
  then show ?case by auto
next
  case (Cons d ds f fs)
  then have r: "reads (lx_get l) (Some (hex_digit d)) (map hex_digit ds @ rest)"
    by (simp add: reads_get)
  from Cons.IH [OF _ r, of "cp + push_bit f d"] Cons.prems(1) obtain l' c' where
    "codepoint_loop fs (cp + push_bit f d) (lx_get l)
       = (Some (cp + push_bit f d + sum_list (map2 push_bit fs ds)), l')"
    "reads l' c' rest" "lx_buf l' = lx_buf l" by auto
  moreover have "hex_value (lx_current (lx_get l)) = Some d"
    using Cons.prems(1) by (simp add: reads_current [OF r] hex_value_digit)
  ultimately show ?case by (auto simp: Let_def add.assoc)
qed

lemma hex_digits_sum:
  assumes "n < 0x10000"
  shows "n div 4096 mod 16 * 4096 + n div 256 mod 16 * 256 + n div 16 mod 16 * 16 + n mod 16 = (n :: nat)"
proof -
  have sum: "q3 * 4096 + r2 * 256 + r1 * 16 + r0 = n"
    if "n = 16 * q1 + r0" "q1 = 16 * q2 + r1" "q2 = 16 * q3 + r2" for q1 q2 q3 r0 r1 r2
    using that by simp
  have "n div 4096 mod 16 = n div 4096" using assms by (simp add: less_mult_imp_div_less)
  moreover have "n div 4096 * 4096 + n div 256 mod 16 * 256 + n div 16 mod 16 * 16 + n mod 16 = n"
    by (rule sum [of "n div 16" _ "n div 256"])
      (simp, (rule trans [OF mult_div_mod_eq [symmetric, where b = 16]], simp add: div_mult2_eq [symmetric])+)
  ultimately show ?thesis by simp
qed

lemma get_codepoint_hex4:
  assumes "reads l c (hex4 n @ rest)" "n < 0x10000"
  obtains l' c' where "get_codepoint l = (Some n, l')" "reads l' c' rest" "lx_buf l' = lx_buf l"
proof -
  let ?ds = "[n div 4096 mod 16, n div 256 mod 16, n div 16 mod 16, n mod 16]"
  have "sum_list (map2 push_bit [12, 8, 4, 0] ?ds)
      = n div 4096 mod 16 * 4096 + n div 256 mod 16 * 256 + n div 16 mod 16 * 16 + n mod 16"
    by (simp add: push_bit_eq_mult)
  then have sum: "sum_list (map2 push_bit [12, 8, 4, 0] ?ds) = n" by (rule trans) (rule hex_digits_sum [OF assms(2)])
  have "reads l c (map hex_digit ?ds @ rest)" using assms(1) by (simp add: hex4_def)
  moreover have "length ?ds = length [12, 8, 4, 0 :: nat]" "\<forall>d \<in> set ?ds. d < 16" by simp_all
  ultimately obtain l' c' where
    "codepoint_loop [12, 8, 4, 0] 0 l = (Some (0 + sum_list (map2 push_bit [12, 8, 4, 0] ?ds)), l')"
    "reads l' c' rest" "lx_buf l' = lx_buf l"
    using codepoint_loop_digits by blast
  with that show thesis by (simp only: sum get_codepoint_def add_0)
qed

lemma scan_escape_simple:
  assumes "reads l c0 (e # rest)"
    and "(e, d) \<in> {(CHR ''b'', CHR 0x08), (CHR ''t'', CHR 0x09), (CHR ''n'', CHR 0x0A),
      (CHR ''f'', CHR 0x0C), (CHR ''r'', CHR 0x0D), (CHR 0x22, CHR 0x22), (CHR 0x5C, CHR 0x5C)}"
  shows "scan_escape l = (True, lx_add d (lx_get l))"
  by (insert assms(2), elim insertE emptyE; simp add: scan_escape_def reads_current [OF reads_get [OF assms(1)]])

lemma scan_escape_unicode:
  assumes "reads l c0 (CHR ''u'' # hex4 n @ rest)" "n < 0x80"
  obtains l' c' where "scan_escape l = (True, l')" "reads l' c' rest"
    "lx_buf l' = lx_buf l @ [char_of n]"
proof -
  have g: "reads (lx_get l) (Some (CHR ''u'')) (hex4 n @ rest)" by (rule reads_get [OF assms(1)])
  obtain l1 c1 where l1: "get_codepoint (lx_get l) = (Some n, l1)" "reads l1 c1 rest" "lx_buf l1 = lx_buf l"
    using get_codepoint_hex4 [OF g] assms(2) by auto
  have "scan_escape l = (True, lx_add_all [char_of n] l1)"
    using assms(2) by (simp add: scan_escape_def reads_current [OF g] scan_unicode_escape_def l1(1)
        codepoint_bytes_def)
  with that [of "lx_add_all [char_of n] l1"] l1 show thesis by simp
qed

text \<open>The escape of one ASCII character, read back.\<close>

lemma escape_byte_cases:
  assumes eb: "escape_byte c = escape_codepoint (of_char c) c"
  shows "(\<exists>e. escape_byte c = [CHR 0x5C, e] \<and> (e, c) \<in> {(CHR ''b'', CHR 0x08), (CHR ''t'', CHR 0x09), (CHR ''n'', CHR 0x0A),
      (CHR ''f'', CHR 0x0C), (CHR ''r'', CHR 0x0D), (CHR 0x22, CHR 0x22), (CHR 0x5C, CHR 0x5C)})
    \<or> escape_byte c = [CHR 0x5C, CHR ''u''] @ hex4 (of_char c)
    \<or> escape_byte c = [c] \<and> \<not> of_char c \<le> (0x1F :: nat) \<and> c \<noteq> CHR 0x22 \<and> c \<noteq> CHR 0x5C"
proof (cases "of_char c \<in> {0x08, 0x09, 0x0A, 0x0C, 0x0D, 0x22, 0x5C :: nat}")
  case True
  have eq: "c = d" if "of_char c = (of_char d :: nat)" for d
    using that by (simp add: of_char_eq_iff)
  have "c = CHR 0x08 \<or> c = CHR 0x09 \<or> c = CHR 0x0A \<or> c = CHR 0x0C \<or> c = CHR 0x0D \<or> c = CHR 0x22 \<or> c = CHR 0x5C"
    using True eq [of "CHR 0x08"] eq [of "CHR 0x09"] eq [of "CHR 0x0A"] eq [of "CHR 0x0C"]
      eq [of "CHR 0x0D"] eq [of "CHR 0x22"] eq [of "CHR 0x5C"] by (elim insertE emptyE) simp_all
  then show ?thesis
    by (intro disjI1, unfold eb) (elim disjE; simp add: escape_codepoint_def)
next
  case False
  then have "c \<noteq> CHR 0x22" "c \<noteq> CHR 0x5C" by auto
  with False show ?thesis by (simp add: eb escape_codepoint_def)
qed

lemma scan_escape_byte:
  assumes c: "of_char c < (0x80 :: nat)" and r: "reads l c0 (escape_byte c @ rest)"
  obtains l' c' where "scan_string_loop l = scan_string_loop l'" "reads l' c' rest"
    "lx_buf l' = lx_buf l @ [c]"
proof -
  note found = that
  have step: thesis if "escape_byte c = CHR 0x5C # e" "scan_escape (lx_get l) = (True, l')"
    "reads l' c' rest" "lx_buf l' = lx_buf (lx_get l) @ [c]" for e l' c'
    using that found [of l' c'] reads_get [of l c0 "CHR 0x5C" "e @ rest"] r
    by (simp add: scan_string_loop.simps [of l] reads_current)
  have eb: "escape_byte c = escape_codepoint (of_char c) c" using c by (simp add: escape_byte_def)
  from escape_byte_cases [OF eb] show thesis
  proof (elim disjE exE conjE, goal_cases)
    case (1 e)
    then have g: "reads (lx_get l) (Some (CHR 0x5C)) (e # rest)" using r by (intro reads_get) simp
    from step [OF 1(1) scan_escape_simple [OF g 1(2)]] reads_get [OF g] show thesis by simp
  next
    case 2
    then have g: "reads (lx_get l) (Some (CHR 0x5C)) (CHR ''u'' # hex4 (of_char c) @ rest)"
      using r by (intro reads_get) simp
    obtain l' c' where "scan_escape (lx_get l) = (True, l')" "reads l' c' rest"
      "lx_buf l' = lx_buf (lx_get l) @ [char_of (of_char c :: nat)]"
      by (rule scan_escape_unicode [OF g c])
    with step 2 show thesis by simp
  next
    case 3
    then have g: "reads (lx_get l) (Some c) rest" using r by (intro reads_get) simp
    with found [of "lx_add c (lx_get l)"] 3 c show thesis
      by (simp add: scan_string_loop.simps [of l] reads_current)
  qed
qed

text \<open>The bytes after a lead byte.\<close>

lemma byte_in_ranges_reads:
  "follow_ok rs cs \<Longrightarrow> reads l c (take (length rs) cs @ rest) \<Longrightarrow>
   \<exists>l'. byte_in_ranges rs l = (True, l') \<and> (\<exists>c'. reads l' c' rest)
     \<and> lx_buf l' = lx_buf l @ take (length rs) cs"
proof (induction rs cs arbitrary: l c rule: follow_ok.induct)
  case (1 cs)
  then show ?case by auto
next
  case (2 r rs)
  then show ?case by simp
next
  case (3 r rs d ds)
  obtain lo hi where r: "r = (lo, hi)" by force
  have g: "reads (lx_add d (lx_get l)) (Some d) (take (length rs) ds @ rest)"
    using 3(3) by (simp add: reads_get)
  from 3(1) [OF _ g] 3(2) obtain l' where
    "byte_in_ranges rs (lx_add d (lx_get l)) = (True, l')" "\<exists>c'. reads l' c' rest"
    "lx_buf l' = lx_buf l @ d # take (length rs) ds" by auto
  moreover have "lx_current (lx_get l) = Some d" using g by (simp add: reads_current)
  ultimately show ?case using 3(2) r by (simp add: Let_def)
qed

lemma escape_text_Cons: "escape_text (c # cs) = escape_byte c @ escape_text cs"
  by (simp add: escape_text_def)

lemma escape_text_split: "escape_text cs = escape_text (take n cs) @ escape_text (drop n cs)"
  by (metis append_take_drop_id concat_append escape_text_def map_append)

lemma scan_multibyte:
  assumes lead: "\<not> of_char c < (0x80 :: nat)" "utf8_follow (of_char c) = Some rs" "follow_ok rs cs"
    and r: "reads l c0 (c # take (length rs) cs @ rest)"
  obtains l' c' where "scan_string_loop l = scan_string_loop l'" "reads l' c' rest"
    "lx_buf l' = lx_buf l @ c # take (length rs) cs"
proof -
  have g: "reads (lx_get l) (Some c) (take (length rs) cs @ rest)" using r by (rule reads_get)
  then have "reads (lx_add c (lx_get l)) (Some c) (take (length rs) cs @ rest)" by simp
  from byte_in_ranges_reads [OF lead(3) this] obtain l' c' where l':
    "byte_in_ranges rs (lx_add c (lx_get l)) = (True, l')" "reads l' c' rest"
    "lx_buf l' = lx_buf l @ c # take (length rs) cs" by auto
  have ne: "c \<noteq> CHR 0x22" "c \<noteq> CHR 0x5C" using lead(1) by auto
  have big: "\<not> of_char c \<le> (0x1F :: nat)" "\<not> of_char c \<le> (0x7F :: nat)" using lead(1) by linarith+
  have "scan_string_loop l = scan_string_loop l'"
    using ne big lead(2) l'(1)
    by (simp add: scan_string_loop.simps [of l] reads_current [OF g] next_byte_in_range_def)
  with that l' show thesis by blast
qed

lemma scan_string_loop_text:
  "utf8_ok s \<Longrightarrow> reads l c (escape_text s @ CHR 0x22 # rest) \<Longrightarrow>
   \<exists>l'. scan_string_loop l = (TValueString, l') \<and> (\<exists>c'. reads l' c' rest) \<and> lx_buf l' = lx_buf l @ s"
proof (induction s arbitrary: l c rule: utf8_ok.induct)
  case 1
  then have "reads (lx_get l) (Some (CHR 0x22)) rest" by (simp add: escape_text_def reads_get)
  then show ?case by (auto simp: scan_string_loop.simps [of l] reads_current)
next
  case (2 d ds)
  show ?case
  proof (cases "of_char d < (0x80 :: nat)")
    case True
    have "reads l c (escape_byte d @ escape_text ds @ CHR 0x22 # rest)"
      using 2(4) by (simp add: escape_text_Cons)
    then obtain l' c' where "scan_string_loop l = scan_string_loop l'"
      "reads l' c' (escape_text ds @ CHR 0x22 # rest)" "lx_buf l' = lx_buf l @ [d]"
      by (rule scan_escape_byte [OF True])
    with 2(1) [OF True, of l' c'] 2(3) True show ?thesis by auto
  next
    case False
    with 2(3) obtain rs where rs: "utf8_follow (of_char d) = Some rs" "follow_ok rs ds"
      "utf8_ok (drop (length rs) ds)" by (auto split: option.splits)
    have "escape_text (d # ds) = d # take (length rs) ds @ escape_text (drop (length rs) ds)"
      using escape_byte_take [OF rs(2) utf8_follow_high [OF rs(1)]] escape_text_split [of ds "length rs"] False
      by (simp add: escape_text_Cons escape_byte_def)
    with 2(4) have "reads l c (d # take (length rs) ds @ escape_text (drop (length rs) ds) @ CHR 0x22 # rest)"
      by simp
    then obtain l' c' where "scan_string_loop l = scan_string_loop l'"
      "reads l' c' (escape_text (drop (length rs) ds) @ CHR 0x22 # rest)"
      "lx_buf l' = lx_buf l @ d # take (length rs) ds"
      by (rule scan_multibyte [OF False rs(1,2)])
    with 2(2) [OF False rs(1), of l' c'] rs(3) show ?thesis by auto
  qed
qed

lemma scan_string_text:
  assumes "lx_ok l" "dump_string s = Inr t" "pending l = t @ rest"
  obtains l' where "scan l = (TValueString, l')" "lx_buf l' = s" "lx_ok l'" "pending l' = rest"
proof -
  have u: "utf8_ok s" and t: "t = CHR 0x22 # escape_text s @ [CHR 0x22]"
    using assms(2) by (auto simp: dump_string_def dump_escaped_text split: if_splits)
  have ns: "\<not> is_space (CHR 0x22)" "CHR 0x22 \<noteq> CHR 0xEF" by (auto simp: is_space_def)
  obtain l1 where l1: "scan l = scan_token l1" "reads l1 (Some (CHR 0x22)) (escape_text s @ CHR 0x22 # rest)"
    by (rule scan_at [OF assms(1) _ ns]) (simp add: assms(3) t)
  have "reads (lx_reset l1) (Some (CHR 0x22)) (escape_text s @ CHR 0x22 # rest)" using l1(2) by simp
  from scan_string_loop_text [OF u this] obtain l' c' where
    "scan_string l1 = (TValueString, l')" "reads l' c' rest" "lx_buf l' = s"
    by (auto simp: scan_string_def)
  moreover have "scan_token l1 = scan_string l1"
    by (simp add: scan_token_def reads_current [OF l1(2)])
  ultimately show thesis using l1(1) reads_pending [of l' c' rest] by (intro that [of l']) simp_all
qed

end
