(* ===== verification/JsonRoundtrip.thy ===== *)
theory JsonRoundtrip
  imports JsonRead
begin

text \<open>
  \<open>json::parse\<close> of what \<open>dump\<close> wrote: every packet body and every pushed event goes through both.
  The value comes back up to the kind of its numbers: a \<open>number_integer\<close> that is not negative is read
  as \<open>number_unsigned\<close>, and an infinite or undefined double, written as \<open>null\<close>, as null.
\<close>

fun json_norm :: "json \<Rightarrow> json" where
  "json_norm (JInt n) = (if 0 \<le> sint n then JUInt n else JInt n)"
| "json_norm (JFloat x) = (if dbl_isfinite x then JFloat x else JNull)"
| "json_norm (JArray xs) = JArray (map json_norm xs)"
| "json_norm (JObject m) = JObject (map (\<lambda>(k, v). (k, json_norm v)) m)"
| "json_norm j = j"

text \<open>The doubles in the value have a text that reads back as the same double.\<close>

fun json_floats_ok :: "json \<Rightarrow> bool" where
  "json_floats_ok (JFloat x) = (dbl_isfinite x \<longrightarrow> float_text_ok x)"
| "json_floats_ok (JArray xs) = (\<forall>x \<in> set xs. json_floats_ok x)"
| "json_floats_ok (JObject m) = (\<forall>kv \<in> set m. json_floats_ok (snd kv))"
| "json_floats_ok j = True"

section \<open>Parsers before a text\<close>

definition before :: "parser \<Rightarrow> string \<Rightarrow> bool" where
  "before p s = (lx_ok (ps_lexer p) \<and> pending (ps_lexer p) = s)"

lemma before_with_dom [simp]: "before (with_dom f p) s = before p s"
  by (simp add: before_def)

lemma get_token_scan: "scan (ps_lexer p) = (t, l) \<Longrightarrow> get_token p = p\<lparr>ps_lexer := l, ps_last := t\<rparr>"
  by (simp add: get_token_def)

lemma get_structural:
  assumes "before p (c # rest)"
    and "(c, t) \<in> {(CHR ''['', TBeginArray), (CHR '']'', TEndArray), (CHR ''{'', TBeginObject),
                    (CHR ''}'', TEndObject), (CHR '':'', TNameSeparator), (CHR '','', TValueSeparator)}"
  shows "ps_last (get_token p) = t \<and> ps_dom (get_token p) = ps_dom p \<and> before (get_token p) rest"
proof -
  obtain l where l: "scan (ps_lexer p) = (t, l)" "lx_ok l" "pending l = rest"
    by (rule scan_structural [of "ps_lexer p" c rest t]) (use assms in \<open>auto simp: before_def\<close>)
  then show ?thesis by (simp add: get_token_scan [OF l(1)] before_def)
qed

lemma get_string:
  assumes "before p (t @ rest)" "dump_string s = Inr t"
  shows "ps_last (get_token p) = TValueString \<and> lx_buf (ps_lexer (get_token p)) = s
      \<and> ps_dom (get_token p) = ps_dom p \<and> before (get_token p) rest"
proof -
  obtain l where l: "scan (ps_lexer p) = (TValueString, l)" "lx_buf l = s" "lx_ok l" "pending l = rest"
    by (rule scan_string_text [of "ps_lexer p" s t rest]) (use assms in \<open>simp_all add: before_def\<close>)
  then show ?thesis by (simp add: get_token_scan [OF l(1)] before_def)
qed

text \<open>After a value the parser evaluates its state, whether or not it has to skip to it.\<close>

lemma parse_leaf:
  assumes "parse_value states p = Inr (Evaluate, states', p')"
  shows "sax_parse_internal False states p = sax_parse_internal True states' p'"
  using assms
  by (simp add: sax_parse_internal.simps [of False states p] sax_parse_internal.simps [of True states' p']
      parse_round_def)

lemma parse_continue:
  assumes "parse_value states p = Inr (Continue, states', p')"
  shows "sax_parse_internal False states p = sax_parse_internal False states' p'"
  using assms by (simp add: sax_parse_internal.simps [of False states p] parse_round_def)

lemma parse_state:
  assumes "eval_state states p = Inr (Some (skip, states', p'))"
  shows "sax_parse_internal True states p = sax_parse_internal skip states' p'"
  using assms by (simp add: sax_parse_internal.simps [of True states p] parse_round_def)

lemma parse_done: "sax_parse_internal True [] p = Inr p"
  by (simp add: sax_parse_internal.simps [of True "[]" p] parse_round_def eval_state_def)

section \<open>A value\<close>

text \<open>The parser has read the value, which does not start like the end of an array, and put it into
  the DOM; what is left is \<open>rest\<close>.\<close>

definition took :: "json \<Rightarrow> string \<Rightarrow> bool list \<Rightarrow> parser \<Rightarrow> parser \<Rightarrow> bool" where
  "took v rest states p p' =
     (sax_parse_internal False states (get_token p) = sax_parse_internal True states p'
      \<and> ps_dom p' = dom_value v (ps_dom p) \<and> before p' rest \<and> ps_last (get_token p) \<noteq> TEndArray)"

lemma took_leaf:
  assumes "scan (ps_lexer p) = (t, l)" "lx_ok l" "pending l = rest"
    and "parse_value states (get_token p) = Inr (Evaluate, states, with_dom (dom_value v) (get_token p))"
  shows "\<exists>p'. took v rest states p p'"
proof -
  have "ps_last (get_token p) \<noteq> TEndArray" using assms(4) by (intro notI) (simp add: parse_value_def)
  with parse_leaf [OF assms(4)] assms(2,3) show ?thesis
    by (intro exI [of _ "with_dom (dom_value v) (get_token p)"])
      (simp add: took_def before_def get_token_scan [OF assms(1)])
qed

lemma took_literal:
  assumes "before p (s @ rest)"
    and "(s, t, v) \<in> {(''true'', TLiteralTrue, JBool True), (''false'', TLiteralFalse, JBool False),
      (''null'', TLiteralNull, JNull)}"
  shows "\<exists>p'. took v rest states p p'"
proof -
  obtain l where l: "scan (ps_lexer p) = (t, l)" "lx_ok l" "pending l = rest"
    by (rule scan_literals [of "ps_lexer p" s rest t]) (use assms in \<open>auto simp: before_def\<close>)
  have "parse_value states (get_token p) = Inr (Evaluate, states, with_dom (dom_value v) (get_token p))"
    by (insert assms(2), elim insertE emptyE; simp add: parse_value_def get_token_scan [OF l(1)])
  from took_leaf [OF l this] show ?thesis .
qed

lemma took_string:
  assumes "before p (t @ rest)" "dump_string s = Inr t"
  shows "\<exists>p'. took (JString s) rest states p p'"
proof -
  obtain l where l: "scan (ps_lexer p) = (TValueString, l)" "lx_buf l = s" "lx_ok l" "pending l = rest"
    by (rule scan_string_text [of "ps_lexer p" s t rest]) (use assms in \<open>simp_all add: before_def\<close>)
  then show ?thesis
    by (intro took_leaf [OF l(1,3,4)]) (simp add: parse_value_def get_token_scan [OF l(1)])
qed

lemma took_unsigned:
  assumes "before p (nat_to_dec (unat x) @ rest)" "ends rest"
  shows "\<exists>p'. took (JUInt x) rest states p p'"
proof -
  obtain l where l: "scan (ps_lexer p) = (TValueUnsigned, l)" "lx_unsigned l = x" "lx_ok l" "pending l = rest"
    by (rule scan_unsigned [of "ps_lexer p" x rest]) (use assms in \<open>simp_all add: before_def\<close>)
  then show ?thesis
    by (intro took_leaf [OF l(1,3,4)]) (simp add: parse_value_def get_token_scan [OF l(1)])
qed

lemma took_int:
  assumes "before p (dump_int x @ rest)" "ends rest"
  shows "\<exists>p'. took (json_norm (JInt x)) rest states p p'"
proof (cases "0 \<le> sint x")
  case True
  then have "dump_int x = nat_to_dec (unat x)"
    by (simp add: dump_int_text to_string_def sint_nonneg_unat)
  with took_unsigned assms True show ?thesis by simp
next
  case False
  then have neg: "sint x < 0" by simp
  obtain l where l: "scan (ps_lexer p) = (TValueInteger, l)" "lx_integer l = x" "lx_ok l" "pending l = rest"
    by (rule scan_negative [of "ps_lexer p" x rest])
      (use assms neg in \<open>simp_all add: before_def dump_int_text\<close>)
  then have "\<exists>p'. took (JInt x) rest states p p'"
    by (intro took_leaf [OF l(1,3,4)]) (simp add: parse_value_def get_token_scan [OF l(1)])
  with neg show ?thesis by simp
qed

lemma took_float:
  assumes "before p (dump_float x @ rest)" "ends rest" "json_floats_ok (JFloat x)"
  shows "\<exists>p'. took (json_norm (JFloat x)) rest states p p'"
proof (cases "dbl_isfinite x")
  case True
  have b: "lx_ok (ps_lexer p)" "pending (ps_lexer p) = to_chars x @ rest"
    using assms(1) True by (simp_all add: before_def dump_float_def)
  have ok: "float_text_ok x" using assms(3) True by simp
  obtain l where l: "scan (ps_lexer p) = (TValueFloat, l)" "lx_float l = x" "lx_ok l" "pending l = rest"
    by (rule scan_float [OF b assms(2) ok])
  then have "\<exists>p'. took (JFloat x) rest states p p'"
    using True by (intro took_leaf [OF l(1,3,4)]) (simp add: parse_value_def get_token_scan [OF l(1)])
  with True show ?thesis by simp
next
  case False
  with assms(1) have b: "before p (''null'' @ rest)" by (simp add: dump_float_def)
  from took_literal [OF b, of TLiteralNull JNull] False show ?thesis by simp
qed

section \<open>Elements and members\<close>

text \<open>The rest of an array or object, from the first token of an element or of a key.\<close>

definition took_elems :: "json list \<Rightarrow> string \<Rightarrow> bool list \<Rightarrow> parser \<Rightarrow> json list \<Rightarrow> frame list \<Rightarrow> parser \<Rightarrow> bool" where
  "took_elems vs rest states p ys fs p' =
     (sax_parse_internal False (True # states) (get_token p) = sax_parse_internal True states p'
      \<and> ps_dom p' = dom_value (JArray (ys @ vs)) ((ps_dom p)\<lparr>dom_stack := fs\<rparr>) \<and> before p' rest)"

definition took_members ::
    "(string \<times> json) list \<Rightarrow> string \<Rightarrow> bool list \<Rightarrow> parser \<Rightarrow> (string \<times> json) list \<Rightarrow> frame list \<Rightarrow> parser \<Rightarrow> bool" where
  "took_members kvs rest states p ys fs p' =
     (rbind (parse_key (get_token p)) (sax_parse_internal False (False # states))
        = sax_parse_internal True states p'
      \<and> ps_dom p' = dom_value (JObject (ys @ kvs)) ((ps_dom p)\<lparr>dom_stack := fs\<rparr>) \<and> before p' rest)"

lemma took_array_empty:
  assumes "before p (''[]'' @ rest)"
  shows "\<exists>p'. took (JArray []) rest states p p'"
proof -
  let ?q = "with_dom dom_start_array (get_token p)"
  have b: "before p (CHR ''['' # CHR '']'' # rest)" using assms by simp
  have 1: "ps_last (get_token p) = TBeginArray \<and> ps_dom (get_token p) = ps_dom p
      \<and> before (get_token p) (CHR '']'' # rest)" by (rule get_structural [OF b]) simp
  then have q: "before ?q (CHR '']'' # rest)" by simp
  have 2: "ps_last (get_token ?q) = TEndArray \<and> ps_dom (get_token ?q) = ps_dom ?q \<and> before (get_token ?q) rest"
    by (rule get_structural [OF q]) simp
  have "parse_value states (get_token p) = Inr (Evaluate, states, with_dom dom_end (get_token ?q))"
    using 1 2 by (simp add: parse_value_def Let_def)
  from parse_leaf [OF this] 1 2 show ?thesis
    by (intro exI [of _ "with_dom dom_end (get_token ?q)"])
      (simp add: took_def dom_end_def dom_start_array_def)
qed

lemma took_array:
  assumes "before p (CHR ''['' # t @ CHR '']'' # rest)"
    and elems: "\<And>q ys fs. before q (t @ CHR '']'' # rest) \<Longrightarrow> dom_stack (ps_dom q) = ArrFrame ys # fs \<Longrightarrow>
      ps_last (get_token q) \<noteq> TEndArray \<and> (\<exists>p'. took_elems vs rest states q ys fs p')"
  shows "\<exists>p'. took (JArray vs) rest states p p'"
proof -
  let ?q = "with_dom dom_start_array (get_token p)"
  have 1: "ps_last (get_token p) = TBeginArray \<and> ps_dom (get_token p) = ps_dom p
      \<and> before (get_token p) (t @ CHR '']'' # rest)" by (rule get_structural [OF assms(1)]) simp
  then have q: "before ?q (t @ CHR '']'' # rest)" "dom_stack (ps_dom ?q) = ArrFrame [] # dom_stack (ps_dom p)"
    by (simp_all add: dom_start_array_def)
  from elems [OF q] obtain p' where ne: "ps_last (get_token ?q) \<noteq> TEndArray"
    and p': "took_elems vs rest states ?q [] (dom_stack (ps_dom p)) p'" by blast
  have "parse_value states (get_token p) = Inr (Continue, True # states, get_token ?q)"
    using 1 ne by (simp add: parse_value_def Let_def)
  from parse_continue [OF this] p' 1 show ?thesis
    by (intro exI [of _ p']) (simp add: took_def took_elems_def dom_start_array_def)
qed

lemma took_object_empty:
  assumes "before p (''{}'' @ rest)"
  shows "\<exists>p'. took (JObject []) rest states p p'"
proof -
  let ?q = "with_dom dom_start_object (get_token p)"
  have b: "before p (CHR ''{'' # CHR ''}'' # rest)" using assms by simp
  have 1: "ps_last (get_token p) = TBeginObject \<and> ps_dom (get_token p) = ps_dom p
      \<and> before (get_token p) (CHR ''}'' # rest)" by (rule get_structural [OF b]) simp
  then have q: "before ?q (CHR ''}'' # rest)" by simp
  have 2: "ps_last (get_token ?q) = TEndObject \<and> ps_dom (get_token ?q) = ps_dom ?q \<and> before (get_token ?q) rest"
    by (rule get_structural [OF q]) simp
  have "parse_value states (get_token p) = Inr (Evaluate, states, with_dom dom_end (get_token ?q))"
    using 1 2 by (simp add: parse_value_def Let_def)
  from parse_leaf [OF this] 1 2 show ?thesis
    by (intro exI [of _ "with_dom dom_end (get_token ?q)"])
      (simp add: took_def dom_end_def dom_start_object_def)
qed

lemma took_object:
  assumes "before p (CHR ''{'' # t @ CHR ''}'' # rest)"
    and members: "\<And>q k0 fs. before q (t @ CHR ''}'' # rest) \<Longrightarrow> dom_stack (ps_dom q) = ObjFrame [] k0 # fs \<Longrightarrow>
      ps_last (get_token q) = TValueString \<and> (\<exists>p'. took_members kvs rest states q [] fs p')"
  shows "\<exists>p'. took (JObject kvs) rest states p p'"
proof -
  let ?q = "with_dom dom_start_object (get_token p)"
  have 1: "ps_last (get_token p) = TBeginObject \<and> ps_dom (get_token p) = ps_dom p
      \<and> before (get_token p) (t @ CHR ''}'' # rest)" by (rule get_structural [OF assms(1)]) simp
  then have q: "before ?q (t @ CHR ''}'' # rest)" "dom_stack (ps_dom ?q) = ObjFrame [] [] # dom_stack (ps_dom p)"
    by (simp_all add: dom_start_object_def)
  from members [OF q] obtain p' where str: "ps_last (get_token ?q) = TValueString"
    and p': "took_members kvs rest states ?q [] (dom_stack (ps_dom p)) p'" by blast
  have v: "parse_value states (get_token p)
      = rbind (parse_key (get_token ?q)) (\<lambda>p2. Inr (Continue, False # states, p2))"
    using 1 str by (simp add: parse_value_def Let_def)
  have "sax_parse_internal False states (get_token p)
      = rbind (parse_key (get_token ?q)) (sax_parse_internal False (False # states))"
  proof (cases "parse_key (get_token ?q)")
    case (Inl e)
    with v show ?thesis by (simp add: sax_parse_internal.simps [of False states "get_token p"] parse_round_def)
  next
    case (Inr p2)
    with v have "parse_value states (get_token p) = Inr (Continue, False # states, p2)" by simp
    from parse_continue [OF this] Inr show ?thesis by simp
  qed
  with p' 1 show ?thesis
    by (intro exI [of _ p']) (simp add: took_def took_members_def dom_start_object_def)
qed

lemma took_last_elem:
  assumes "took v (CHR '']'' # rest) (True # states) q p1" "dom_stack (ps_dom q) = ArrFrame ys # fs"
  shows "\<exists>p'. took_elems [v] rest states q ys fs p'"
proof -
  have b: "before p1 (CHR '']'' # rest)" and d: "ps_dom p1 = dom_value v (ps_dom q)"
    using assms(1) by (simp_all add: took_def)
  have g: "ps_last (get_token p1) = TEndArray \<and> ps_dom (get_token p1) = ps_dom p1 \<and> before (get_token p1) rest"
    by (rule get_structural [OF b]) simp
  then have "eval_state (True # states) p1 = Inr (Some (True, states, with_dom dom_end (get_token p1)))"
    by (simp add: eval_state_def)
  from parse_state [OF this] assms g d show ?thesis
    by (intro exI [of _ "with_dom dom_end (get_token p1)"])
      (simp add: took_def took_elems_def dom_end_def dom_value_def)
qed

lemma took_more_elems:
  assumes "took v (CHR '','' # t) (True # states) q p1" "dom_stack (ps_dom q) = ArrFrame ys # fs"
    and more: "\<And>q. before q t \<Longrightarrow> dom_stack (ps_dom q) = ArrFrame (ys @ [v]) # fs \<Longrightarrow>
      \<exists>p'. took_elems vs rest states q (ys @ [v]) fs p'"
  shows "\<exists>p'. took_elems (v # vs) rest states q ys fs p'"
proof -
  let ?q = "get_token p1"
  have b: "before p1 (CHR '','' # t)" and d: "ps_dom p1 = dom_value v (ps_dom q)"
    using assms(1) by (simp_all add: took_def)
  have g: "ps_last ?q = TValueSeparator \<and> ps_dom ?q = ps_dom p1 \<and> before ?q t"
    by (rule get_structural [OF b]) simp
  then have ev: "eval_state (True # states) p1 = Inr (Some (False, True # states, get_token ?q))"
    by (simp add: eval_state_def)
  from g d assms(2) have "dom_stack (ps_dom ?q) = ArrFrame (ys @ [v]) # fs" by (simp add: dom_value_def)
  with more g obtain p' where "took_elems vs rest states ?q (ys @ [v]) fs p'" by blast
  with parse_state [OF ev] assms(1,2) g d show ?thesis
    by (intro exI [of _ p']) (simp add: took_def took_elems_def dom_value_def)
qed

lemma get_key:
  assumes "before q (k @ CHR '':'' # t)" "dump_string s = Inr k" "dom_stack (ps_dom q) = ObjFrame ys k0 # fs"
  obtains p1 where "parse_key (get_token q) = Inr (get_token p1)" "before p1 t"
    "ps_dom p1 = dom_key s (ps_dom q)" "ps_last (get_token q) = TValueString"
proof -
  have 1: "ps_last (get_token q) = TValueString \<and> lx_buf (ps_lexer (get_token q)) = s
      \<and> ps_dom (get_token q) = ps_dom q \<and> before (get_token q) (CHR '':'' # t)"
    by (rule get_string [OF assms(1,2)])
  let ?q = "with_dom (dom_key s) (get_token q)"
  have b: "before ?q (CHR '':'' # t)" using 1 by simp
  have "ps_last (get_token ?q) = TNameSeparator \<and> ps_dom (get_token ?q) = ps_dom ?q \<and> before (get_token ?q) t"
    by (rule get_structural [OF b]) simp
  with 1 show thesis by (intro that [of "get_token ?q"]) (simp_all add: parse_key_def Let_def)
qed

text \<open>The keys ascend, so each member goes to the end of the object.\<close>

lemma om_last: "\<forall>kv \<in> set m. fst kv < k \<Longrightarrow> om_assign k v m = m @ [(k, v)]"
  by (induction m) auto

lemma om_last_again: "\<forall>kv \<in> set m. fst kv < k \<Longrightarrow> om_assign k v (m @ [(k, u)]) = m @ [(k, v)]"
  by (induction m) auto

lemma om_find_last: "\<forall>kv \<in> set m. fst kv < k \<Longrightarrow> om_find k m = None"
  by (induction m) auto

lemma dom_member:
  assumes "dom_stack d = ObjFrame ys k0 # fs" "\<forall>kv \<in> set ys. fst kv < k"
  shows "dom_value v (dom_key k d) = d\<lparr>dom_stack := ObjFrame (ys @ [(k, v)]) k # fs\<rparr>"
  using assms by (simp add: dom_key_def dom_value_def om_emplace_def om_find_last om_last om_last_again)

lemma took_last_member:
  assumes key: "before q (k @ CHR '':'' # t)" "dump_string s = Inr k" "dom_stack (ps_dom q) = ObjFrame ys k0 # fs"
    "\<forall>kv \<in> set ys. fst kv < s"
    and v: "\<And>p. before p t \<Longrightarrow> \<exists>p'. took v (CHR ''}'' # rest) (False # states) p p'"
  shows "ps_last (get_token q) = TValueString \<and> (\<exists>p'. took_members [(s, v)] rest states q ys fs p')"
proof -
  obtain p1 where p1: "parse_key (get_token q) = Inr (get_token p1)" "before p1 t"
    "ps_dom p1 = dom_key s (ps_dom q)" "ps_last (get_token q) = TValueString"
    by (rule get_key [OF key(1-3)])
  from v [OF p1(2)] obtain p2 where p2: "took v (CHR ''}'' # rest) (False # states) p1 p2" ..
  then have b: "before p2 (CHR ''}'' # rest)"
    and d: "ps_dom p2 = (ps_dom q)\<lparr>dom_stack := ObjFrame (ys @ [(s, v)]) s # fs\<rparr>"
    using dom_member [OF key(3,4)] p1(3) by (simp_all add: took_def)
  have sax: "sax_parse_internal False (False # states) (get_token p1) = sax_parse_internal True (False # states) p2"
    using p2 by (simp add: took_def)
  have g: "ps_last (get_token p2) = TEndObject \<and> ps_dom (get_token p2) = ps_dom p2 \<and> before (get_token p2) rest"
    by (rule get_structural [OF b]) simp
  then have "eval_state (False # states) p2 = Inr (Some (True, states, with_dom dom_end (get_token p2)))"
    by (simp add: eval_state_def)
  from parse_state [OF this] p1(1,4) sax g d show ?thesis
    by (intro conjI exI [of _ "with_dom dom_end (get_token p2)"])
      (simp_all add: took_members_def dom_end_def)
qed

lemma took_more_members:
  assumes key: "before q (k @ CHR '':'' # t @ CHR '','' # t')" "dump_string s = Inr k"
      "dom_stack (ps_dom q) = ObjFrame ys k0 # fs" "\<forall>kv \<in> set ys. fst kv < s"
    and v: "\<And>p. before p (t @ CHR '','' # t') \<Longrightarrow> \<exists>p'. took v (CHR '','' # t') (False # states) p p'"
    and more: "\<And>q k0. before q t' \<Longrightarrow> dom_stack (ps_dom q) = ObjFrame (ys @ [(s, v)]) k0 # fs \<Longrightarrow>
      \<exists>p'. took_members kvs rest states q (ys @ [(s, v)]) fs p'"
  shows "ps_last (get_token q) = TValueString \<and> (\<exists>p'. took_members ((s, v) # kvs) rest states q ys fs p')"
proof -
  obtain p1 where p1: "parse_key (get_token q) = Inr (get_token p1)" "before p1 (t @ CHR '','' # t')"
    "ps_dom p1 = dom_key s (ps_dom q)" "ps_last (get_token q) = TValueString"
    by (rule get_key [OF key(1-3)])
  from v [OF p1(2)] obtain p2 where p2: "took v (CHR '','' # t') (False # states) p1 p2" ..
  then have b: "before p2 (CHR '','' # t')"
    and d: "ps_dom p2 = (ps_dom q)\<lparr>dom_stack := ObjFrame (ys @ [(s, v)]) s # fs\<rparr>"
    using dom_member [OF key(3,4)] p1(3) by (simp_all add: took_def)
  have sax: "sax_parse_internal False (False # states) (get_token p1) = sax_parse_internal True (False # states) p2"
    using p2 by (simp add: took_def)
  let ?q = "get_token p2"
  have g: "ps_last ?q = TValueSeparator \<and> ps_dom ?q = ps_dom p2 \<and> before ?q t'"
    by (rule get_structural [OF b]) simp
  with d have "dom_stack (ps_dom ?q) = ObjFrame (ys @ [(s, v)]) s # fs" by simp
  with more g obtain p' where p': "took_members kvs rest states ?q (ys @ [(s, v)]) fs p'" by blast
  have "eval_state (False # states) p2
      = rbind (parse_key (get_token ?q)) (\<lambda>r. Inr (Some (False, False # states, r)))"
    using g by (simp add: eval_state_def)
  then have "sax_parse_internal True (False # states) p2
      = rbind (parse_key (get_token ?q)) (sax_parse_internal False (False # states))"
    by (cases "parse_key (get_token ?q)")
      (simp_all add: sax_parse_internal.simps [of True "False # states" p2] parse_round_def)
  with p1(1,4) sax p' g d show ?thesis
    by (intro conjI exI [of _ p']) (simp_all add: took_members_def)
qed

section \<open>The round trip\<close>

lemma ends_structural: "ends (CHR '','' # s)" "ends (CHR '']'' # s)" "ends (CHR ''}'' # s)" "ends []"
  by (simp_all add: ends_def)

definition members_above :: "(string \<times> json) list \<Rightarrow> (string \<times> json) list \<Rightarrow> bool" where
  "members_above ys m = (\<forall>kv \<in> set ys. \<forall>kv' \<in> set m. fst kv < fst kv')"

lemma members_above_snoc:
  "om_wf ((k, v) # m) \<Longrightarrow> members_above ys ((k, v) # m) \<Longrightarrow> members_above (ys @ [(k, w)]) m"
  by (auto simp: members_above_def om_wf_Cons)

text \<open>The cases of the round trip: what is shown of the parts carries over to the whole.\<close>

lemma took_array_dump:
  assumes "json_dump (JArray xs) = Inr t" "before p (t @ rest)"
    and elems: "\<And>u q ys fs. xs \<noteq> [] \<Longrightarrow> dump_elems xs = Inr u \<Longrightarrow> before q (u @ CHR '']'' # rest) \<Longrightarrow>
      dom_stack (ps_dom q) = ArrFrame ys # fs \<Longrightarrow>
      ps_last (get_token q) \<noteq> TEndArray \<and> (\<exists>p'. took_elems (map json_norm xs) rest states q ys fs p')"
  shows "\<exists>p'. took (json_norm (JArray xs)) rest states p p'"
proof (cases "xs = []")
  case True
  with assms(1,2) show ?thesis using took_array_empty by simp
next
  case False
  with assms(1) obtain u where u: "dump_elems xs = Inr u" "t = CHR ''['' # u @ '']''"
    by (auto simp: rbind_Inr_iff)
  have b: "before p (CHR ''['' # u @ CHR '']'' # rest)" using assms(2) u by simp
  have "\<exists>p'. took (JArray (map json_norm xs)) rest states p p'"
    by (rule took_array [OF b]) (rule elems [OF False u(1)])
  then show ?thesis by simp
qed

lemma took_object_dump:
  assumes "json_dump (JObject m) = Inr t" "before p (t @ rest)"
    and members: "\<And>u q k0 fs. m \<noteq> [] \<Longrightarrow> members_above [] m \<Longrightarrow> dump_members m = Inr u \<Longrightarrow>
      before q (u @ CHR ''}'' # rest) \<Longrightarrow> dom_stack (ps_dom q) = ObjFrame [] k0 # fs \<Longrightarrow>
      ps_last (get_token q) = TValueString
        \<and> (\<exists>p'. took_members (map (\<lambda>(k, v). (k, json_norm v)) m) rest states q [] fs p')"
  shows "\<exists>p'. took (json_norm (JObject m)) rest states p p'"
proof (cases "m = []")
  case True
  with assms(1,2) show ?thesis using took_object_empty by simp
next
  case False
  with assms(1) obtain u where u: "dump_members m = Inr u" "t = CHR ''{'' # u @ ''}''"
    by (auto simp: rbind_Inr_iff)
  have b: "before p (CHR ''{'' # u @ CHR ''}'' # rest)" using assms(2) u by simp
  have a: "members_above [] m" by (simp add: members_above_def)
  have "\<exists>p'. took (JObject (map (\<lambda>(k, v). (k, json_norm v)) m)) rest states p p'"
    by (rule took_object [OF b]) (rule members [OF False a u(1)])
  then show ?thesis by simp
qed

lemma took_elem_dump:
  assumes "dump_elems (x # xs) = Inr t" "before p (t @ CHR '']'' # rest)" "dom_stack (ps_dom p) = ArrFrame ys # fs"
    and elem: "\<And>tx r. json_dump x = Inr tx \<Longrightarrow> before p (tx @ r) \<Longrightarrow> ends r \<Longrightarrow>
      \<exists>p'. took (json_norm x) r (True # states) p p'"
    and elems: "\<And>u q ys fs. xs \<noteq> [] \<Longrightarrow> dump_elems xs = Inr u \<Longrightarrow> before q (u @ CHR '']'' # rest) \<Longrightarrow>
      dom_stack (ps_dom q) = ArrFrame ys # fs \<Longrightarrow> \<exists>p'. took_elems (map json_norm xs) rest states q ys fs p'"
  shows "ps_last (get_token p) \<noteq> TEndArray \<and> (\<exists>p'. took_elems (map json_norm (x # xs)) rest states p ys fs p')"
proof -
  from assms(1) obtain tx where tx: "json_dump x = Inr tx" by (auto simp: rbind_Inr_iff)
  have last: "ps_last (get_token p) \<noteq> TEndArray" if "\<exists>p1. took v r st p p1" for v r st
    using that by (auto simp: took_def)
  show ?thesis
  proof (cases "xs = []")
    case True
    with assms(1,2) tx have b: "before p (tx @ CHR '']'' # rest)" by simp
    obtain p1 where p1: "took (json_norm x) (CHR '']'' # rest) (True # states) p p1"
      using elem [OF tx b] ends_structural by blast
    with took_last_elem [OF p1 assms(3)] last True show ?thesis by auto
  next
    case False
    with assms(1) tx obtain u where u: "dump_elems xs = Inr u" "t = tx @ CHR '','' # u"
      by (auto simp: rbind_Inr_iff)
    with assms(2) have b: "before p (tx @ CHR '','' # u @ CHR '']'' # rest)" by simp
    obtain p1 where p1: "took (json_norm x) (CHR '','' # u @ CHR '']'' # rest) (True # states) p p1"
      using elem [OF tx b] ends_structural by blast
    have "\<exists>p'. took_elems (json_norm x # map json_norm xs) rest states p ys fs p'"
      by (rule took_more_elems [OF p1 assms(3)]) (rule elems [OF False u(1)])
    with last p1 show ?thesis by auto
  qed
qed

lemma took_member_dump:
  assumes "dump_members ((k, v) # m) = Inr t" "before p (t @ CHR ''}'' # rest)"
      "dom_stack (ps_dom p) = ObjFrame ms k0 # fs" "om_wf ((k, v) # m)" "members_above ms ((k, v) # m)"
    and val: "\<And>tv p r. json_dump v = Inr tv \<Longrightarrow> before p (tv @ r) \<Longrightarrow> ends r \<Longrightarrow>
      \<exists>p'. took (json_norm v) r (False # states) p p'"
    and members: "\<And>u q k1. m \<noteq> [] \<Longrightarrow> members_above (ms @ [(k, json_norm v)]) m \<Longrightarrow> dump_members m = Inr u \<Longrightarrow>
      before q (u @ CHR ''}'' # rest) \<Longrightarrow> dom_stack (ps_dom q) = ObjFrame (ms @ [(k, json_norm v)]) k1 # fs \<Longrightarrow>
      \<exists>p'. took_members (map (\<lambda>(k, v). (k, json_norm v)) m) rest states q (ms @ [(k, json_norm v)]) fs p'"
  shows "ps_last (get_token p) = TValueString
    \<and> (\<exists>p'. took_members (map (\<lambda>(k, v). (k, json_norm v)) ((k, v) # m)) rest states p ms fs p')"
proof -
  from assms(1) obtain tk tv where tk: "dump_string k = Inr tk" and tv: "json_dump v = Inr tv"
    by (auto simp: rbind_Inr_iff)
  have above: "\<forall>kv \<in> set ms. fst kv < k" using assms(5) by (simp add: members_above_def)
  note v = val [OF tv]
  show ?thesis
  proof (cases "m = []")
    case True
    with assms(1,2) tk tv have b: "before p (tk @ CHR '':'' # tv @ CHR ''}'' # rest)" by auto
    from took_last_member [OF b tk assms(3) above, of "json_norm v" rest states] v ends_structural True
    show ?thesis by simp
  next
    case False
    with assms(1) tk tv obtain u where u: "dump_members m = Inr u" "t = tk @ CHR '':'' # tv @ CHR '','' # u"
      by (auto simp: rbind_Inr_iff)
    with assms(2) have b: "before p (tk @ CHR '':'' # tv @ CHR '','' # u @ CHR ''}'' # rest)" by simp
    note more = members [OF False members_above_snoc [OF assms(4,5)] u(1)]
    from took_more_members [OF b tk assms(3) above v more] ends_structural show ?thesis by simp
  qed
qed

lemma took_dump:
  "json_wf j \<Longrightarrow> json_floats_ok j \<Longrightarrow> json_dump j = Inr t \<Longrightarrow> before p (t @ rest) \<Longrightarrow> ends rest \<Longrightarrow>
   \<exists>p'. took (json_norm j) rest states p p'"
  and took_dump_elems:
  "\<forall>x \<in> set xs. json_wf x \<Longrightarrow> \<forall>x \<in> set xs. json_floats_ok x \<Longrightarrow> xs \<noteq> [] \<Longrightarrow> dump_elems xs = Inr t \<Longrightarrow>
   before p (t @ CHR '']'' # rest) \<Longrightarrow> dom_stack (ps_dom p) = ArrFrame ys # fs \<Longrightarrow>
   ps_last (get_token p) \<noteq> TEndArray \<and> (\<exists>p'. took_elems (map json_norm xs) rest states p ys fs p')"
  and took_dump_members:
  "om_wf m \<Longrightarrow> \<forall>kv \<in> set m. json_wf (snd kv) \<Longrightarrow> \<forall>kv \<in> set m. json_floats_ok (snd kv) \<Longrightarrow> m \<noteq> [] \<Longrightarrow>
   members_above ms m \<Longrightarrow> dump_members m = Inr t \<Longrightarrow>
   before p (t @ CHR ''}'' # rest) \<Longrightarrow> dom_stack (ps_dom p) = ObjFrame ms k0 # fs \<Longrightarrow>
   ps_last (get_token p) = TValueString
     \<and> (\<exists>p'. took_members (map (\<lambda>(k, v). (k, json_norm v)) m) rest states p ms fs p')"
proof (induction j and xs and m arbitrary: t p rest states and t p rest states ys fs and t p rest states ms k0 fs
    rule: json_dump_dump_elems_dump_members.induct)
  case 1
  then show ?case using took_literal [of p "''null''" rest TLiteralNull JNull] by simp
next
  case (2 b)
  then show ?case using took_literal [of p "''true''" rest TLiteralTrue "JBool True"]
      took_literal [of p "''false''" rest TLiteralFalse "JBool False"] by (cases b) simp_all
next
  case (3 s)
  then show ?case by (simp add: took_string)
next
  case (4 n)
  then show ?case using took_int by simp
next
  case (5 n)
  then show ?case using took_unsigned by (simp add: dump_uint_text)
next
  case (6 x)
  then show ?case using took_float by simp
next
  case (7 xs)
  have wf: "\<forall>x \<in> set xs. json_wf x" "\<forall>x \<in> set xs. json_floats_ok x" using 7(2,3) by simp_all
  show ?case by (rule took_array_dump [OF 7(4,5)]) (rule 7(1) [OF _ wf])
next
  case (8 m)
  have wf: "om_wf m" "\<forall>kv \<in> set m. json_wf (snd kv)" "\<forall>kv \<in> set m. json_floats_ok (snd kv)"
    using 8(2,3) by simp_all
  show ?case by (rule took_object_dump [OF 8(4,5)]) (rule 8(1) [OF _ wf])
next
  case 9
  then show ?case by simp
next
  case (10 x xs)
  have wx: "json_wf x" "json_floats_ok x" using 10(3,4) by simp_all
  have wf: "\<forall>x \<in> set xs. json_wf x" "\<forall>x \<in> set xs. json_floats_ok x" using 10(3,4) by simp_all
  show ?case
  proof (rule took_elem_dump [OF 10(6-8) 10(1) [OF wx]])
    fix u q ys fs
    assume "xs \<noteq> []" "dump_elems xs = Inr u" "before q (u @ CHR '']'' # rest)" "dom_stack (ps_dom q) = ArrFrame ys # fs"
    with 10(2) [OF _ wf] show "\<exists>p'. took_elems (map json_norm xs) rest states q ys fs p'" by blast
  qed
next
  case 11
  then show ?case by simp
next
  case (12 k v m)
  have wv: "json_wf v" "json_floats_ok v" using 12(4,5) by simp_all
  have wf: "om_wf m" "\<forall>kv \<in> set m. json_wf (snd kv)" "\<forall>kv \<in> set m. json_floats_ok (snd kv)"
    using 12(3-5) by (auto simp: om_wf_Cons)
  show ?case
  proof (rule took_member_dump [OF 12(8-10) 12(3,7) 12(1) [OF wv]])
    fix u q k1
    assume "m \<noteq> []" "members_above (ms @ [(k, json_norm v)]) m" "dump_members m = Inr u"
      "before q (u @ CHR ''}'' # rest)" "dom_stack (ps_dom q) = ObjFrame (ms @ [(k, json_norm v)]) k1 # fs"
    with 12(2) [OF _ wf] show "\<exists>p'. took_members (map (\<lambda>(k, v). (k, json_norm v)) m) rest states q
        (ms @ [(k, json_norm v)]) fs p'" by blast
  qed
qed

lemma before_parser_init: "parser_init s = get_token \<lparr>ps_lexer = lexer_init s, ps_last = TUninitialized, ps_dom = dom_init\<rparr>"
    "before \<lparr>ps_lexer = lexer_init s, ps_last = TUninitialized, ps_dom = dom_init\<rparr> s"
  by (simp_all add: parser_init_def before_def lexer_init_def pending_def lx_ok_def)

lemma json_parse_dump:
  assumes "json_wf j" "json_floats_ok j" "json_dump j = Inr t"
  shows "json_parse t = Inr (json_norm j)"
proof -
  let ?p = "\<lparr>ps_lexer = lexer_init t, ps_last = TUninitialized, ps_dom = dom_init\<rparr>"
  have b: "before ?p (t @ [])" using before_parser_init(2) [of t] by simp
  obtain p' where p': "took (json_norm j) [] [] ?p p'"
    using took_dump [OF assms b ends_structural(4)] by blast
  have "sax_parse_internal False [] (parser_init t) = Inr p'" "ps_dom p' = dom_value (json_norm j) dom_init"
      and e: "before p' []"
    using p' by (simp_all add: took_def before_parser_init(1) parse_done)
  moreover have "ps_last (get_token p') = TEndOfInput"
    using scan_end [of "ps_lexer p'"] e by (auto simp: before_def get_token_def split: prod.splits)
  ultimately show ?thesis by (simp add: json_parse_def dom_value_def dom_init_def)
qed


section \<open>When \<open>dump\<close> succeeds\<close>

fun json_utf8 :: "json \<Rightarrow> bool" where
  "json_utf8 (JString s) = utf8_ok s"
| "json_utf8 (JArray xs) = (\<forall>x \<in> set xs. json_utf8 x)"
| "json_utf8 (JObject m) = (\<forall>kv \<in> set m. utf8_ok (fst kv) \<and> json_utf8 (snd kv))"
| "json_utf8 j = True"

lemma dump_string_ok: "(\<exists>t. dump_string s = Inr t) \<longleftrightarrow> utf8_ok s"
    "dump_string s = Inl e \<Longrightarrow> e = TypeError 316"
  by (auto simp: dump_string_def dump_escaped_text split: if_splits)

lemma dump_ok:
  "(\<exists>t. json_dump j = Inr t) \<longleftrightarrow> json_utf8 j"
  "(\<exists>t. dump_elems xs = Inr t) \<longleftrightarrow> (\<forall>x \<in> set xs. json_utf8 x)"
  "(\<exists>t. dump_members m = Inr t) \<longleftrightarrow> (\<forall>kv \<in> set m. utf8_ok (fst kv) \<and> json_utf8 (snd kv))"
proof (induction j and xs and m rule: json_dump_dump_elems_dump_members.induct)
  case (10 x xs)
  then show ?case by (cases "xs = []") (auto simp: rbind_Inr_iff)
next
  case (12 k v m)
  then show ?case using dump_string_ok(1) [of k] by (cases "m = []") (auto simp: rbind_Inr_iff)
qed (auto simp: rbind_Inr_iff dump_string_ok)

lemma dump_error:
  "json_dump j = Inl e \<Longrightarrow> e = TypeError 316"
  "dump_elems xs = Inl e \<Longrightarrow> e = TypeError 316"
  "dump_members m = Inl e \<Longrightarrow> e = TypeError 316"
proof (induction j and xs and m rule: json_dump_dump_elems_dump_members.induct)
  case (10 x xs)
  then show ?case by (cases "xs = []") (auto simp: rbind_Inl_iff)
next
  case (12 k v m)
  then show ?case by (cases "m = []") (auto simp: rbind_Inl_iff dest: dump_string_ok(2))
qed (auto simp: rbind_Inl_iff dest: dump_string_ok(2) split: if_splits)

text \<open>
  \<open>dump\<close> throws exactly for a value with a string or key that is not UTF-8, and then
  \<open>type_error\<close> 316, which is not a \<open>parse_error\<close>: none of the handlers of the servers catches it.
\<close>

lemma dump_throws_iff:
  "json_dump j = Inl e \<longleftrightarrow> \<not> json_utf8 j \<and> e = TypeError 316"
proof (cases "json_dump j")
  case (Inl e')
  with dump_ok(1) [of j] dump_error(1) [OF Inl] show ?thesis by auto
next
  case (Inr t)
  with dump_ok(1) [of j] show ?thesis by auto
qed

section \<open>A value of each kind\<close>

definition sample_json :: json where
  "sample_json = JObject [(''cpu'', JFloat 0),
                          (''ok'', JArray [JBool True, JInt 7, JInt (- 3), JNull, JString [CHR 0xC3, CHR 0xA9]])]"

definition sample_text :: string where
  "sample_text = ''{'' @ [CHR 0x22] @ ''cpu'' @ [CHR 0x22] @ '':0.0,'' @ [CHR 0x22] @ ''ok'' @ [CHR 0x22]
     @ '':[true,7,-3,null,'' @ [CHR 0x22, CHR 0xC3, CHR 0xA9, CHR 0x22] @ '']}''"

lemma to_chars_zero: "to_chars 0 = ''0.0''"
  by (simp add: to_chars_def dbl_sign_def dbl_is_zero_def)

lemma float_text_ok_zero: "float_text_ok 0"
  by (simp add: float_text_ok_def to_chars_zero num_start_def is_digit_def strtod_def dec_scan_def
      dec_exponent_def dbl_of_dec_def dbl_of_ratio_def)

lemma finite_zero: "dbl_isfinite 0"
  by (simp add: dbl_isfinite_def dbl_exp_def)

lemma sample_json_wf: "json_wf sample_json" "json_floats_ok sample_json"
  by (simp_all add: sample_json_def float_text_ok_zero om_wf_Cons)

lemma one_digit: "nat_to_dec 7 = ''7''" "nat_to_dec 3 = ''3''"
  by code_simp+

lemma sample_json_dump: "json_dump sample_json = Inr sample_text"
  by (simp add: sample_json_def sample_text_def dump_string_def dump_escaped_text dump_float_def finite_zero
      to_chars_zero escape_text_def escape_byte_def escape_codepoint_def utf8_follow_def
      dump_int_text to_string_def one_digit)


end
