(* ===== verification/JsonParsed.thy ===== *)
theory JsonParsed
  imports JsonRoundtrip
begin

text \<open>
  What \<open>json::parse\<close> can return and throw: every string of a parsed value is well-formed UTF-8 and
  every object is ordered, so a received value can always be written again; and the two
  exceptions that leave it.
\<close>

unbundle bit_operations_syntax

section \<open>Appending characters\<close>

lemma follow_ok_length: "follow_ok rs cs \<Longrightarrow> length rs \<le> length cs"
  by (induction rs cs rule: follow_ok.induct) auto

lemma follow_ok_append: "follow_ok rs cs \<Longrightarrow> follow_ok rs (cs @ ds)"
  by (induction rs cs rule: follow_ok.induct) auto

lemma utf8_ok_append: "utf8_ok a \<Longrightarrow> utf8_ok b \<Longrightarrow> utf8_ok (a @ b)"
proof (induction a rule: utf8_ok.induct)
  case (2 c cs)
  show ?case
  proof (cases "of_char c < (0x80 :: nat)")
    case True
    with 2 show ?thesis by simp
  next
    case False
    with 2(3) obtain rs where rs: "utf8_follow (of_char c) = Some rs" "follow_ok rs cs"
      "utf8_ok (drop (length rs) cs)" by (auto split: option.splits)
    with 2(2) [OF False rs(1) rs(3) 2(4)] False follow_ok_append [OF rs(2)] follow_ok_length [OF rs(2)]
    show ?thesis by simp
  qed
qed simp

lemma utf8_ok_ascii: "\<forall>c \<in> set s. (of_char c :: nat) < 0x80 \<Longrightarrow> utf8_ok s"
  by (induction s) auto

section \<open>Code points\<close>

lemma or_low_bits: "x < 2 ^ k \<Longrightarrow> push_bit k a OR x = push_bit k a + (x :: nat)"
proof -
  assume "x < 2 ^ k"
  then have "take_bit k x = x" by (simp add: take_bit_nat_eq_self)
  then have "bit x n \<Longrightarrow> \<not> k \<le> n" for n by (metis bit_take_bit_iff not_le)
  then show ?thesis by (subst disjunctive_add) (auto simp: bit_push_bit_iff)
qed

lemma or_prefixes:
  "x < 64 \<Longrightarrow> 0x80 OR x = 0x80 + (x :: nat)" "x < 64 \<Longrightarrow> 0xC0 OR x = 0xC0 + (x :: nat)"
  "x < 32 \<Longrightarrow> 0xE0 OR x = 0xE0 + (x :: nat)" "x < 16 \<Longrightarrow> 0xF0 OR x = 0xF0 + (x :: nat)"
  using or_low_bits [of x 6 2] or_low_bits [of x 6 3] or_low_bits [of x 5 7] or_low_bits [of x 4 15]
  by (simp_all add: push_bit_eq_mult)

text \<open>A Unicode scalar value.\<close>

definition scalar :: "nat \<Rightarrow> bool" where
  "scalar cp = (cp \<le> 0x10FFFF \<and> \<not> (0xD800 \<le> cp \<and> cp \<le> 0xDFFF))"

lemma div64: "x = 64 * y + z \<Longrightarrow> z < 64 \<Longrightarrow> x div 64 = y \<and> x mod 64 = (z :: nat)"
  by simp

lemma codepoint_two:
  assumes "0x80 \<le> cp" "cp \<le> 0x7FF"
  shows "utf8_ok (codepoint_bytes cp)"
proof -
  obtain a b where cp: "cp = 64 * a + b" "b < 64" by (metis mod_less_divisor mult_div_mod_eq zero_less_numeral)
  then have ab: "cp div 64 = a" "cp mod 64 = b" by simp_all
  have "2 \<le> a" "a < 32" using assms cp by linarith+
  with cp(2) assms show ?thesis
    by (simp add: codepoint_bytes_def and_low_bits drop_bit_eq_div ab or_prefixes utf8_follow_def)
qed

lemma codepoint_three:
  assumes "0x800 \<le> cp" "cp \<le> 0xFFFF" "scalar cp"
  shows "utf8_ok (codepoint_bytes cp)"
proof -
  obtain q b where q: "cp = 64 * q + b" "b < 64" by (metis mod_less_divisor mult_div_mod_eq zero_less_numeral)
  obtain a m where a: "q = 64 * a + m" "m < 64" by (metis mod_less_divisor mult_div_mod_eq zero_less_numeral)
  have d: "cp div 64 = q" "cp mod 64 = b" "q div 64 = a" "q mod 64 = m"
    using div64 [OF q] div64 [OF a] by simp_all
  then have d2: "cp div 4096 = a" using div_mult2_eq [of cp 64 64] by simp
  have lt: "a < 16" using assms(2) q a by linarith
  have low: "a = 0 \<Longrightarrow> 32 \<le> m" using assms(1) q a by linarith
  have sur: "a = 13 \<Longrightarrow> m \<le> 31" using assms(2,3) q a by (auto simp: scalar_def)
  have "utf8_follow (0xE0 + a) =
      Some [(if a = 0 then 0xA0 else 0x80, if a = 13 then 0x9F else 0xBF), (0x80, 0xBF)]"
    using lt by (simp add: utf8_follow_def)
  with lt low sur assms(1,2) q(2) a(2) show ?thesis
    by (simp add: codepoint_bytes_def and_low_bits drop_bit_eq_div d d2 or_prefixes)
qed

lemma codepoint_four:
  assumes "0x10000 \<le> cp" "cp \<le> 0x10FFFF"
  shows "utf8_ok (codepoint_bytes cp)"
proof -
  obtain q b where q: "cp = 64 * q + b" "b < 64" by (metis mod_less_divisor mult_div_mod_eq zero_less_numeral)
  obtain r m where r: "q = 64 * r + m" "m < 64" by (metis mod_less_divisor mult_div_mod_eq zero_less_numeral)
  obtain a n where a: "r = 64 * a + n" "n < 64" by (metis mod_less_divisor mult_div_mod_eq zero_less_numeral)
  have d: "cp div 64 = q" "cp mod 64 = b" "q div 64 = r" "q mod 64 = m" "r div 64 = a" "r mod 64 = n"
    using div64 [OF q] div64 [OF r] div64 [OF a] by simp_all
  then have d2: "cp div 4096 = r" "cp div 262144 = a"
    using div_mult2_eq [of cp 64 64] div_mult2_eq [of cp 4096 64] by simp_all
  have lt: "a < 5" using assms(2) q r a by linarith
  have low: "a = 0 \<Longrightarrow> 16 \<le> n" using assms(1) q r a by linarith
  have high: "a = 4 \<Longrightarrow> n \<le> 15" using assms(2) q r a by linarith
  have "utf8_follow (0xF0 + a) =
      Some [(if a = 0 then 0x90 else 0x80, if a = 4 then 0x8F else 0xBF), (0x80, 0xBF), (0x80, 0xBF)]"
    using lt by (simp add: utf8_follow_def)
  with lt low high assms q(2) r(2) a(2) show ?thesis
    by (simp add: codepoint_bytes_def and_low_bits drop_bit_eq_div d d2 or_prefixes)
qed

lemma codepoint_bytes_utf8: "scalar cp \<Longrightarrow> utf8_ok (codepoint_bytes cp)"
proof -
  assume s: "scalar cp"
  then consider "cp < 0x80" | "0x80 \<le> cp" "cp \<le> 0x7FF" | "0x800 \<le> cp" "cp \<le> 0xFFFF"
    | "0x10000 \<le> cp" "cp \<le> 0x10FFFF" by (simp add: scalar_def) linarith
  then show ?thesis
  proof cases
    case 1
    then show ?thesis by (simp add: codepoint_bytes_def)
  qed (use s in \<open>simp_all add: codepoint_two codepoint_three codepoint_four\<close>)
qed

section \<open>The lexer makes well-formed strings\<close>

lemma hex_value_less: "hex_value c = Some v \<Longrightarrow> v < 16"
  by (auto simp: hex_value_def Let_def split: option.splits if_splits)

lemma codepoint_loop_buf: "codepoint_loop fs cp l = (r, l') \<Longrightarrow> lx_buf l' = lx_buf l"
  by (induction fs cp l rule: codepoint_loop.induct) (auto simp: Let_def split: option.splits)

lemma get_codepoint_result:
  assumes "get_codepoint l = (Some cp, l')"
  shows "cp < 0x10000" "lx_buf l' = lx_buf l"
proof -
  show "lx_buf l' = lx_buf l" using assms unfolding get_codepoint_def by (rule codepoint_loop_buf)
  obtain a b c d where "cp = a * 4096 + b * 256 + c * 16 + d" "a < 16" "b < 16" "c < 16" "d < 16"
    using assms
    by (auto simp: get_codepoint_def Let_def push_bit_eq_mult split: option.splits dest!: hex_value_less)
  then show "cp < 0x10000" by linarith
qed

lemma byte_in_ranges_bytes:
  "byte_in_ranges rs l = (True, l') \<Longrightarrow>
   \<exists>bs. lx_buf l' = lx_buf l @ bs \<and> follow_ok rs bs \<and> length bs = length rs"
proof (induction rs l rule: byte_in_ranges.induct)
  case (2 lo hi rs l)
  then obtain d where d: "lx_current (lx_get l) = Some d" "lo \<le> of_char d" "of_char d \<le> hi"
    and b: "byte_in_ranges rs (lx_add d (lx_get l)) = (True, l')"
    by (auto simp: Let_def split: option.splits if_splits)
  from 2(1) [OF refl d(1) _ b] d obtain bs where
    "lx_buf l' = lx_buf l @ d # bs" "follow_ok rs bs" "length bs = length rs" by auto
  with d show ?case by (intro exI [of _ "d # bs"]) simp
qed simp

lemma scan_unicode_escape_buf:
  assumes "scan_unicode_escape l = (True, l')"
  shows "\<exists>s. lx_buf l' = lx_buf l @ s \<and> utf8_ok s"
proof -
  obtain o1 l1 where 1: "get_codepoint l = (o1, l1)" by force
  obtain o2 l4 where 2: "get_codepoint (lx_get (lx_get l1)) = (o2, l4)" by force
  from assms 1 obtain cp1 where o1: "o1 = Some cp1" by (cases o1) (auto simp: scan_unicode_escape_def)
  note r1 = get_codepoint_result [OF 1 [unfolded o1]]
  show ?thesis
  proof (cases "0xD800 \<le> cp1 \<and> cp1 \<le> 0xDBFF")
    case True
    with assms 1 2 o1 obtain cp2 where o2: "o2 = Some cp2" and range: "0xDC00 \<le> cp2" "cp2 \<le> 0xDFFF"
      and l': "l' = lx_add_all (codepoint_bytes (push_bit 10 cp1 + cp2 - 0x35FDC00)) l4"
      by (auto simp: scan_unicode_escape_def Let_def split: if_splits option.splits)
    have "scalar (push_bit 10 cp1 + cp2 - 0x35FDC00)"
      using True range by (auto simp: scalar_def push_bit_eq_mult)
    moreover have "lx_buf l4 = lx_buf l"
      using get_codepoint_result(2) [OF 2 [unfolded o2]] r1 by simp
    ultimately show ?thesis using l' codepoint_bytes_utf8 by auto
  next
    case False
    with assms 1 o1 have "\<not> (0xDC00 \<le> cp1 \<and> cp1 \<le> 0xDFFF)" "l' = lx_add_all (codepoint_bytes cp1) l1"
      by (auto simp: scan_unicode_escape_def split: if_splits)
    moreover have "scalar cp1" using calculation(1) False r1(1) by (auto simp: scalar_def)
    ultimately show ?thesis using r1 codepoint_bytes_utf8 by auto
  qed
qed

lemma scan_escape_buf:
  assumes "scan_escape l = (True, l')"
  shows "\<exists>s. lx_buf l' = lx_buf l @ s \<and> utf8_ok s"
proof (cases "lx_current (lx_get l) = Some (CHR ''u'')")
  case True
  with assms have "scan_unicode_escape (lx_get l) = (True, l')" by (simp add: scan_escape_def)
  from scan_unicode_escape_buf [OF this] show ?thesis by simp
next
  case False
  with assms have "\<exists>d. l' = lx_add d (lx_get l) \<and> of_char d < (0x80 :: nat)"
    by (auto simp: scan_escape_def Let_def split: option.splits if_splits)
  then show ?thesis by auto
qed

lemma scan_string_loop_utf8:
  "scan_string_loop l = (TValueString, l') \<Longrightarrow> utf8_ok (lx_buf l) \<Longrightarrow> utf8_ok (lx_buf l')"
proof (induction "lx_size l" arbitrary: l rule: less_induct)
  case less
  let ?g = "lx_get l"
  from less.prems(1) obtain c where c: "lx_current ?g = Some c"
    by (cases "lx_current ?g") (simp_all add: scan_string_loop.simps [of l] Let_def)
  have lt: "lx_size ?g < lx_size l" by (rule lx_size_get_less [OF c])
  note unfold = less.prems(1) [unfolded scan_string_loop.simps [of l] Let_def c option.case]
  consider "c = CHR 0x22" | "c = CHR 0x5C" | "c \<noteq> CHR 0x22" "c \<noteq> CHR 0x5C" "\<not> of_char c \<le> (0x1F :: nat)"
      "of_char c \<le> (0x7F :: nat)"
    | "c \<noteq> CHR 0x22" "c \<noteq> CHR 0x5C" "\<not> of_char c \<le> (0x1F :: nat)" "\<not> of_char c \<le> (0x7F :: nat)"
    using unfold by (cases "c = CHR 0x22"; cases "c = CHR 0x5C"; cases "of_char c \<le> (0x1F :: nat)") auto
  then show ?case
  proof cases
    case 1
    with unfold have "l' = ?g" by simp
    with less.prems(2) show ?thesis by simp
  next
    case 2
    with unfold obtain l1 where e: "scan_escape ?g = (True, l1)" and s: "scan_string_loop l1 = (TValueString, l')"
      by (auto split: prod.splits bool.splits)
    from scan_escape_buf [OF e] less.prems(2) have "utf8_ok (lx_buf l1)" by (auto intro: utf8_ok_append)
    with less.hyps [OF _ s] lx_size_escape [OF e] lt show ?thesis by simp
  next
    case 3
    with unfold have s: "scan_string_loop (lx_add c ?g) = (TValueString, l')" by simp
    have "utf8_ok (lx_buf (lx_add c ?g))" using 3 less.prems(2) by (auto intro: utf8_ok_append)
    with less.hyps [OF _ s] lt show ?thesis by simp
  next
    case 4
    with unfold obtain rs l1 where rs: "utf8_follow (of_char c) = Some rs" and
      n: "next_byte_in_range rs ?g = (True, l1)" and s: "scan_string_loop l1 = (TValueString, l')"
      by (auto split: prod.splits bool.splits option.splits)
    from n c have "byte_in_ranges rs (lx_add c ?g) = (True, l1)" by (simp add: next_byte_in_range_def)
    from byte_in_ranges_bytes [OF this] obtain bs where
      bs: "lx_buf l1 = lx_buf l @ c # bs" "follow_ok rs bs" "length bs = length rs" by auto
    then have "utf8_ok (c # bs)" using 4 rs by simp
    with bs less.prems(2) have "utf8_ok (lx_buf l1)" by (auto simp del: utf8_ok.simps intro: utf8_ok_append)
    with less.hyps [OF _ s] lx_size_next_byte_in_range [OF n] lt show ?thesis by simp
  qed
qed

lemma scan_literal_token: "scan_literal s ty l = (t, l') \<Longrightarrow> t = ty \<or> t = TParseError"
  by (induction s ty l rule: scan_literal.induct) (auto simp: Let_def split: if_splits)

lemma scan_number_token: "scan_number l = (t, l') \<Longrightarrow> t \<noteq> TValueString"
proof -
  have c: "fst (convert_number ty l1) \<noteq> TValueString" for ty l1
    by (auto simp: convert_number_def Let_def split: option.splits)
  assume "scan_number l = (t, l')"
  then show ?thesis
    by (auto simp: scan_number_def Let_def split: option.splits prod.splits)
      (metis c fst_conv)+
qed

definition tok_utf8 :: "token \<times> lexer \<Rightarrow> bool" where
  "tok_utf8 r = (fst r = TValueString \<longrightarrow> utf8_ok (lx_buf (snd r)))"

lemma tok_utf8_if: "tok_utf8 x \<Longrightarrow> tok_utf8 y \<Longrightarrow> tok_utf8 (if b then x else y)"
  by simp

lemma tok_utf8_other: "t \<noteq> TValueString \<Longrightarrow> tok_utf8 (t, l)"
  by (simp add: tok_utf8_def)

lemma tok_utf8_literal: "ty \<noteq> TValueString \<Longrightarrow> tok_utf8 (scan_literal s ty l)"
  using scan_literal_token [of s ty l] by (cases "scan_literal s ty l") (auto simp: tok_utf8_def)

lemma tok_utf8_number: "tok_utf8 (scan_number l)"
  using scan_number_token [of l] by (cases "scan_number l") (auto simp: tok_utf8_def)

lemma tok_utf8_string: "tok_utf8 (scan_string l)"
proof (cases "scan_string l")
  case (Pair t l')
  have "t = TValueString \<Longrightarrow> utf8_ok (lx_buf l')"
    using Pair scan_string_loop_utf8 [of "lx_reset l" l'] by (simp add: scan_string_def)
  with Pair show ?thesis by (simp add: tok_utf8_def)
qed

lemma tok_utf8_token: "tok_utf8 (scan_token l)"
proof (cases "lx_current l")
  case None
  then show ?thesis by (simp add: scan_token_None tok_utf8_def)
next
  case (Some c)
  then show ?thesis
    by (simp only: scan_token_def option.case)
      (intro tok_utf8_if tok_utf8_other tok_utf8_literal tok_utf8_number tok_utf8_string; simp)
qed

lemma scan_string_utf8: "scan l = (TValueString, l') \<Longrightarrow> utf8_ok (lx_buf l')"
proof -
  assume a: "scan l = (TValueString, l')"
  then obtain l0 where "scan_token l0 = (TValueString, l')"
    by (auto simp: scan_def split: prod.splits bool.splits)
  with tok_utf8_token [of l0] show ?thesis by (simp add: tok_utf8_def)
qed

section \<open>The parser keeps it\<close>

definition json_good :: "json \<Rightarrow> bool" where
  "json_good j = (json_wf j \<and> json_utf8 j)"

fun frame_good :: "frame \<Rightarrow> bool" where
  "frame_good (ArrFrame xs) = (\<forall>x \<in> set xs. json_good x)"
| "frame_good (ObjFrame m k) = (json_good (JObject m) \<and> utf8_ok k)"

definition dom_good :: "dom \<Rightarrow> bool" where
  "dom_good d = (json_good (dom_root d) \<and> (\<forall>f \<in> set (dom_stack d). frame_good f))"

definition parser_good :: "parser \<Rightarrow> bool" where
  "parser_good p =
     (dom_good (ps_dom p) \<and> (ps_last p = TValueString \<longrightarrow> utf8_ok (lx_buf (ps_lexer p))))"

lemma json_good_assign:
  "json_good (JObject m) \<Longrightarrow> utf8_ok k \<Longrightarrow> json_good v \<Longrightarrow> json_good (JObject (om_assign k v m))"
  using json_wf_assign [of m v k] set_om_assign [of k v m] by (auto simp: json_good_def)

lemma json_good_emplace:
  "json_good (JObject m) \<Longrightarrow> utf8_ok k \<Longrightarrow> json_good (JObject (om_emplace k JNull m))"
  using json_good_assign [of m k JNull] by (auto simp: om_emplace_def json_good_def split: option.splits)

lemma dom_good_value: "dom_good d \<Longrightarrow> json_good v \<Longrightarrow> dom_good (dom_value v d)"
  by (auto simp: dom_good_def dom_value_def json_good_assign simp del: om_assign.simps
      split: list.splits frame.splits)

lemma dom_good_start: "dom_good d \<Longrightarrow> dom_good (dom_start_array d)" "dom_good d \<Longrightarrow> dom_good (dom_start_object d)"
  by (auto simp: dom_good_def dom_start_array_def dom_start_object_def json_good_def om_wf_def om_keys_def)

lemma dom_good_key: "dom_good d \<Longrightarrow> utf8_ok k \<Longrightarrow> dom_good (dom_key k d)"
  by (auto simp: dom_good_def dom_key_def json_good_emplace split: list.splits frame.splits)

lemma dom_good_end: "dom_good d \<Longrightarrow> dom_good (dom_end d)"
proof -
  assume d: "dom_good d"
  show ?thesis
  proof (cases "dom_stack d")
    case Nil
    with d show ?thesis by (simp add: dom_end_def)
  next
    case (Cons f fs)
    with d have "dom_good (d\<lparr>dom_stack := fs\<rparr>)" "frame_good f" by (simp_all add: dom_good_def)
    with Cons show ?thesis
      by (cases f) (auto simp: dom_end_def json_good_def intro!: dom_good_value)
  qed
qed

lemma parser_good_get: "dom_good (ps_dom p) \<Longrightarrow> parser_good (get_token p)"
  by (auto simp: parser_good_def get_token_def dest: scan_string_utf8 split: prod.splits)

lemma parser_good_dom: "parser_good p \<Longrightarrow> dom_good (ps_dom p)"
  by (simp add: parser_good_def)

lemma parser_good_key: "parser_good p \<Longrightarrow> parse_key p = Inr p' \<Longrightarrow> parser_good p'"
proof -
  assume p: "parser_good p" and k: "parse_key p = Inr p'"
  let ?p1 = "get_token (with_dom (dom_key (lx_buf (ps_lexer p))) p)"
  from k have "ps_last p = TValueString" "p' = get_token ?p1"
    by (auto simp: parse_key_def Let_def split: if_splits)
  moreover have "dom_good (ps_dom (with_dom (dom_key (lx_buf (ps_lexer p))) p))"
    using p calculation(1) by (simp add: parser_good_def dom_good_key)
  ultimately show ?thesis using parser_good_get parser_good_dom by blast
qed

lemma parser_good_with: "parser_good p \<Longrightarrow> dom_good (f (ps_dom p)) \<Longrightarrow> parser_good (with_dom f p)"
  by (simp add: parser_good_def)

lemma parser_good_parse_value:
  assumes "parser_good p" "parse_value states p = Inr (a, states', p')"
  shows "parser_good p'"
proof -
  have leaf: "parser_good (with_dom (dom_value v) p)" if "json_good v" for v
    using parser_good_with [OF assms(1)] dom_good_value [OF parser_good_dom [OF assms(1)] that] by simp
  have simple: "json_good (JFloat x)" "json_good (JBool b)" "json_good JNull" "json_good (JInt n)"
    "json_good (JUInt n)" "ps_last p = TValueString \<Longrightarrow> json_good (JString (lx_buf (ps_lexer p)))" for x b n
    using assms(1) by (simp_all add: json_good_def parser_good_def)
  have start: "parser_good (get_token (with_dom dom_start_object p))"
    "parser_good (get_token (with_dom dom_start_array p))"
    using dom_good_start parser_good_dom [OF assms(1)] by (auto intro!: parser_good_get)
  then have ends: "parser_good (with_dom dom_end (get_token (with_dom dom_start_object p)))"
    "parser_good (with_dom dom_end (get_token (with_dom dom_start_array p)))"
    by (auto intro!: parser_good_with dom_good_end parser_good_dom)
  show ?thesis
    using assms(2) leaf simple start ends parser_good_key [OF start(1)]
    by (cases "ps_last p")
      (auto simp: parse_value_def Let_def rbind_Inr_iff split: if_splits)
qed

lemma parser_good_eval:
  assumes "parser_good p" "eval_state states p = Inr (Some (skip, states', p'))"
  shows "parser_good p'"
proof -
  have g: "parser_good (get_token p)" by (rule parser_good_get [OF parser_good_dom [OF assms(1)]])
  then have g2: "parser_good (get_token (get_token p))" "parser_good (with_dom dom_end (get_token p))"
    using parser_good_get parser_good_dom parser_good_with dom_good_end by blast+
  show ?thesis
    using assms(2) g2 parser_good_key [OF g2(1)]
    by (cases states) (auto simp: eval_state_def Let_def rbind_Inr_iff split: if_splits)
qed

lemma parser_good_round:
  assumes "parser_good p" "parse_round skip states p = Inr (r, n)"
  shows "parser_good r \<and> (\<forall>skip' states' q. n = Some (skip', states', q) \<longrightarrow> parser_good q)"
proof (cases skip)
  case True
  with assms(2) have "r = p" "eval_state states p = Inr n" by (auto simp: parse_round_def rbind_Inr_iff)
  with assms(1) parser_good_eval [OF assms(1)] show ?thesis by blast
next
  case False
  with assms(2) obtain a st p' where v: "parse_value states p = Inr (a, st, p')"
    by (auto simp: parse_round_def rbind_Inr_iff)
  have g: "parser_good p'" by (rule parser_good_parse_value [OF assms(1) v])
  show ?thesis
  proof (cases a)
    case Continue
    with assms(2) False v g show ?thesis by (auto simp: parse_round_def)
  next
    case Evaluate
    with assms(2) False v have "r = p'" "eval_state st p' = Inr n" by (auto simp: parse_round_def rbind_Inr_iff)
    with g parser_good_eval [OF g] show ?thesis by blast
  qed
qed

lemma parser_good_sax: "parser_good p \<Longrightarrow> sax_parse_internal skip states p = Inr r \<Longrightarrow> parser_good r"
proof (induction skip states p rule: sax_parse_internal.induct)
  case (1 skip states p)
  from 1(3) obtain x n where r: "parse_round skip states p = Inr (x, n)"
    by (auto simp: sax_parse_internal.simps [of skip states p] split: sum.splits)
  show ?case
  proof (cases n)
    case None
    with 1(3) r parser_good_round [OF 1(2) r] show ?thesis
      by (simp add: sax_parse_internal.simps [of skip states p])
  next
    case (Some t)
    obtain skip' states' q where t: "t = (skip', states', q)" by (cases t)
    from 1(3) r Some t have "sax_parse_internal skip' states' q = Inr r"
      by (simp add: sax_parse_internal.simps [of skip states p])
    with 1(1) [OF r refl Some t [symmetric] refl] parser_good_round [OF 1(2) r] Some t show ?thesis
      by simp
  qed
qed

lemma parser_good_init: "parser_good (parser_init s)"
  unfolding parser_init_def
  by (rule parser_good_get) (simp add: dom_init_def dom_good_def json_good_def)

lemma json_parse_good: "json_parse s = Inr j \<Longrightarrow> json_good j \<and> (\<exists>t. json_dump j = Inr t)"
proof -
  assume "json_parse s = Inr j"
  then obtain p where p: "sax_parse_internal False [] (parser_init s) = Inr p" and
    j: "j = dom_root (ps_dom p)"
    by (auto simp: json_parse_def rbind_Inr_iff split: if_splits)
  from parser_good_sax [OF parser_good_init p] j have "json_good j"
    by (simp add: parser_good_def dom_good_def)
  then show ?thesis using dump_ok(1) [of j] by (simp add: json_good_def)
qed

text \<open>Values put together in the servers.\<close>

lemma json_object_good:
  assumes "\<forall>kv \<in> set kvs. utf8_ok (fst kv) \<and> json_good (snd kv)"
  shows "json_good (json_object kvs)"
proof -
  have "\<forall>kv \<in> set kvs. utf8_ok (fst kv) \<and> json_utf8 (snd kv)" "\<forall>kv \<in> set kvs. json_wf (snd kv)"
    using assms by (simp_all only: json_good_def) blast+
  with fold_emplace_all [of "[]" "\<lambda>kv. utf8_ok (fst kv) \<and> json_utf8 (snd kv)" kvs] json_object_wf [of kvs]
  show ?thesis by (simp add: json_good_def json_object_def)
qed

lemma json_good_array: "json_good (JArray xs) \<longleftrightarrow> (\<forall>x \<in> set xs. json_good x)"
  by (auto simp: json_good_def)

text \<open>Text fields of a received value.\<close>

lemma from_json_string_result:
  "json_good j \<Longrightarrow> from_json_string j = Inr s \<Longrightarrow> utf8_ok s" "from_json_string j = Inl e \<Longrightarrow> e = TypeError 302"
  by (cases j; simp add: json_good_def)+

lemma json_good_member: "json_good (JObject m) \<Longrightarrow> om_find k m = Some v \<Longrightarrow> json_good v"
  by (drule om_find_Some_mem) (auto simp: json_good_def)

lemma value_string_result:
  "json_good body \<Longrightarrow> utf8_ok d \<Longrightarrow> value_string body k d = Inr s \<Longrightarrow> utf8_ok s"
  "value_string body k d = Inl e \<Longrightarrow> e \<in> {TypeError 302, TypeError 306}"
proof -
  show "utf8_ok s" if body: "json_good body" "utf8_ok d" "value_string body k d = Inr s"
  proof -
    obtain m where m: "body = JObject m" using body(3) by (cases body) (auto simp: json_value_def)
    show ?thesis
    proof (cases "om_find k m")
      case None
      with body m show ?thesis by (simp add: json_value_def)
    next
      case (Some v)
      with body m json_good_member [of m k v] from_json_string_result(1) [of v s] show ?thesis
        by (simp add: json_value_def)
    qed
  qed
  show "value_string body k d = Inl e \<Longrightarrow> e \<in> {TypeError 302, TypeError 306}"
    by (cases body) (auto simp: json_value_def dest: from_json_string_result(2) split: option.splits)
qed

lemma json_utf8_assign:
  assumes "json_utf8 (JObject m)" "utf8_ok k" "json_utf8 v"
  shows "json_utf8 (JObject (om_assign k v m))"
proof -
  have "utf8_ok (fst x) \<and> json_utf8 (snd x)" if "x \<in> set (om_assign k v m)" for x
    using subsetD [OF om_assign_subset that] assms by auto
  then show ?thesis by simp
qed

lemma json_set_good:
  assumes "json_good j" "json_good v" "utf8_ok k" "json_set j k v = Inr j'"
  shows "json_good j'"
proof -
  have "json_wf j'" using json_set_wf [of j v k j'] assms by (simp add: json_good_def)
  moreover have "json_utf8 j'"
  proof (cases j)
    case (JObject m)
    with assms json_utf8_assign [of m k v] show ?thesis by (auto simp: json_good_def simp del: json_utf8.simps(3))
  qed (use assms in \<open>auto simp: json_good_def\<close>)
  ultimately show ?thesis by (simp add: json_good_def)
qed

lemma json_good_dump: "json_good j \<Longrightarrow> \<exists>s. json_dump j = Inr s"
  using dump_ok(1) [of j] by (simp add: json_good_def)

text \<open>
  C12: every value \<open>parse\<close> returns is well-formed: object keys ascend, every string and key is
  UTF-8. So a value that was received can be written again; \<open>dump\<close> does not throw on it.
\<close>

theorem parsed_can_be_dumped:
  assumes "json_parse s = Inr j"
  shows "json_wf j \<and> json_utf8 j \<and> (\<exists>t. json_dump j = Inr t)"
  using json_parse_good [OF assms] by (simp add: json_good_def)

lemma parsed_can_be_dumped_witness: "\<exists>t. json_dump (json_norm sample_json) = Inr t"
  using parsed_can_be_dumped [of sample_text "json_norm sample_json"]
    json_parse_dump [OF sample_json_wf sample_json_dump] by simp

section \<open>What \<open>parse\<close> throws\<close>

definition parse_exn :: "exn \<Rightarrow> bool" where
  "parse_exn e = (e = ParseError 101 \<or> e = OutOfRange 406)"

lemma parse_key_exn: "parse_key p = Inl e \<Longrightarrow> parse_exn e"
  by (auto simp: parse_key_def parse_exn_def Let_def split: if_splits)

lemma parse_value_exn: "parse_value states p = Inl e \<Longrightarrow> parse_exn e"
  by (cases "ps_last p")
    (auto simp: parse_value_def Let_def rbind_Inl_iff parse_exn_def dest!: parse_key_exn split: if_splits)

lemma eval_state_exn: "eval_state states p = Inl e \<Longrightarrow> parse_exn e"
  by (cases states)
    (auto simp: eval_state_def Let_def rbind_Inl_iff parse_exn_def dest!: parse_key_exn split: if_splits)

lemma parse_round_exn: "parse_round skip states p = Inl e \<Longrightarrow> parse_exn e"
proof (cases skip)
  case True
  assume "parse_round skip states p = Inl e"
  with True show ?thesis by (auto simp: parse_round_def rbind_Inl_iff dest: eval_state_exn)
next
  case False
  assume r: "parse_round skip states p = Inl e"
  show ?thesis
  proof (cases "parse_value states p")
    case (Inl e')
    with r False parse_value_exn [OF Inl] show ?thesis by (simp add: parse_round_def)
  next
    case (Inr x)
    obtain a st p' where x: "x = (a, st, p')" by (cases x)
    with r False Inr show ?thesis
      by (cases a) (auto simp: parse_round_def rbind_Inl_iff dest: eval_state_exn)
  qed
qed

lemma sax_exn: "sax_parse_internal skip states p = Inl e \<Longrightarrow> parse_exn e"
proof (induction skip states p rule: sax_parse_internal.induct)
  case (1 skip states p)
  then show ?case
    by (auto simp: sax_parse_internal.simps [of skip states p] split: sum.splits option.splits
        dest: parse_round_exn)
qed

lemma json_parse_exn: "json_parse s = Inl e \<Longrightarrow> parse_exn e"
  by (auto simp: json_parse_def rbind_Inl_iff parse_exn_def dest: sax_exn split: if_splits)


lemma parse_non_finite:
  assumes "num_text s = Some TValueFloat" "\<not> dbl_isfinite (strtod s)"
  shows "json_parse s = Inl (OutOfRange 406)"
proof -
  let ?p = "\<lparr>ps_lexer = lexer_init s, ps_last = TUninitialized, ps_dom = dom_init\<rparr>"
  have b: "lx_ok (lexer_init s)" "pending (lexer_init s) = s @ []"
    using before_parser_init(2) [of s] by (simp_all add: before_def)
  obtain l where l: "scan (lexer_init s) = convert_number TValueFloat l" "lx_buf l = s"
    by (rule scan_number_text [OF b ends_structural(4) assms(1)])
  then have "scan (lexer_init s) = (TValueFloat, l\<lparr>lx_float := strtod s\<rparr>)" by (simp add: convert_float)
  then have "parse_value [] (parser_init s) = Inl (OutOfRange 406)"
    using assms(2) by (simp add: before_parser_init(1) get_token_def parse_value_def)
  then show ?thesis
    by (simp add: json_parse_def parse_round_def sax_parse_internal.simps [of False "[]" "parser_init s"])
qed

lemma json_parse_huge: "json_parse ''1e999'' = Inl (OutOfRange 406)"
proof -
  have nt: "num_text ''1e999'' = Some TValueFloat" by (simp add: num_start_def is_digit_def)
  have "dec_scan ''1e999'' = (1, 999)"
    by (simp add: dec_scan_def dec_exponent_def is_digit_def)
  then have "strtod ''1e999'' = dbl_of_dec 1 999" by (simp add: strtod_def)
  also have "\<dots> = dbl_of_ratio (1 * 10 ^ nat 999) 1" by (simp only: dbl_of_dec_def zero_le_numeral if_True)
  also have "\<dots> = dbl_inf"
  proof (rule dbl_of_ratio_overflow)
    have "(2 :: nat) ^ 1024 \<le> 8 ^ 342" by simp
    also have "\<dots> \<le> 10 ^ 342" by (rule power_mono) simp_all
    also have "\<dots> \<le> 10 ^ nat 999" by (rule power_increasing) simp_all
    finally show "(2 :: nat) ^ 1024 \<le> 1 * 10 ^ nat 999" by (simp only: mult_1)
  qed
  finally have "\<not> dbl_isfinite (strtod ''1e999'')" by simp
  from parse_non_finite [OF nt this] show ?thesis by simp
qed

text \<open>
  Five bytes are enough to make \<open>parse\<close> throw what no handler of the servers catches.
\<close>

lemma huge_number_escapes:
  "json_parse ''1e999'' = Inl (OutOfRange 406) \<and> \<not> is_parse_error (OutOfRange 406)"
  by (simp add: json_parse_huge)

lemma json_parse_empty: "json_parse [] = Inl (ParseError 101)"
proof -
  have b: "lx_ok (lexer_init [])" "pending (lexer_init []) = []"
    using before_parser_init(2) [of "[]"] by (simp_all add: before_def)
  from scan_end [OF this] obtain l where "scan (lexer_init []) = (TEndOfInput, l)"
    by (cases "scan (lexer_init [])") auto
  then have "parse_value [] (parser_init []) = Inl (ParseError 101)"
    by (simp add: before_parser_init(1) get_token_def parse_value_def)
  then show ?thesis
    by (simp add: json_parse_def parse_round_def sax_parse_internal.simps [of False "[]" "parser_init []"])
qed


end
