(* ===== verification/DeviceManager.thy ===== *)
theory DeviceManager
  imports Framing JsonParsed StdMap
begin

text \<open>
  \<open>DeviceServer/src/DeviceManager.cpp\<close>: the owner of the device table and of the cached Sub-Pi
  status. The callbacks to the outside run after the lock is released, so each operation returns
  what they are to be called with. What the health checks see is the argument \<open>health_env\<close>.
\<close>

record device_manager =
  dm_discovering :: bool
  dm_devices :: "(string, device_info) omap"
  dm_device_status :: "(string, json) omap"

definition dm_init :: device_manager where
  "dm_init = \<lparr>dm_discovering = False, dm_devices = [], dm_device_status = []\<rparr>"

section \<open>Registration\<close>

text \<open>The duplicate check of both discoverers: only devices that are online count.\<close>

definition is_device_registered :: "string \<Rightarrow> device_manager \<Rightarrow> bool" where
  "is_device_registered device dm =
     (case om_find device (dm_devices dm) of Some info \<Rightarrow> dev_is_online info | None \<Rightarrow> False)"

definition put_device :: "string \<Rightarrow> device_info \<Rightarrow> device_manager \<Rightarrow> device_manager" where
  "put_device device info dm = dm\<lparr>dm_devices := om_assign device info (dm_devices dm)\<rparr>"

text \<open>
  A discovered device is entered, or brought back online by \<open>recover\<close>, or left alone. The first
  component is \<open>registered_info\<close> when something changed.
\<close>

definition device_found ::
    "(device_info \<Rightarrow> device_info \<Rightarrow> device_info) \<Rightarrow> device_info \<Rightarrow> device_manager \<Rightarrow>
     device_info option \<times> device_manager" where
  "device_found recover info dm =
     (case om_find (dev_id info) (dm_devices dm) of
        Some existing \<Rightarrow>
          (if \<not> dev_is_online existing then
             (let existing' = recover info existing
              in (Some existing', put_device (dev_id info) existing' dm))
           else (None, dm))
      | None \<Rightarrow> (Some info, put_device (dev_id info) info dm))"

definition recover_subpi :: "device_info \<Rightarrow> device_info \<Rightarrow> device_info" where
  "recover_subpi info existing =
     existing\<lparr>dev_is_online := True, dev_command_socket_fd := dev_command_socket_fd info,
              dev_udp_listen_port := dev_udp_listen_port info\<rparr>"

definition recover_hanwha :: "device_info \<Rightarrow> device_info \<Rightarrow> device_info" where
  "recover_hanwha info existing = existing\<lparr>dev_is_online := True\<rparr>"

definition subpi_found :: "device_info \<Rightarrow> device_manager \<Rightarrow> device_info option \<times> device_manager" where
  "subpi_found info dm = device_found recover_subpi info dm"

definition hanwha_found :: "device_info \<Rightarrow> device_manager \<Rightarrow> device_info option \<times> device_manager" where
  "hanwha_found info dm = device_found recover_hanwha info dm"

definition available_event :: "string \<Rightarrow> json \<Rightarrow> device_manager \<Rightarrow> device_manager" where
  "available_event device status dm =
     dm\<lparr>dm_device_status := om_assign device status (dm_device_status dm)\<rparr>"

definition startDiscovery :: "device_manager \<Rightarrow> device_manager" where
  "startDiscovery dm = (if dm_discovering dm then dm else dm\<lparr>dm_discovering := True\<rparr>)"

definition stopDiscovery :: "device_manager \<Rightarrow> device_manager" where
  "stopDiscovery dm = (if \<not> dm_discovering dm then dm else dm\<lparr>dm_discovering := False\<rparr>)"

section \<open>Lists\<close>

definition getDeviceList :: "device_manager \<Rightarrow> device_info list" where
  "getDeviceList dm = map snd (dm_devices dm)"

fun status_entries ::
    "(string, device_info) omap \<Rightarrow> (string \<times> json) list \<Rightarrow> json \<Rightarrow> exn + json" where
  "status_entries devices [] result = Inr result"
| "status_entries devices ((device, status) # m) result =
     rbind (case om_find device devices of
              Some info \<Rightarrow> json_set status ''ip'' (JString (dev_ip info))
            | None \<Rightarrow> Inr status) (\<lambda>entry.
     rbind (json_push_back result entry) (status_entries devices m))"

definition getDeviceStatusList :: "device_manager \<Rightarrow> exn + json" where
  "getDeviceStatusList dm = status_entries (dm_devices dm) (dm_device_status dm) (JArray [])"

section \<open>Motor commands\<close>

definition motor_target :: "string \<Rightarrow> device_info \<Rightarrow> bool" where
  "motor_target ip info = (dev_type info = SUB_PI \<and> dev_is_online info \<and> dev_ip info = ip)"

definition motor_fd :: "string \<Rightarrow> device_manager \<Rightarrow> fd" where
  "motor_fd ip dm =
     (case find (motor_target ip) (getDeviceList dm) of
        Some info \<Rightarrow> dev_command_socket_fd info
      | None \<Rightarrow> -1)"

definition motor_body :: "string \<Rightarrow> string \<Rightarrow> exn + json" where
  "motor_body ip motor =
     rbind (json_set JNull ''device'' (JString ip)) (\<lambda>b. json_set b ''motor'' (JString motor))"

definition sendMotorCommand ::
    "string \<Rightarrow> string \<Rightarrow> device_manager \<Rightarrow> net \<Rightarrow> exn + (bool \<times> net)" where
  "sendMotorCommand ip motor dm net =
     (let fd = motor_fd ip dm in
      if fd < 0 then Inr (False, net)
      else rbind (motor_body ip motor) (\<lambda>body.
           rbind (json_dump body) (\<lambda>body_str.
             case sendExact fd (header_bytes \<lparr>ph_type = DEVICE, ph_body_length = htonl (of_nat (length body_str))\<rparr>) net of
               (False, net') \<Rightarrow> Inr (False, net')
             | (True, net') \<Rightarrow> Inr (sendExact fd body_str net'))))"

section \<open>Monitoring\<close>

record check_target =
  ct_id :: string
  ct_ip :: string
  ct_type :: device_type
  ct_fd :: fd

definition check_targets :: "device_manager \<Rightarrow> check_target list" where
  "check_targets dm =
     map (\<lambda>(device, info). \<lparr>ct_id = device, ct_ip = dev_ip info, ct_type = dev_type info,
                            ct_fd = dev_command_socket_fd info\<rparr>)
       (filter (\<lambda>p. dev_is_online (snd p)) (dm_devices dm))"

text \<open>
  The results of \<open>recv\<close> with \<open>MSG_PEEK\<close> and of the empty \<open>send\<close>, each with whether \<open>errno\<close> is \<open>EAGAIN\<close> or
  \<open>EWOULDBLOCK\<close>; the result of the \<open>i\<close>-th check that reaches \<open>checkTcpPort\<close>; and \<open>is_discovering_\<close>
  before the \<open>i\<close>-th target.
\<close>

record health_env =
  he_peek :: "fd \<Rightarrow> int \<times> bool"
  he_probe :: "fd \<Rightarrow> int \<times> bool"
  he_tcp_port :: "nat \<Rightarrow> string \<Rightarrow> bool"
  he_discovering :: "nat \<Rightarrow> bool"

definition checkTcpPort :: "fd \<Rightarrow> bool \<Rightarrow> bool" where
  "checkTcpPort sock connected = (if sock < 0 then False else connected)"

definition subpi_alive :: "health_env \<Rightarrow> fd \<Rightarrow> bool" where
  "subpi_alive env fd =
     (case he_peek env fd of
        (recv_result, again) \<Rightarrow>
          if recv_result = 0 then False
          else if recv_result < 0 \<and> \<not> again then False
          else (case he_probe env fd of (sent, again') \<Rightarrow> \<not> (sent < 0 \<and> \<not> again')))"

fun health_check ::
    "health_env \<Rightarrow> nat \<Rightarrow> check_target list \<Rightarrow> (string, bool) omap \<Rightarrow> string list" where
  "health_check env i [] cache = []"
| "health_check env i (t # ts) cache =
     (if \<not> he_discovering env i then []
      else if ct_type t = SUB_PI then
        (if subpi_alive env (ct_fd t) then health_check env (Suc i) ts cache
         else ct_id t # health_check env (Suc i) ts cache)
      else
        (let cache' = (case om_find (ct_ip t) cache of
                         None \<Rightarrow> om_assign (ct_ip t) (he_tcp_port env i (ct_ip t)) cache
                       | Some _ \<Rightarrow> cache)
         in if om_find (ct_ip t) cache' = Some True then health_check env (Suc i) ts cache'
            else ct_id t # health_check env (Suc i) ts cache'))"

text \<open>One device of \<open>went_offline\<close>; the list collects \<open>removed_ids\<close>.\<close>

definition set_offline ::
    "string \<Rightarrow> string list \<times> device_manager \<times> net \<Rightarrow> string list \<times> device_manager \<times> net" where
  "set_offline device st =
     (case st of (removed, dm, net) \<Rightarrow>
        (case om_find device (dm_devices dm) of
           None \<Rightarrow> st
         | Some info \<Rightarrow>
           (if \<not> dev_is_online info then st
            else
              (let info1 = info\<lparr>dev_is_online := False\<rparr>
               in if dev_type info = SUB_PI \<and> dev_command_socket_fd info \<noteq> -1 then
                    (removed @ [device],
                     put_device device (info1\<lparr>dev_command_socket_fd := -1\<rparr>) dm,
                     sock_close (dev_command_socket_fd info) net)
                  else (removed @ [device], put_device device info1 dm, net)))))"

definition apply_offline ::
    "string list \<Rightarrow> device_manager \<Rightarrow> net \<Rightarrow> string list \<times> device_manager \<times> net" where
  "apply_offline went_offline dm net = fold set_offline went_offline ([], dm, net)"

end
