(* ===== verification/SubPiManager.thy ===== *)
theory SubPiManager
  imports Framing JsonParsed StdMap
begin

text \<open>
  \<open>DeviceServer/src/SubPiManager.cpp\<close>: the beacon receiver, the start command to a Sub-Pi, and the
  listener thread of each Sub-Pi. The callbacks of the manager act on a state \<open>'w\<close> of their own
  and are arguments; what the socket calls return is an argument too. A callback of the
  listener is a value of \<open>subpi_event\<close>.
\<close>

record subpi_manager =
  sp_listener_threads :: "(string, fd) omap"
  sp_finished_ids :: "(string, unit) omap"
  sp_next_port :: int
  sp_net :: net

definition subpi_init :: "net \<Rightarrow> subpi_manager" where
  "subpi_init net =
     \<lparr>sp_listener_threads = [], sp_finished_ids = [], sp_next_port = 15001, sp_net = net\<rparr>"

section \<open>Listener threads\<close>

definition sp_cleanupFinishedThreads :: "subpi_manager \<Rightarrow> subpi_manager" where
  "sp_cleanupFinishedThreads sp =
     (if sp_finished_ids sp = [] then sp
      else sp\<lparr>sp_finished_ids := [],
              sp_listener_threads := fold om_erase (os_elems (sp_finished_ids sp)) (sp_listener_threads sp)\<rparr>)"

text \<open>
  The new listener of a device: a thread still listed under its id is joined and erased before
  the entry is assigned, so no \<open>std::thread\<close> is overwritten. \<open>None\<close> would be \<open>std::terminate\<close>.
\<close>

definition assign_listener :: "string \<Rightarrow> fd \<Rightarrow> subpi_manager \<Rightarrow> subpi_manager option" where
  "assign_listener device fd sp =
     (case om_find device (sp_listener_threads sp) of
        Some _ \<Rightarrow> None
      | None \<Rightarrow> Some (sp\<lparr>sp_listener_threads := om_assign device fd (sp_listener_threads sp)\<rparr>))"

definition start_listener :: "string \<Rightarrow> fd \<Rightarrow> subpi_manager \<Rightarrow> subpi_manager option" where
  "start_listener device fd sp =
     (let sp1 = sp_cleanupFinishedThreads sp;
          sp2 = (case om_find device (sp_listener_threads sp1) of
                   Some _ \<Rightarrow> sp1\<lparr>sp_listener_threads := om_erase device (sp_listener_threads sp1)\<rparr>
                 | None \<Rightarrow> sp1)
      in assign_listener device fd sp2)"

lemma start_listener_port: "start_listener device fd sp = Some sp' \<Longrightarrow> sp_next_port sp' = sp_next_port sp"
  by (auto simp: start_listener_def assign_listener_def sp_cleanupFinishedThreads_def Let_def
      split: option.splits if_splits)

definition listener_finished :: "string \<Rightarrow> subpi_manager \<Rightarrow> subpi_manager" where
  "listener_finished device sp = sp\<lparr>sp_finished_ids := os_insert device (sp_finished_ids sp)\<rparr>"

text \<open>\<open>stop\<close> joins every listener.\<close>

definition subpi_stop :: "subpi_manager \<Rightarrow> subpi_manager" where
  "subpi_stop sp = sp\<lparr>sp_listener_threads := []\<rparr>"

section \<open>Beacons\<close>

text \<open>
  \<open>sock\<close> and \<open>connected\<close> are what \<open>socket\<close> and \<open>connect\<close> return. The command goes out by one \<open>send\<close>
  whose result is not looked at.
\<close>

definition start_stream_text :: "int \<Rightarrow> string" where
  "start_stream_text listen_port = ''START_STREAM:'' @ to_string listen_port"

definition requestStartStream :: "fd \<Rightarrow> bool \<Rightarrow> int \<Rightarrow> subpi_manager \<Rightarrow> bool \<times> subpi_manager" where
  "requestStartStream sock connected listen_port sp =
     (if sock < 0 then (False, sp)
      else if \<not> connected then (False, sp\<lparr>sp_net := sock_close sock (sp_net sp)\<rparr>)
      else (True, sp\<lparr>sp_net :=
              (sp_net sp)(sock := snd (sock_send (start_stream_text listen_port) (sp_net sp sock)))\<rparr>))"

definition subpi_id :: "string \<Rightarrow> string" where
  "subpi_id ip = ''SubPi_'' @ ip"

definition subpi_info :: "string \<Rightarrow> int \<Rightarrow> fd \<Rightarrow> device_info" where
  "subpi_info ip port fd =
     (default_device_info SUB_PI)
       \<lparr>dev_id := subpi_id ip, dev_ip := ip, dev_udp_listen_port := port,
        dev_command_socket_fd := fd, dev_is_online := True\<rparr>"

definition beacon_buffer :: nat where
  "beacon_buffer = 1024"

text \<open>
  One datagram of \<open>runBeaconReceiver\<close>; \<open>n\<close> is what \<open>recvfrom\<close> returned and \<open>datagram\<close> what arrived.
  The text ends at the first NUL. The result is \<open>None\<close> where C++ would terminate.
\<close>

definition beacon_round ::
    "(string \<Rightarrow> 'w \<Rightarrow> bool) \<Rightarrow> (device_info \<Rightarrow> 'w \<Rightarrow> exn + 'w) \<Rightarrow> bytes \<Rightarrow> string \<Rightarrow> fd \<Rightarrow> bool \<Rightarrow>
     subpi_manager \<times> 'w \<Rightarrow> exn + (subpi_manager \<times> 'w) option" where
  "beacon_round is_registered on_device_found datagram sender_ip sock connected st =
     (case st of (sp, w) \<Rightarrow>
       (let message = c_str (take (beacon_buffer - 1) datagram); device = subpi_id sender_ip in
        if datagram = [] \<or> \<not> str_contains ''SUB_PI_ALIVE'' message then Inr (Some (sp, w))
        else if is_registered device w then Inr (Some (sp, w))
        else (case requestStartStream sock connected (sp_next_port sp) sp of
                (False, sp1) \<Rightarrow> Inr (Some (sp1, w))
              | (True, sp1) \<Rightarrow>
                (let info = subpi_info sender_ip (sp_next_port sp1) sock;
                     sp2 = sp1\<lparr>sp_next_port := sp_next_port sp1 + 1\<rparr>
                 in rbind (on_device_found info w) (\<lambda>w1.
                      Inr (map_option (\<lambda>sp3. (sp3, w1)) (start_listener device sock sp2)))))))"

text \<open>
  The thread: \<open>rounds\<close> is what \<open>recvfrom\<close> yields while \<open>is_running_\<close> holds, an empty datagram where it
  times out, with what \<open>socket\<close> and \<open>connect\<close> return if a start command is sent.
\<close>

fun beacon_rounds ::
    "(string \<Rightarrow> 'w \<Rightarrow> bool) \<Rightarrow> (device_info \<Rightarrow> 'w \<Rightarrow> exn + 'w) \<Rightarrow> (bytes \<times> string \<times> fd \<times> bool) list \<Rightarrow>
     subpi_manager \<times> 'w \<Rightarrow> exn + (subpi_manager \<times> 'w) option" where
  "beacon_rounds is_registered on_device_found [] st = Inr (Some st)"
| "beacon_rounds is_registered on_device_found ((datagram, sender_ip, sock, connected) # rounds) st =
     rbind (beacon_round is_registered on_device_found datagram sender_ip sock connected st) (\<lambda>r.
       case r of
         None \<Rightarrow> Inr None
       | Some st1 \<Rightarrow> beacon_rounds is_registered on_device_found rounds st1)"

definition runBeaconReceiver ::
    "(string \<Rightarrow> 'w \<Rightarrow> bool) \<Rightarrow> (device_info \<Rightarrow> 'w \<Rightarrow> exn + 'w) \<Rightarrow> fd \<Rightarrow> bool \<Rightarrow>
     (bytes \<times> string \<times> fd \<times> bool) list \<Rightarrow> subpi_manager \<times> 'w \<Rightarrow> exn + (subpi_manager \<times> 'w) option" where
  "runBeaconReceiver is_registered on_device_found sockfd bound rounds st =
     (if sockfd < 0 \<or> \<not> bound then Inr (Some st)
      else beacon_rounds is_registered on_device_found rounds st)"

section \<open>The listener of a Sub-Pi\<close>

datatype subpi_event =
    SubAi string json | SubImage string json bytes | SubAvailable string json | SubMeta string json

text \<open>
  How a message of a given type is handled once its body was read: an event, or nothing with the
  connection going on (\<open>Skip\<close>) or ended (\<open>Quit\<close>).
\<close>

datatype reaction = Event subpi_event | Skip | Quit

definition stamp :: "string \<Rightarrow> json \<Rightarrow> exn + json" where
  "stamp device_id j =
     rbind (json_set j ''device_id'' (JString device_id)) (\<lambda>j1.
       json_set j1 ''ip'' (JString (drop 6 device_id)))"

definition on_ai :: "string \<Rightarrow> json \<Rightarrow> exn + reaction" where
  "on_ai device_id j =
     rbind (stamp device_id j) (\<lambda>event.
     rbind (json_dump event) (\<lambda>log. Inr (Event (SubAi device_id event))))"

definition on_image :: "string \<Rightarrow> fd \<Rightarrow> json \<Rightarrow> net \<Rightarrow> exn + (reaction \<times> net)" where
  "on_image device_id fd j net =
     rbind (stamp device_id j) (\<lambda>meta.
     rbind (json_value from_json_uint meta ''jpeg_size'' 0) (\<lambda>size.
       let jpeg_size = unat size in
       if jpeg_size = 0 \<or> 10 * 1024 * 1024 < jpeg_size then Inr (Skip, net)
       else (case recvExact fd jpeg_size net of
               (None, net') \<Rightarrow> Inr (Quit, net')
             | (Some jpeg, net') \<Rightarrow>
               rbind (json_value from_json_int meta ''frame_index'' (- 1)) (\<lambda>frame.
               rbind (json_value from_json_int meta ''total_frames'' (- 1)) (\<lambda>frames.
                 Inr (Event (SubImage device_id meta jpeg), net'))))))"

definition on_available :: "string \<Rightarrow> json \<Rightarrow> exn + reaction" where
  "on_available device_id status =
     rbind (json_value from_json_double status ''cpu'' 0) (\<lambda>cpu.
     rbind (json_value from_json_double status ''memory'' 0) (\<lambda>mem.
     rbind (json_value from_json_double status ''temp'' 0) (\<lambda>temp.
       Inr (Event (SubAvailable device_id status)))))"

definition on_meta :: "string \<Rightarrow> json \<Rightarrow> exn + reaction" where
  "on_meta device_id j =
     rbind (stamp device_id j) (\<lambda>sensor_data.
     rbind (json_value Inr sensor_data ''sensor_batch'' (JArray [])) (\<lambda>batch.
       Inr (Event (SubMeta device_id sensor_data))))"

definition react :: "string \<Rightarrow> fd \<Rightarrow> message_type \<Rightarrow> json \<Rightarrow> net \<Rightarrow> exn + (reaction \<times> net)" where
  "react device_id fd t j net =
     (if t = AI then rbind (on_ai device_id j) (\<lambda>r. Inr (r, net))
      else if t = IMAGE then on_image device_id fd j net
      else if t = AVAILABLE then rbind (on_available device_id j) (\<lambda>r. Inr (r, net))
      else rbind (on_meta device_id j) (\<lambda>r. Inr (r, net)))"

text \<open>
  One round of \<open>subPiListener\<close>: whether the loop goes on, the event, the number of parse errors in
  a row, and the network.
\<close>

definition listener_round ::
    "int \<Rightarrow> string \<Rightarrow> fd \<Rightarrow> nat \<Rightarrow> net \<Rightarrow> exn + (bool \<times> subpi_event option \<times> nat \<times> net)" where
  "listener_round ret device_id fd errors net =
     (if ret < 0 then Inr (False, None, errors, net)
      else if ret = 0 then Inr (True, None, errors, net)
      else (case recv_header fd net of
        (None, net1) \<Rightarrow> Inr (False, None, errors, net1)
      | (Some h, net1) \<Rightarrow>
        (let body_len = unat (ntohl (ph_body_length h)) in
         if body_len = 0 \<or> 1024 * 1024 < body_len then Inr (True, None, errors, net1)
         else (case recvExact fd body_len net1 of
           (None, net2) \<Rightarrow> Inr (False, None, errors, net2)
         | (Some body, net2) \<Rightarrow>
           (if ph_type h \<in> {AI, IMAGE, AVAILABLE, META} then
              (case json_parse body of
                 Inl e \<Rightarrow>
                   (if is_parse_error e then Inr (errors + 1 < 3, None, errors + 1, net2) else Inl e)
               | Inr j \<Rightarrow>
                   rbind (react device_id fd (ph_type h) j net2) (\<lambda>(r, net3).
                     case r of
                       Event ev \<Rightarrow> Inr (True, Some ev, 0, net3)
                     | Skip \<Rightarrow> Inr (True, None, errors, net3)
                     | Quit \<Rightarrow> Inr (False, None, errors, net3)))
            else Inr (True, None, errors, net2))))))"

text \<open>The loop over the results of successive \<open>select\<close> calls, with the events in order.\<close>

fun listener_loop ::
    "int list \<Rightarrow> string \<Rightarrow> fd \<Rightarrow> nat \<Rightarrow> net \<Rightarrow> exn + (subpi_event list \<times> net)" where
  "listener_loop [] device_id fd errors net = Inr ([], net)"
| "listener_loop (ret # rets) device_id fd errors net =
     rbind (listener_round ret device_id fd errors net) (\<lambda>(go_on, ev, errors', net1).
       if go_on then
         rbind (listener_loop rets device_id fd errors' net1) (\<lambda>(evs, net2).
           Inr ((case ev of None \<Rightarrow> evs | Some e \<Rightarrow> e # evs), net2))
       else Inr ([], net1))"

section \<open>Properties\<close>


definition sample_subpi :: subpi_manager where
  "sample_subpi = (subpi_init (\<lambda>_. sample_sock))\<lparr>sp_listener_threads := [(''SubPi_10.0.0.7'', 8)]\<rparr>"


end
