(* ===== verification/OnvifScanner.thy ===== *)
theory OnvifScanner
  imports Protocol Json
begin

text \<open>
  \<open>DeviceServer/src/OnvifScanner.cpp\<close>: probe answers, the SUNAPI queries through \<open>popen\<close>, and the scan
  of the ARP table. The commands are built as the code builds them; what they print is the
  argument \<open>shell\<close> (\<open>None\<close> when \<open>popen\<close> fails), what the kernel's ARP table holds is \<open>arp\<close>. The
  callbacks act on a state \<open>'w\<close> of their own.
\<close>

record onvif_scanner =
  on_profile :: int
  on_fail_count :: "(string, nat) omap"

definition onvif_init :: onvif_scanner where
  "onvif_init = \<lparr>on_profile = 5, on_fail_count = []\<rparr>"

definition setProfile :: "int \<Rightarrow> onvif_scanner \<Rightarrow> onvif_scanner" where
  "setProfile profile sc = sc\<lparr>on_profile := profile\<rparr>"

section \<open>SUNAPI\<close>

definition quote :: string where
  "quote = [CHR 0x22]"

definition curl_prefix :: "string \<Rightarrow> string" where
  "curl_prefix ip =
     ''curl --digest -u admin:5hanwha! -s --connect-timeout 2 '' @ quote @ ''http://'' @ ip @
     ''/stw-cgi/media.cgi?msubmenu=streamuri&action=view''"

definition curl_suffix :: "int \<Rightarrow> string" where
  "curl_suffix profile =
     ''&Profile='' @ to_string profile @
     ''&MediaType=Live&Mode=Full&StreamType=RTPUnicast&TransportProtocol=TCP&RTSPOverHTTP=False'' @
     quote @ '' | grep '' @ quote @ ''URI'' @ quote @ '' | cut -d'' @ [CHR 0x27] @ ''='' @ [CHR 0x27] @ '' -f2''"

definition channel_command :: "string \<Rightarrow> int \<Rightarrow> int \<Rightarrow> string" where
  "channel_command ip profile ch =
     curl_prefix ip @ ''&Channel='' @ to_string ch @ curl_suffix profile"

definition single_command :: "string \<Rightarrow> int \<Rightarrow> string" where
  "single_command ip profile = curl_prefix ip @ curl_suffix profile"

text \<open>\<open>fgets\<close> into a buffer of \<open>n\<close> bytes, then assigned to a string: the text up to a NUL.\<close>

fun take_line :: "nat \<Rightarrow> string \<Rightarrow> string" where
  "take_line 0 s = []"
| "take_line (Suc n) [] = []"
| "take_line (Suc n) (c # cs) = (if c = CHR 0x0A then [c] else c # take_line n cs)"

definition fgets_text :: "nat \<Rightarrow> string \<Rightarrow> string" where
  "fgets_text n out = c_str (take_line (n - 1) out)"

definition is_eol :: "char \<Rightarrow> bool" where
  "is_eol c = (c = CHR 0x0A \<or> c = CHR 0x0D)"

definition strip_eols :: "string \<Rightarrow> string" where
  "strip_eols s = rev (dropWhile is_eol (rev s))"

definition strip_one_newline :: "string \<Rightarrow> string" where
  "strip_one_newline s = (if s \<noteq> [] \<and> last s = CHR 0x0A then butlast s else s)"

definition insert_credentials :: "string \<Rightarrow> string" where
  "insert_credentials url =
     (case str_find ''//'' url of
        Some pos \<Rightarrow> take (pos + 2) url @ ''admin:5hanwha!@'' @ drop (pos + 2) url
      | None \<Rightarrow> url)"

definition url_failed :: "string \<Rightarrow> bool" where
  "url_failed result = (result = [] \<or> str_contains ''Error'' result)"

definition getSingleRtspUrl :: "(string \<Rightarrow> string option) \<Rightarrow> onvif_scanner \<Rightarrow> string \<Rightarrow> string" where
  "getSingleRtspUrl shell sc ip =
     (case shell (single_command ip (on_profile sc)) of
        None \<Rightarrow> []
      | Some out \<Rightarrow>
        (let result = strip_one_newline (fgets_text 512 out)
         in if url_failed result then [] else insert_credentials result))"

text \<open>The loop over the channels, four at most, from channel \<open>ch\<close> on.\<close>

fun channel_urls ::
    "(string \<Rightarrow> string option) \<Rightarrow> onvif_scanner \<Rightarrow> string \<Rightarrow> int list \<Rightarrow> string list" where
  "channel_urls shell sc ip [] = []"
| "channel_urls shell sc ip (ch # chs) =
     (case shell (channel_command ip (on_profile sc) ch) of
        None \<Rightarrow> []
      | Some out \<Rightarrow>
        (let result = strip_eols (fgets_text 512 out)
         in if url_failed result then
              (if ch = 0 then
                 (let fallback_url = getSingleRtspUrl shell sc ip
                  in if fallback_url \<noteq> [] then [fallback_url] else [])
               else [])
            else insert_credentials result # channel_urls shell sc ip chs))"

definition getRtspUrls :: "(string \<Rightarrow> string option) \<Rightarrow> onvif_scanner \<Rightarrow> string \<Rightarrow> string list" where
  "getRtspUrls shell sc ip = channel_urls shell sc ip [0, 1, 2, 3]"

section \<open>Reporting cameras\<close>

definition camera_id :: "string \<Rightarrow> nat \<Rightarrow> string" where
  "camera_id ip i = ''Hanwha_'' @ ip @ ''_CH_'' @ nat_to_dec i"

definition camera_info :: "string \<Rightarrow> nat \<Rightarrow> string \<Rightarrow> device_info" where
  "camera_info ip i url =
     (default_device_info HANWHA)
       \<lparr>dev_id := camera_id ip i, dev_ip := ip, dev_source_url := url, dev_is_online := True,
        dev_command_socket_fd := -1\<rparr>"

fun report_cameras ::
    "(device_info \<Rightarrow> 'w \<Rightarrow> exn + 'w) \<Rightarrow> string \<Rightarrow> nat \<Rightarrow> string list \<Rightarrow> 'w \<Rightarrow> exn + 'w" where
  "report_cameras found ip i [] w = Inr w"
| "report_cameras found ip i (url # urls) w =
     rbind (found (camera_info ip i url) w) (report_cameras found ip (Suc i) urls)"

definition fail_count :: "string \<Rightarrow> onvif_scanner \<Rightarrow> nat" where
  "fail_count ip sc = (case om_find ip (on_fail_count sc) of Some n \<Rightarrow> n | None \<Rightarrow> 0)"

text \<open>
  What a probe answer and an ARP entry have in common: the camera is queried unless its first
  channel is registered or an earlier query failed. \<open>sunapi_fail_count_[ip]\<close> makes an entry.
\<close>

definition try_camera ::
    "(string \<Rightarrow> string option) \<Rightarrow> (string \<Rightarrow> 'w \<Rightarrow> bool) \<Rightarrow> (device_info \<Rightarrow> 'w \<Rightarrow> exn + 'w) \<Rightarrow> string \<Rightarrow>
     onvif_scanner \<times> 'w \<Rightarrow> exn + (onvif_scanner \<times> 'w)" where
  "try_camera shell is_registered found ip st =
     (case st of (sc, w) \<Rightarrow>
        if is_registered (camera_id ip 0) w then Inr (sc, w)
        else
          (let n = fail_count ip sc;
               sc1 = sc\<lparr>on_fail_count := om_assign ip n (on_fail_count sc)\<rparr>
           in if 1 \<le> n then Inr (sc1, w)
              else
                (let urls = getRtspUrls shell sc1 ip
                 in if urls = [] then Inr (sc1\<lparr>on_fail_count := om_assign ip (n + 1) (on_fail_count sc1)\<rparr>, w)
                    else rbind (report_cameras found ip 0 urls w) (\<lambda>w1. Inr (sc1, w1)))))"

text \<open>One datagram of \<open>runScan\<close>.\<close>

definition probe_answer ::
    "(string \<Rightarrow> string option) \<Rightarrow> (string \<Rightarrow> 'w \<Rightarrow> bool) \<Rightarrow> (device_info \<Rightarrow> 'w \<Rightarrow> exn + 'w) \<Rightarrow> bytes \<Rightarrow>
     string \<Rightarrow> onvif_scanner \<times> 'w \<Rightarrow> exn + (onvif_scanner \<times> 'w)" where
  "probe_answer shell is_registered found datagram cam_ip st =
     (if str_contains ''ProbeMatch'' (c_str (take 4095 datagram))
      then try_camera shell is_registered found cam_ip st else Inr st)"

section \<open>The ARP table\<close>

fun split_at :: "(char \<Rightarrow> bool) \<Rightarrow> string \<Rightarrow> string list" where
  "split_at p [] = [[]]"
| "split_at p (c # cs) =
     (if p c then [] # split_at p cs
      else (case split_at p cs of [] \<Rightarrow> [[c]] | w # ws \<Rightarrow> (c # w) # ws))"

text \<open>\<open>getline\<close> until the end: a text that ends in a newline has no empty line after it.\<close>

definition lines_of :: "string \<Rightarrow> string list" where
  "lines_of s =
     (let ls = split_at (\<lambda>c. c = CHR 0x0A) s in if last ls = [] then butlast ls else ls)"

definition is_blank :: "char \<Rightarrow> bool" where
  "is_blank c = (c = CHR '' '' \<or> (0x09 \<le> (of_char c :: nat) \<and> (of_char c :: nat) \<le> 0x0D))"

definition words_of :: "string \<Rightarrow> string list" where
  "words_of s = filter (\<lambda>w. w \<noteq> []) (split_at is_blank s)"

definition nth_word :: "nat \<Rightarrow> string \<Rightarrow> string" where
  "nth_word i line = (if i < length (words_of line) then words_of line ! i else [])"

definition hanwha_oui :: string where
  "hanwha_oui = ''e4:30:22''"

definition getHanwhaIpsFromArp :: "string option \<Rightarrow> string list" where
  "getHanwhaIpsFromArp arp =
     (case arp of
        None \<Rightarrow> []
      | Some content \<Rightarrow>
        map (nth_word 0)
          (filter (\<lambda>line. take 8 (nth_word 3 line) = hanwha_oui) (drop 1 (lines_of content))))"

fun arp_scan ::
    "(string \<Rightarrow> string option) \<Rightarrow> (string \<Rightarrow> 'w \<Rightarrow> bool) \<Rightarrow> (device_info \<Rightarrow> 'w \<Rightarrow> exn + 'w) \<Rightarrow> string list \<Rightarrow>
     onvif_scanner \<times> 'w \<Rightarrow> exn + (onvif_scanner \<times> 'w)" where
  "arp_scan shell is_registered found [] st = Inr st"
| "arp_scan shell is_registered found (ip # ips) st =
     rbind (try_camera shell is_registered found ip st) (arp_scan shell is_registered found ips)"

text \<open>The entries are visited while \<open>is_running_\<close> holds, which it does \<open>running\<close> times.\<close>

definition arpFallbackScan ::
    "(string \<Rightarrow> string option) \<Rightarrow> (string \<Rightarrow> 'w \<Rightarrow> bool) \<Rightarrow> (device_info \<Rightarrow> 'w \<Rightarrow> exn + 'w) \<Rightarrow> string option \<Rightarrow>
     nat \<Rightarrow> onvif_scanner \<times> 'w \<Rightarrow> exn + (onvif_scanner \<times> 'w)" where
  "arpFallbackScan shell is_registered found arp running st =
     arp_scan shell is_registered found (take running (getHanwhaIpsFromArp arp)) st"

section \<open>The scanner thread\<close>

definition xml_attr :: "string \<Rightarrow> string \<Rightarrow> string" where
  "xml_attr name value = name @ ''='' @ quote @ value @ quote"

definition ONVIF_PROBE_MSG :: string where
  "ONVIF_PROBE_MSG =
     ''<?xml '' @ xml_attr ''version'' ''1.0'' @ '' '' @ xml_attr ''encoding'' ''UTF-8'' @ ''?>'' @
     ''<e:Envelope '' @ xml_attr ''xmlns:e'' ''http://www.w3.org/2003/05/soap-envelope'' @ '' '' @
     xml_attr ''xmlns:w'' ''http://schemas.xmlsoap.org/ws/2004/08/addressing'' @ '' '' @
     xml_attr ''xmlns:d'' ''http://schemas.xmlsoap.org/ws/2005/04/discovery'' @ '' '' @
     xml_attr ''xmlns:dn'' ''http://www.onvif.org/ver10/network/wsdl'' @ ''>'' @
     ''<e:Header>'' @
     ''<w:MessageID>uuid:84ede3de-7dec-11d0-c360-f01234567890</w:MessageID>'' @
     ''<w:To '' @ xml_attr ''e:mustUnderstand'' ''true'' @
     ''>urn:schemas-xmlsoap-org:ws:2005:04:discovery</w:To>'' @
     ''<w:Action '' @ xml_attr ''e:mustUnderstand'' ''true'' @
     ''>http://schemas.xmlsoap.org/ws/2005/04/discovery/Probe</w:Action>'' @
     ''</e:Header>'' @
     ''<e:Body>'' @
     ''<d:Probe>'' @
     ''<d:Types>dn:NetworkVideoTransmitter</d:Types>'' @
     ''</d:Probe>'' @
     ''</e:Body>'' @
     ''</e:Envelope>''"

text \<open>
  What one turn of the thread receives: the datagrams with their senders until \<open>recvfrom\<close> times out,
  then the ARP table and how long \<open>is_running_\<close> still holds.
\<close>

record scan_input =
  si_answers :: "(bytes \<times> string) list"
  si_arp :: "string option"
  si_running :: nat

fun probe_answers ::
    "(string \<Rightarrow> string option) \<Rightarrow> (string \<Rightarrow> 'w \<Rightarrow> bool) \<Rightarrow> (device_info \<Rightarrow> 'w \<Rightarrow> exn + 'w) \<Rightarrow>
     (bytes \<times> string) list \<Rightarrow> onvif_scanner \<times> 'w \<Rightarrow> exn + (onvif_scanner \<times> 'w)" where
  "probe_answers shell is_registered found [] st = Inr st"
| "probe_answers shell is_registered found ((datagram, cam_ip) # rest) st =
     rbind (probe_answer shell is_registered found datagram cam_ip st)
       (probe_answers shell is_registered found rest)"

definition scan_turn ::
    "(string \<Rightarrow> string option) \<Rightarrow> (string \<Rightarrow> 'w \<Rightarrow> bool) \<Rightarrow> (device_info \<Rightarrow> 'w \<Rightarrow> exn + 'w) \<Rightarrow> scan_input \<Rightarrow>
     onvif_scanner \<times> 'w \<Rightarrow> exn + (onvif_scanner \<times> 'w)" where
  "scan_turn shell is_registered found inp st =
     rbind (probe_answers shell is_registered found (si_answers inp) st)
       (arpFallbackScan shell is_registered found (si_arp inp) (si_running inp))"

text \<open>The turns until \<open>is_running_\<close> is reset; each begins with a probe, and what is sent is returned.\<close>

fun scan_turns ::
    "(string \<Rightarrow> string option) \<Rightarrow> (string \<Rightarrow> 'w \<Rightarrow> bool) \<Rightarrow> (device_info \<Rightarrow> 'w \<Rightarrow> exn + 'w) \<Rightarrow>
     scan_input list \<Rightarrow> onvif_scanner \<times> 'w \<Rightarrow> exn + (bytes list \<times> onvif_scanner \<times> 'w)" where
  "scan_turns shell is_registered found [] st = Inr ([], st)"
| "scan_turns shell is_registered found (inp # inps) st =
     rbind (scan_turn shell is_registered found inp st) (\<lambda>st1.
     rbind (scan_turns shell is_registered found inps st1) (\<lambda>(sent, st2).
       Inr (ONVIF_PROBE_MSG # sent, st2)))"

definition runScan ::
    "(string \<Rightarrow> string option) \<Rightarrow> (string \<Rightarrow> 'w \<Rightarrow> bool) \<Rightarrow> (device_info \<Rightarrow> 'w \<Rightarrow> exn + 'w) \<Rightarrow> fd \<Rightarrow>
     scan_input list \<Rightarrow> onvif_scanner \<times> 'w \<Rightarrow> exn + (bytes list \<times> onvif_scanner \<times> 'w)" where
  "runScan shell is_registered found sockfd inps st =
     (if sockfd < 0 then Inr ([], st) else scan_turns shell is_registered found inps st)"

end
