(* ===== verification/RtspServer.thy ===== *)
theory RtspServer
  imports Protocol StdMap
begin

text \<open>
  \<open>DeviceServer/src/RtspServer.cpp\<close>. GStreamer is not under src/; what the program sees of it is the
  table of mount points, a map from paths to the launch lines of the factories. It exists once
  \<open>start\<close> has made the server, and not after \<open>stop\<close>.
\<close>

record rtsp_server =
  rs_running :: bool
  rs_mounts :: "(string, string) omap option"

definition rtsp_init :: rtsp_server where
  "rtsp_init = \<lparr>rs_running = False, rs_mounts = None\<rparr>"

text \<open>The server and its mount points are made unless they are there.\<close>

definition rtsp_start :: "rtsp_server \<Rightarrow> rtsp_server" where
  "rtsp_start rs =
     (if rs_running rs then rs
      else rs\<lparr>rs_running := True,
              rs_mounts := (case rs_mounts rs of None \<Rightarrow> Some [] | Some m \<Rightarrow> Some m)\<rparr>)"

definition rtsp_stop :: "rtsp_server \<Rightarrow> rtsp_server" where
  "rtsp_stop rs = (if \<not> rs_running rs then rs else rs\<lparr>rs_running := False, rs_mounts := None\<rparr>)"

definition relay_path :: "string \<Rightarrow> string" where
  "relay_path device_id = ''/'' @ device_id"

definition queue_element :: string where
  "queue_element = ''queue max-size-buffers=200 max-size-bytes=10485760 max-size-time=0 ! ''"

definition pipeline_text :: "int \<Rightarrow> string" where
  "pipeline_text port =
     ''( udpsrc port='' @ to_string port @ '' buffer-size=2097152'' @
     '' caps='' @ [CHR 0x22] @ ''application/x-rtp, media=(string)video, clock-rate=(int)90000,'' @
     '' encoding-name=(string)H264, payload=96'' @ [CHR 0x22] @ '' ! '' @
     queue_element @ ''rtph264depay ! '' @ queue_element @
     ''h264parse config-interval=-1 ! '' @ ''rtph264pay name=pay0 pt=96 config-interval=1 )''"

definition removeRelayPath :: "string \<Rightarrow> rtsp_server \<Rightarrow> rtsp_server" where
  "removeRelayPath device_id rs =
     (case rs_mounts rs of
        None \<Rightarrow> rs
      | Some m \<Rightarrow> rs\<lparr>rs_mounts := Some (om_erase (relay_path device_id) m)\<rparr>)"

definition addRelayPath :: "device_info \<Rightarrow> rtsp_server \<Rightarrow> rtsp_server" where
  "addRelayPath info rs =
     (case rs_mounts rs of
        None \<Rightarrow> rs
      | Some _ \<Rightarrow>
        (if dev_type info \<noteq> SUB_PI then rs
         else
           (let rs1 = removeRelayPath (dev_id info) rs
            in case rs_mounts rs1 of
                 None \<Rightarrow> rs1
               | Some m \<Rightarrow>
                 rs1\<lparr>rs_mounts := Some (om_assign (relay_path (dev_id info))
                                       (pipeline_text (dev_udp_listen_port info)) m)\<rparr>)))"

end
