(* ===== verification/ClientThreads.thy ===== *)
theory ClientThreads
  imports StdMap
begin

text \<open>
  What \<open>QtCommServer\<close> and \<open>InternalServer\<close> do alike: the accept loop, one handler thread per
  client, and the clean-up of finished threads. A step is what one thread does between two
  points where another can interfere: the \<open>accept\<close> with the bookkeeping after it, the
  \<open>close\<close> of a handler, its removal from \<open>client_fds_\<close> under \<open>client_mutex_\<close>, its entry in
  \<open>finished_fds_\<close> under \<open>finished_mutex_\<close>, and \<open>cleanupFinishedThreads\<close>.

  A descriptor number is free for the kernel to hand out again as soon as it is closed. Giving a
  new value to a \<open>std::thread\<close> that was not joined is \<open>std::terminate\<close>.
\<close>

section \<open>State\<close>

text \<open>Where the handler of a thread stands. The \<open>std::thread\<close> is joinable in all of them.\<close>

datatype handler_pc = Serving | Closed | Unlisted | Ended

text \<open>Where the accept loop stands: before the clean-up, or blocked in \<open>accept\<close>.\<close>

datatype acceptor_pc = Cleaning | Accepting

record conns =
  cn_running :: bool
  cn_server_fd :: fd
  cn_open :: "fd list"
  cn_client_fds :: "fd list"
  cn_threads :: "(fd, handler_pc) omap"
  cn_finished :: "(fd, unit) omap"
  cn_acceptor :: acceptor_pc
  cn_terminated :: bool

definition conns_init :: conns where
  "conns_init =
     \<lparr>cn_running = True, cn_server_fd = 3, cn_open = [], cn_client_fds = [], cn_threads = [],
      cn_finished = [], cn_acceptor = Cleaning, cn_terminated = False\<rparr>"

section \<open>Operations\<close>

text \<open>\<open>cleanupFinishedThreads\<close>: the set is swapped out, then each of its threads joined and erased.\<close>

definition cleanupFinishedThreads :: "'a conns_scheme \<Rightarrow> 'a conns_scheme" where
  "cleanupFinishedThreads c =
     (if cn_finished c = [] then c
      else c\<lparr>cn_finished := [], cn_threads := fold om_erase (os_elems (cn_finished c)) (cn_threads c)\<rparr>)"

text \<open>
  After a successful \<open>accept\<close>: the descriptor is listed, then the new thread is assigned to its
  entry. \<open>None\<close> is \<open>std::terminate\<close>.
\<close>

definition list_client :: "fd \<Rightarrow> 'a conns_scheme \<Rightarrow> 'a conns_scheme" where
  "list_client fd c = c\<lparr>cn_client_fds := cn_client_fds c @ [fd]\<rparr>"

definition start_handler :: "fd \<Rightarrow> 'a conns_scheme \<Rightarrow> 'a conns_scheme option" where
  "start_handler fd c =
     (case om_find fd (cn_threads c) of
        None \<Rightarrow> Some (c\<lparr>cn_threads := om_assign fd Serving (cn_threads c)\<rparr>)
      | Some _ \<Rightarrow> None)"

definition accept_client :: "fd \<Rightarrow> 'a conns_scheme \<Rightarrow> 'a conns_scheme option" where
  "accept_client fd c = start_handler fd (list_client fd (c\<lparr>cn_open := fd # cn_open c\<rparr>))"

text \<open>The end of a handler.\<close>

definition set_pc :: "fd \<Rightarrow> handler_pc \<Rightarrow> 'a conns_scheme \<Rightarrow> 'a conns_scheme" where
  "set_pc fd pc c = c\<lparr>cn_threads := om_assign fd pc (cn_threads c)\<rparr>"

definition handler_close :: "fd \<Rightarrow> 'a conns_scheme \<Rightarrow> 'a conns_scheme" where
  "handler_close fd c = set_pc fd Closed (c\<lparr>cn_open := removeAll fd (cn_open c)\<rparr>)"

definition handler_unlist :: "fd \<Rightarrow> 'a conns_scheme \<Rightarrow> 'a conns_scheme" where
  "handler_unlist fd c = set_pc fd Unlisted (c\<lparr>cn_client_fds := removeAll fd (cn_client_fds c)\<rparr>)"

definition handler_finish :: "fd \<Rightarrow> 'a conns_scheme \<Rightarrow> 'a conns_scheme" where
  "handler_finish fd c = set_pc fd Ended (c\<lparr>cn_finished := os_insert fd (cn_finished c)\<rparr>)"

text \<open>
  The early \<open>return\<close> of \<open>QtCommServer::clientHandler\<close> when its TLS session cannot be made: the
  descriptor is closed, but neither taken off the list nor reported as finished.
\<close>

definition handler_give_up :: "fd \<Rightarrow> 'a conns_scheme \<Rightarrow> 'a conns_scheme" where
  "handler_give_up fd c = set_pc fd Ended (c\<lparr>cn_open := removeAll fd (cn_open c)\<rparr>)"

section \<open>Steps\<close>

text \<open>
  \<open>may_give_up\<close> tells whether the server has the early return. \<open>cleanupFinishedThreads\<close> joins, so
  it takes place when the threads it joins have ended.
\<close>

inductive conns_step :: "bool \<Rightarrow> conns \<Rightarrow> conns \<Rightarrow> bool" for may_give_up :: bool where
  cleanup: "\<not> cn_terminated c \<Longrightarrow> cn_acceptor c = Cleaning \<Longrightarrow>
    \<forall>fd \<in> set (os_elems (cn_finished c)). om_find fd (cn_threads c) \<in> {None, Some Ended} \<Longrightarrow>
    conns_step may_give_up c ((cleanupFinishedThreads c)\<lparr>cn_acceptor := Accepting\<rparr>)"
| accept: "\<not> cn_terminated c \<Longrightarrow> cn_acceptor c = Accepting \<Longrightarrow> fd \<notin> set (cn_open c) \<Longrightarrow>
    accept_client fd c = Some c' \<Longrightarrow> conns_step may_give_up c (c'\<lparr>cn_acceptor := Cleaning\<rparr>)"
| accept_terminates: "\<not> cn_terminated c \<Longrightarrow> cn_acceptor c = Accepting \<Longrightarrow> fd \<notin> set (cn_open c) \<Longrightarrow>
    accept_client fd c = None \<Longrightarrow> conns_step may_give_up c (c\<lparr>cn_terminated := True\<rparr>)"
| close: "\<not> cn_terminated c \<Longrightarrow> om_find fd (cn_threads c) = Some Serving \<Longrightarrow>
    conns_step may_give_up c (handler_close fd c)"
| unlist: "\<not> cn_terminated c \<Longrightarrow> om_find fd (cn_threads c) = Some Closed \<Longrightarrow>
    conns_step may_give_up c (handler_unlist fd c)"
| finish: "\<not> cn_terminated c \<Longrightarrow> om_find fd (cn_threads c) = Some Unlisted \<Longrightarrow>
    conns_step may_give_up c (handler_finish fd c)"
| give_up: "\<not> cn_terminated c \<Longrightarrow> may_give_up \<Longrightarrow> om_find fd (cn_threads c) = Some Serving \<Longrightarrow>
    conns_step may_give_up c (handler_give_up fd c)"

inductive conns_reachable :: "bool \<Rightarrow> conns \<Rightarrow> bool" for may_give_up :: bool where
  start: "conns_reachable may_give_up conns_init"
| step: "conns_reachable may_give_up c \<Longrightarrow> conns_step may_give_up c c' \<Longrightarrow>
    conns_reachable may_give_up c'"

inductive_cases conns_stepE: "conns_step may_give_up c c'"

section \<open>Invariant\<close>

text \<open>
  While nothing was terminated: the list used for broadcasts holds every client from \<open>accept\<close> until
  its handler takes it off, once; the open descriptors are those of the handlers still serving;
  the threads reported as finished have ended; and, without the early return, every ended
  thread is reported.
\<close>

definition conns_inv :: "bool \<Rightarrow> conns \<Rightarrow> bool" where
  "conns_inv may_give_up c =
     (om_wf (cn_threads c) \<and> om_wf (cn_finished c) \<and>
      (\<forall>fd. fd \<in> set (cn_open c) \<longleftrightarrow> om_find fd (cn_threads c) = Some Serving) \<and>
      (\<forall>fd. os_member fd (cn_finished c) \<longrightarrow> om_find fd (cn_threads c) = Some Ended) \<and>
      (\<not> may_give_up \<longrightarrow>
         (\<forall>fd. om_find fd (cn_threads c) = Some Ended \<longrightarrow> os_member fd (cn_finished c)) \<and>
         distinct (cn_client_fds c) \<and>
         (\<forall>fd. fd \<in> set (cn_client_fds c) \<longleftrightarrow>
            om_find fd (cn_threads c) = Some Serving \<or> om_find fd (cn_threads c) = Some Closed)))"

lemma conns_inv_init: "conns_inv g conns_init"
  by (simp add: conns_inv_def conns_init_def)

lemma cleanup_threads:
  assumes "om_wf (cn_threads c)"
  shows "om_find fd (cn_threads (cleanupFinishedThreads c)) =
    (if os_member fd (cn_finished c) then None else om_find fd (cn_threads c))"
  using om.find_fold_erase [OF assms, of fd "os_elems (cn_finished c)"]
  by (auto simp: cleanupFinishedThreads_def os_member_elems [symmetric])

lemma conns_inv_cleanup:
  assumes "conns_inv g c"
  shows "conns_inv g ((cleanupFinishedThreads c)\<lparr>cn_acceptor := Accepting\<rparr>)"
proof -
  have wf: "om_wf (cn_threads c)" using assms by (simp add: conns_inv_def)
  have "om_wf (cn_threads (cleanupFinishedThreads c))"
    using om.invar_fold_erase [OF wf] wf by (simp add: cleanupFinishedThreads_def)
  moreover have "cn_finished (cleanupFinishedThreads c) = []"
    "cn_open (cleanupFinishedThreads c) = cn_open c"
    "cn_client_fds (cleanupFinishedThreads c) = cn_client_fds c"
    by (auto simp: cleanupFinishedThreads_def)
  ultimately show ?thesis
    using assms unfolding conns_inv_def by (simp add: cleanup_threads [OF wf]) (metis handler_pc.distinct option.inject)
qed

lemma accept_client_Some:
  "accept_client fd c = Some c' \<Longrightarrow> om_find fd (cn_threads c) = None \<and>
    c' = c\<lparr>cn_open := fd # cn_open c, cn_client_fds := cn_client_fds c @ [fd],
           cn_threads := om_assign fd Serving (cn_threads c)\<rparr>"
  by (auto simp: accept_client_def start_handler_def list_client_def split: option.splits)

lemma conns_inv_accept:
  "conns_inv g c \<Longrightarrow> accept_client fd c = Some c' \<Longrightarrow> conns_inv g (c'\<lparr>cn_acceptor := Cleaning\<rparr>)"
  by (drule accept_client_Some) (auto simp: conns_inv_def om_wf_assign om_find_assign)

lemma conns_inv_close:
  "conns_inv g c \<Longrightarrow> om_find fd (cn_threads c) = Some Serving \<Longrightarrow> conns_inv g (handler_close fd c)"
  by (auto simp: conns_inv_def handler_close_def set_pc_def om_wf_assign om_find_assign)

lemma conns_inv_unlist:
  "conns_inv g c \<Longrightarrow> om_find fd (cn_threads c) = Some Closed \<Longrightarrow> conns_inv g (handler_unlist fd c)"
  by (auto simp: conns_inv_def handler_unlist_def set_pc_def om_wf_assign om_find_assign distinct_removeAll)

lemma conns_inv_finish:
  "conns_inv g c \<Longrightarrow> om_find fd (cn_threads c) = Some Unlisted \<Longrightarrow> conns_inv g (handler_finish fd c)"
  by (auto simp: conns_inv_def handler_finish_def set_pc_def om_wf_assign om_find_assign omap_simps)

lemma conns_inv_give_up:
  "conns_inv g c \<Longrightarrow> g \<Longrightarrow> om_find fd (cn_threads c) = Some Serving \<Longrightarrow> conns_inv g (handler_give_up fd c)"
  by (auto simp: conns_inv_def handler_give_up_def set_pc_def om_wf_assign om_find_assign)

lemma conns_inv_step:
  "conns_step g c c' \<Longrightarrow> conns_inv g c \<Longrightarrow> cn_terminated c' \<or> conns_inv g c'"
  by (induction rule: conns_step.induct)
    (auto intro: conns_inv_cleanup conns_inv_accept conns_inv_close conns_inv_unlist
      conns_inv_finish conns_inv_give_up)

lemma conns_reachable_inv: "conns_reachable g c \<Longrightarrow> cn_terminated c \<or> conns_inv g c"
proof (induction rule: conns_reachable.induct)
  case (step c c')
  then have "\<not> cn_terminated c" by (auto elim: conns_stepE)
  with step conns_inv_step show ?case by blast
qed (simp add: conns_inv_init)

section \<open>Properties of the bookkeeping\<close>


text \<open>A client that connects as descriptor \<open>fd\<close>, and one that goes away again.\<close>

definition after_connect :: "fd \<Rightarrow> conns" where
  "after_connect fd =
     (the (accept_client fd (conns_init\<lparr>cn_acceptor := Accepting\<rparr>)))\<lparr>cn_acceptor := Cleaning\<rparr>"

definition after_disconnect :: "fd \<Rightarrow> conns" where
  "after_disconnect fd =
     handler_finish fd (handler_unlist fd (handler_close fd ((after_connect fd)\<lparr>cn_acceptor := Accepting\<rparr>)))"

lemma after_connect_simp:
  "after_connect fd = conns_init\<lparr>cn_open := [fd], cn_client_fds := [fd], cn_threads := [(fd, Serving)]\<rparr>"
  by (simp add: after_connect_def accept_client_def start_handler_def list_client_def conns_init_def)

lemma after_disconnect_simp:
  "after_disconnect fd = conns_init\<lparr>cn_threads := [(fd, Ended)], cn_finished := os_insert fd [],
     cn_acceptor := Accepting\<rparr>"
  by (simp add: after_disconnect_def after_connect_simp handler_finish_def handler_unlist_def
      handler_close_def set_pc_def conns_init_def)

lemma init_accepting_reachable: "conns_reachable g (conns_init\<lparr>cn_acceptor := Accepting\<rparr>)"
proof -
  have "conns_step g conns_init ((cleanupFinishedThreads conns_init)\<lparr>cn_acceptor := Accepting\<rparr>)"
    by (rule conns_step.cleanup) (simp_all add: conns_init_def os_elems_def)
  then show ?thesis
    using conns_reachable.intros by (simp add: cleanupFinishedThreads_def conns_init_def) blast
qed

lemma after_connect_reachable: "conns_reachable g (after_connect fd)"
proof -
  let ?a = "conns_init\<lparr>cn_acceptor := Accepting\<rparr>"
  obtain c' where c': "accept_client fd ?a = Some c'"
    by (simp add: accept_client_def start_handler_def list_client_def conns_init_def)
  have "conns_step g ?a (c'\<lparr>cn_acceptor := Cleaning\<rparr>)"
    by (rule conns_step.accept [OF _ _ _ c']) (simp_all add: conns_init_def)
  from conns_reachable.step [OF init_accepting_reachable this] c' show ?thesis
    by (simp add: after_connect_def)
qed

lemma after_disconnect_reachable: "conns_reachable g (after_disconnect fd)"
proof -
  let ?c0 = "(after_connect fd)\<lparr>cn_acceptor := Accepting\<rparr>"
  have "conns_step g (after_connect fd) ((cleanupFinishedThreads (after_connect fd))\<lparr>cn_acceptor := Accepting\<rparr>)"
    by (rule conns_step.cleanup) (simp_all add: after_connect_simp conns_init_def os_elems_def)
  moreover have "cleanupFinishedThreads (after_connect fd) = after_connect fd"
    by (simp add: cleanupFinishedThreads_def after_connect_simp conns_init_def)
  ultimately have 0: "conns_reachable g ?c0"
    using conns_reachable.step [OF after_connect_reachable] by metis
  have "conns_step g ?c0 (handler_close fd ?c0)"
    by (rule conns_step.close) (simp_all add: after_connect_simp conns_init_def)
  note 1 = conns_reachable.step [OF 0 this]
  have "conns_step g (handler_close fd ?c0) (handler_unlist fd (handler_close fd ?c0))"
    by (rule conns_step.unlist) (simp_all add: after_connect_simp conns_init_def handler_close_def set_pc_def)
  note 2 = conns_reachable.step [OF 1 this]
  have "conns_step g (handler_unlist fd (handler_close fd ?c0)) (after_disconnect fd)"
    unfolding after_disconnect_def
    by (rule conns_step.finish)
      (simp_all add: after_connect_simp conns_init_def handler_close_def handler_unlist_def set_pc_def)
  from conns_reachable.step [OF 2 this] show ?thesis .
qed

text \<open>
  C1: one client that connects and goes away is enough: the server is then blocked in \<open>accept\<close> with
  the ended handler reported but not joined, and if the kernel gives the next client the same
  descriptor, as it does when that is the lowest free one, the assignment to
  \<open>client_threads_[client_fd]\<close> terminates the process.
\<close>

theorem reconnect_terminates:
  "conns_reachable False (after_disconnect fd) \<and> cn_open (after_disconnect fd) = [] \<and>
   os_member fd (cn_finished (after_disconnect fd)) \<and> accept_client fd (after_disconnect fd) = None \<and>
   conns_reachable False ((after_disconnect fd)\<lparr>cn_terminated := True\<rparr>)"
proof -
  have none: "accept_client fd (after_disconnect fd) = None"
    by (simp add: after_disconnect_simp accept_client_def start_handler_def list_client_def)
  have "conns_step False (after_disconnect fd) ((after_disconnect fd)\<lparr>cn_terminated := True\<rparr>)"
    by (rule conns_step.accept_terminates [OF _ _ _ none]) (simp_all add: after_disconnect_simp conns_init_def)
  with none conns_reachable.step [OF after_disconnect_reachable this] after_disconnect_reachable show ?thesis
    by (simp add: after_disconnect_simp conns_init_def omap_simps)
qed

lemma handler_pc_cases: "x \<in> {None, Some Serving, Some Closed, Some Unlisted, Some Ended}"
proof (cases x)
  case (Some p)
  then show ?thesis by (cases p) auto
qed simp

text \<open>
  \<open>accept\<close> terminates the process exactly when the new descriptor is that of a handler which has
  closed it but was not joined yet. Joining every reported thread first would be enough: right
  after a clean-up with all handlers serving or ended, no descriptor terminates it.
\<close>

lemma accept_terminates_iff:
  assumes "conns_reachable False c" "\<not> cn_terminated c" "fd \<notin> set (cn_open c)"
  shows "(accept_client fd c = None \<longleftrightarrow>
      om_find fd (cn_threads c) \<in> {Some Closed, Some Unlisted, Some Ended}) \<and>
    (om_find fd (cn_threads c) \<in> {None, Some Ended} \<longrightarrow>
      accept_client fd (cleanupFinishedThreads c) \<noteq> None)"
proof -
  have inv: "conns_inv False c" using conns_reachable_inv [OF assms(1)] assms(2) by simp
  then have wf: "om_wf (cn_threads c)" and ns: "om_find fd (cn_threads c) \<noteq> Some Serving"
    using assms(3) by (auto simp: conns_inv_def)
  have all: "om_find fd (cn_threads c) \<in> {None, Some Serving, Some Closed, Some Unlisted, Some Ended}"
    by (rule handler_pc_cases)
  have acc: "accept_client fd d = None \<longleftrightarrow> om_find fd (cn_threads d) \<noteq> None" for d :: conns
    by (auto simp: accept_client_def start_handler_def list_client_def split: option.split)
  have "om_find fd (cn_threads (cleanupFinishedThreads c)) = None"
    if "om_find fd (cn_threads c) \<in> {None, Some Ended}"
    using that inv cleanup_threads [OF wf, of fd] by (auto simp: conns_inv_def)
  with acc all ns show ?thesis by auto
qed


lemma accept_terminates_iff_witness:
  "accept_client 5 (after_disconnect 5) = None \<and> accept_client 5 (cleanupFinishedThreads (after_disconnect 5)) \<noteq> None"
  using accept_terminates_iff [OF after_disconnect_reachable [of False 5], of 5]
  by (simp add: after_disconnect_simp conns_init_def)

end
