(* ===== verification/Broadcast.thy ===== *)
theory Broadcast
  imports Framing
begin

text \<open>
  The loops over \<open>client_fds_\<close> of both servers, and the contract of what they call: a send touches one
  connection, keeps what decides who is sent to, and only appends to the stream. The servers'
  send functions interpret the locales in their own theories.
\<close>

text \<open>A loop over \<open>client_fds_\<close> that sends to some of them; an exception leaves it.\<close>

fun send_each ::
    "(fd \<Rightarrow> 'q \<Rightarrow> 'e + (bool \<times> 'q)) \<Rightarrow> fd list \<Rightarrow> 'q \<Rightarrow> 'e + 'q" where
  "send_each send [] q = Inr q"
| "send_each send (fd # fds) q = rbind (send fd q) (\<lambda>(r, q'). send_each send fds q')"

lemma send_each_returns:
  "(\<And>fd q. \<exists>x. send fd q = Inr x) \<Longrightarrow> \<exists>q'. send_each send fds q = Inr q'"
proof (induction fds arbitrary: q)
  case (Cons fd fds)
  from Cons.prems obtain r q1 where "send fd q = Inr (r, q1)" by (metis prod.exhaust)
  with Cons.IH [of q1] Cons.prems show ?case by simp
qed simp

section \<open>Who is touched\<close>

locale sender =
  fixes net_of :: "'q \<Rightarrow> net"
    and kept :: "'q \<Rightarrow> 'k"
    and send :: "fd \<Rightarrow> 'q \<Rightarrow> 'e + (bool \<times> 'q)"
    and may :: "fd \<Rightarrow> 'k \<Rightarrow> bool"
  assumes send_other: "send fd q = Inr (r, q') \<Longrightarrow> g \<noteq> fd \<Longrightarrow> net_of q' g = net_of q g"
    and send_keeps: "send fd q = Inr (r, q') \<Longrightarrow> kept q' = kept q"
    and send_not: "\<not> may fd (kept q) \<Longrightarrow> send fd q = Inr (False, q)"
begin

lemma each_Cons:
  "send_each send (fd # fds) q = Inr q' \<longleftrightarrow>
   (\<exists>r q1. send fd q = Inr (r, q1) \<and> send_each send fds q1 = Inr q')"
  by (auto simp: rbind_Inr_iff)

lemma each_keeps: "send_each send fds q = Inr q' \<Longrightarrow> kept q' = kept q"
  by (induction fds arbitrary: q) (auto simp: each_Cons dest!: send_keeps simp del: send_each.simps(2))

lemma each_outside: "send_each send fds q = Inr q' \<Longrightarrow> g \<notin> set fds \<Longrightarrow> net_of q' g = net_of q g"
proof (induction fds arbitrary: q)
  case (Cons fd fds)
  then obtain r q1 where "send fd q = Inr (r, q1)" "send_each send fds q1 = Inr q'"
    by (auto simp: each_Cons simp del: send_each.simps(2))
  with Cons send_other [of fd q r q1 g] show ?case by simp
qed simp

text \<open>Nothing reaches a connection that is not to be sent to.\<close>

lemma each_spares: "send_each send fds q = Inr q' \<Longrightarrow> \<not> may g (kept q) \<Longrightarrow> net_of q' g = net_of q g"
proof (induction fds arbitrary: q)
  case (Cons fd fds)
  then obtain r q1 where s: "send fd q = Inr (r, q1)" "send_each send fds q1 = Inr q'"
    by (auto simp: each_Cons simp del: send_each.simps(2))
  have "net_of q1 g = net_of q g"
    using s(1) Cons.prems(2) send_other send_not by (cases "g = fd") auto
  with Cons.IH [OF s(2)] Cons.prems(2) send_keeps [OF s(1)] show ?case by simp
qed simp

end

section \<open>Who is reached\<close>

text \<open>On a connection that is \<open>plain\<close>, the send appends the same bytes for everyone.\<close>

locale delivering = sender net_of kept send may
  for net_of :: "'q \<Rightarrow> net" and kept :: "'q \<Rightarrow> 'k" and send :: "fd \<Rightarrow> 'q \<Rightarrow> 'e + (bool \<times> 'q)"
    and may :: "fd \<Rightarrow> 'k \<Rightarrow> bool" +
  fixes plain :: "fd \<Rightarrow> 'q \<Rightarrow> bool"
    and payload :: bytes
  assumes send_plain: "send fd q = Inr (r, q') \<Longrightarrow> may fd (kept q) \<Longrightarrow> plain fd q \<Longrightarrow> tx_ok (net_of q fd) \<Longrightarrow>
      sk_tx (net_of q' fd) = sk_tx (net_of q fd) @ payload"
    and plain_other: "send fd q = Inr (r, q') \<Longrightarrow> g \<noteq> fd \<Longrightarrow> plain g q' = plain g q"
    and send_tx: "send fd q = Inr (r, q') \<Longrightarrow> tx_ok (net_of q fd) \<Longrightarrow> tx_ok (net_of q' fd)"
begin

lemma each_tx_ok: "send_each send fds q = Inr q' \<Longrightarrow> tx_ok (net_of q g) \<Longrightarrow> tx_ok (net_of q' g)"
proof (induction fds arbitrary: q)
  case (Cons fd fds)
  then obtain r q1 where s: "send fd q = Inr (r, q1)" "send_each send fds q1 = Inr q'"
    by (auto simp: each_Cons simp del: send_each.simps(2))
  from send_tx [OF s(1)] send_other [OF s(1), of g] Cons.prems(2) have "tx_ok (net_of q1 g)" by (cases "g = fd") simp_all
  with Cons.IH [OF s(2)] show ?case .
qed simp

lemma each_delivers:
  assumes "send_each send fds q = Inr q'" "distinct fds" "g \<in> set fds" "may g (kept q)" "plain g q"
    and "tx_ok (net_of q g)"
  shows "sk_tx (net_of q' g) = sk_tx (net_of q g) @ payload"
  using assms
proof (induction fds arbitrary: q)
  case (Cons fd fds)
  then obtain r q1 where s: "send fd q = Inr (r, q1)" "send_each send fds q1 = Inr q'"
    by (auto simp: each_Cons simp del: send_each.simps(2))
  show ?case
  proof (cases "g = fd")
    case True
    with Cons.prems(2) have "g \<notin> set fds" by simp
    from each_outside [OF s(2) this] send_plain [OF s(1)] Cons.prems True show ?thesis by simp
  next
    case False
    from send_other [OF s(1) False] plain_other [OF s(1) False] send_keeps [OF s(1)] Cons False s(2)
    show ?thesis by simp
  qed
qed simp

end

section \<open>Packets that go out\<close>

lemma sendExact_other: "g \<noteq> fd \<Longrightarrow> snd (sendExact fd buf net) g = net g"
  by (auto simp: sendExact_def split: prod.splits)

lemma send_packet_other: "g \<noteq> fd \<Longrightarrow> snd (send_packet to_wire fd t body net) g = net g"
  using sendExact_other [of g fd]
  by (auto simp: send_packet_def split: prod.splits bool.splits) (metis snd_conv)+

lemma send_image_packet_other: "g \<noteq> fd \<Longrightarrow> snd (send_image_packet to_wire fd meta jpeg net) g = net g"
  using sendExact_other [of g fd]
  by (auto simp: send_image_packet_def split: prod.splits bool.splits) (metis snd_conv)+

lemma sendExact_tx_ok:
  assumes "tx_ok (net fd)"
  shows "fst (sendExact fd buf net) \<and> tx_ok (snd (sendExact fd buf net) fd)"
proof -
  obtain net1 where "sendExact fd buf net = (True, net1)" "tx_ok (net1 fd)"
    by (rule sendExact_ok [of net fd buf, OF assms])
  then show ?thesis by simp
qed

lemma send_packet_tx_ok:
  assumes "tx_ok (net fd)"
  shows "tx_ok (snd (send_packet to_wire fd t body net) fd)"
  using sendExact_tx_ok [of net fd, OF assms] sendExact_tx_ok [of _ fd body]
  by (auto simp: send_packet_def split: prod.split bool.split) (metis snd_conv)+

text \<open>Only a prefix of the packet is ever appended.\<close>

lemma send_packet_prefix:
  "\<exists>k. sk_tx (snd (send_packet to_wire fd t body net) fd)
     = sk_tx (net fd) @ take k (packet_bytes to_wire t body)"
proof -
  let ?h = "header_bytes \<lparr>ph_type = t, ph_body_length = to_wire (of_nat (length body))\<rparr>"
  obtain r1 net1 where 1: "sendExact fd ?h net = (r1, net1)" by force
  obtain r2 net2 where 2: "sendExact fd body net1 = (r2, net2)" by force
  obtain k1 where k1: "sk_tx (net1 fd) = sk_tx (net fd) @ take k1 ?h" "r1 \<longleftrightarrow> k1 = length ?h" "k1 \<le> length ?h"
    using sendExact_takes [of ?h fd net] 1 by auto
  obtain k2 where k2: "sk_tx (net2 fd) = sk_tx (net1 fd) @ take k2 body"
    using sendExact_takes [of body fd net1] 2 by auto
  show ?thesis
  proof (cases "r1 \<and> body \<noteq> []")
    case True
    with 1 2 k1 k2 show ?thesis
      by (intro exI [of _ "length ?h + k2"]) (simp add: send_packet_def packet_bytes_def)
  next
    case False
    with 1 k1 show ?thesis
      by (intro exI [of _ k1]) (auto simp: send_packet_def packet_bytes_def)
  qed
qed

end
