(* ===== verification/InternalServer.thy ===== *)
theory InternalServer
  imports ClientThreads Broadcast JsonParsed
begin

text \<open>
  \<open>DeviceServer/src/InternalServer.cpp\<close>: the server the ClientServer connects to. The state extends
  the connection bookkeeping of \<open>ClientThreads\<close> with the network. Headers carry the length in
  network byte order. The providers of the camera list and the device status are run by the
  caller, which passes their results (\<open>DeviceController\<close>).
\<close>

record internal_server = conns +
  is_net :: net

section \<open>Start and stop\<close>

definition is_start :: "fd \<Rightarrow> bool \<Rightarrow> bool \<Rightarrow> internal_server \<Rightarrow> internal_server" where
  "is_start server_fd bound listening s =
     (if cn_running s then s
      else if server_fd < 0 then s\<lparr>cn_server_fd := server_fd\<rparr>
      else if \<not> bound \<or> \<not> listening then s\<lparr>cn_server_fd := -1\<rparr>
      else s\<lparr>cn_server_fd := server_fd, cn_running := True, cn_acceptor := Cleaning\<rparr>)"

definition is_handler_end :: "fd \<Rightarrow> internal_server \<Rightarrow> internal_server" where
  "is_handler_end fd s =
     handler_finish fd (handler_unlist fd (handler_close fd (s\<lparr>is_net := sock_close fd (is_net s)\<rparr>)))"

text \<open>What is left of a handler that stands at some point of its end.\<close>

definition is_handler_drain :: "fd \<times> handler_pc \<Rightarrow> internal_server \<Rightarrow> internal_server" where
  "is_handler_drain h s =
     (case h of
        (fd, Serving) \<Rightarrow> is_handler_end fd s
      | (fd, Closed) \<Rightarrow> handler_finish fd (handler_unlist fd s)
      | (fd, Unlisted) \<Rightarrow> handler_finish fd s
      | (fd, Ended) \<Rightarrow> s)"

text \<open>\<open>shutdown\<close> lets the handlers see the end of their streams; after the joins the rest is closed.\<close>

definition is_stop :: "internal_server \<Rightarrow> internal_server" where
  "is_stop s =
     (if \<not> cn_running s then s
      else
        (let s1 = s\<lparr>cn_running := False, cn_server_fd := -1,
                    is_net := fold sock_shutdown (cn_client_fds s) (is_net s)\<rparr>;
             s2 = (fold is_handler_drain (cn_threads s1) s1)\<lparr>cn_threads := []\<rparr>
         in s2\<lparr>is_net := fold sock_close (cn_client_fds s2) (is_net s2), cn_client_fds := []\<rparr>))"

section \<open>Sending\<close>

definition is_sendMessage ::
    "fd \<Rightarrow> message_type \<Rightarrow> json \<Rightarrow> internal_server \<Rightarrow> exn + (bool \<times> internal_server)" where
  "is_sendMessage fd t body s =
     rbind (json_dump body) (\<lambda>body_str.
       case send_packet htonl fd t body_str (is_net s) of (r, net) \<Rightarrow> Inr (r, s\<lparr>is_net := net\<rparr>))"

definition is_sendImageMessage ::
    "fd \<Rightarrow> json \<Rightarrow> bytes \<Rightarrow> internal_server \<Rightarrow> exn + (bool \<times> internal_server)" where
  "is_sendImageMessage fd meta jpeg s =
     rbind (json_dump meta) (\<lambda>meta_str.
       case send_image_packet htonl fd meta_str jpeg (is_net s) of (r, net) \<Rightarrow> Inr (r, s\<lparr>is_net := net\<rparr>))"

definition is_broadcast :: "message_type \<Rightarrow> json \<Rightarrow> internal_server \<Rightarrow> exn + internal_server" where
  "is_broadcast t body s = send_each (\<lambda>fd. is_sendMessage fd t body) (cn_client_fds s) s"

definition broadcastAiEvent :: "json \<Rightarrow> internal_server \<Rightarrow> exn + internal_server" where
  "broadcastAiEvent event s = is_broadcast AI event s"

definition broadcastMetaEvent :: "json \<Rightarrow> internal_server \<Rightarrow> exn + internal_server" where
  "broadcastMetaEvent sensor_data s = is_broadcast META sensor_data s"

text \<open>The providers are set by \<open>start\<close>; before it nothing is sent (\<open>None\<close>).\<close>

definition broadcastCameraList :: "json option \<Rightarrow> internal_server \<Rightarrow> exn + internal_server" where
  "broadcastCameraList camera_list s =
     (case camera_list of None \<Rightarrow> Inr s | Some cameras \<Rightarrow> is_broadcast CAMERA cameras s)"

definition broadcastDeviceStatus :: "json option \<Rightarrow> internal_server \<Rightarrow> exn + internal_server" where
  "broadcastDeviceStatus device_status s =
     (case device_status of None \<Rightarrow> Inr s | Some status \<Rightarrow> is_broadcast AVAILABLE status s)"

definition broadcastImageEvent :: "json \<Rightarrow> bytes \<Rightarrow> internal_server \<Rightarrow> exn + internal_server" where
  "broadcastImageEvent meta jpeg s =
     send_each (\<lambda>fd. is_sendImageMessage fd meta jpeg) (cn_client_fds s) s"

section \<open>The handler of a client\<close>

text \<open>One message of the welcome push; nothing if its provider was not set.\<close>

definition welcome_send ::
    "fd \<Rightarrow> message_type \<Rightarrow> json option \<Rightarrow> internal_server \<Rightarrow> exn + internal_server" where
  "welcome_send fd t content s =
     (case content of
        None \<Rightarrow> Inr s
      | Some j \<Rightarrow> rbind (is_sendMessage fd t j s) (\<lambda>(r, s'). Inr s'))"

text \<open>What a round of the loop asks for.\<close>

datatype request = ReqBreak | ReqNext | ReqCamera | ReqAvailable | ReqDevice json

definition request_of :: "message_type \<Rightarrow> json \<Rightarrow> exn + request" where
  "request_of t body =
     (if t = CAMERA then Inr ReqCamera
      else if t = AVAILABLE then Inr ReqAvailable
      else if t = DEVICE then rbind (json_dump body) (\<lambda>log. Inr (ReqDevice body))
      else Inr ReqNext)"

text \<open>
  A body of 1 MB or more is not read and the request is handled as if it had none; a body that
  does not parse, for whatever reason, skips the request.
\<close>

definition is_handler_round :: "fd \<Rightarrow> internal_server \<Rightarrow> exn + (request \<times> internal_server)" where
  "is_handler_round fd s =
     (case recv_header fd (is_net s) of
        (None, net) \<Rightarrow> Inr (ReqBreak, s\<lparr>is_net := net\<rparr>)
      | (Some h, net1) \<Rightarrow>
        (let body_len = unat (ntohl (ph_body_length h)); s1 = s\<lparr>is_net := net1\<rparr>
         in if 0 < body_len \<and> body_len < 1024 * 1024 then
              (case recvExact fd body_len net1 of
                 (None, net2) \<Rightarrow> Inr (ReqBreak, s1\<lparr>is_net := net2\<rparr>)
               | (Some buf, net2) \<Rightarrow>
                 (case json_parse buf of
                    Inl e \<Rightarrow> Inr (ReqNext, s1\<lparr>is_net := net2\<rparr>)
                  | Inr body \<Rightarrow>
                    rbind (request_of (ph_type h) body) (\<lambda>rq. Inr (rq, s1\<lparr>is_net := net2\<rparr>))))
            else rbind (request_of (ph_type h) (JObject [])) (\<lambda>rq. Inr (rq, s1))))"

section \<open>The accept loop\<close>

text \<open>The joins of the clean-up return when the handlers they wait for have ended.\<close>

definition is_cleanupFinishedThreads :: "internal_server \<Rightarrow> internal_server" where
  "is_cleanupFinishedThreads s =
     (if cn_finished s = [] then s
      else s\<lparr>cn_finished := [], cn_threads := fold om_erase (os_elems (cn_finished s)) (cn_threads s)\<rparr>)"

text \<open>
  A turn of the loop, with the descriptor and the stream of the client that \<open>accept\<close> returned, if it
  did. The flag tells whether the loop goes on; \<open>None\<close> is \<open>std::terminate\<close>.
\<close>

definition is_accept_round ::
    "(fd \<times> sock) option \<Rightarrow> internal_server \<Rightarrow> (bool \<times> internal_server) option" where
  "is_accept_round incoming s =
     (let s1 = is_cleanupFinishedThreads s in
      case incoming of
        None \<Rightarrow> Some (False, s1)
      | Some (fd, sk) \<Rightarrow>
          map_option (\<lambda>s2. (True, s2\<lparr>is_net := (is_net s2)(fd := sk)\<rparr>)) (accept_client fd s1))"

text \<open>It is a clean-up and an accept of \<open>ClientThreads\<close>.\<close>

lemma accept_truncate:
  assumes "accept_client fd (s :: internal_server) = Some s2"
  shows "accept_client fd ((conns.truncate s)\<lparr>cn_acceptor := Accepting\<rparr>)
      = Some ((conns.truncate s2)\<lparr>cn_acceptor := Accepting\<rparr>)"
    and "cn_acceptor s2 = cn_acceptor s"
  using assms
  by (cases "om_find fd (cn_threads s)";
      auto simp: accept_client_def start_handler_def list_client_def conns.truncate_def)+

lemma cleanup_truncate:
  "cleanupFinishedThreads (conns.truncate s) = conns.truncate (is_cleanupFinishedThreads s)"
  "cn_acceptor (is_cleanupFinishedThreads s) = cn_acceptor s"
  "cn_open (is_cleanupFinishedThreads s) = cn_open s"
  "cn_terminated (is_cleanupFinishedThreads s) = cn_terminated s"
  by (simp_all add: is_cleanupFinishedThreads_def cleanupFinishedThreads_def conns.truncate_def)

lemma is_accept_round_steps:
  assumes "is_accept_round (Some (fd, sk)) s = Some (go_on, s')"
    and "\<not> cn_terminated s" and "cn_acceptor s = Cleaning" and "fd \<notin> set (cn_open s)"
    and "\<forall>d \<in> set (os_elems (cn_finished s)). om_find d (cn_threads s) \<in> {None, Some Ended}"
  shows "rtranclp (conns_step g) (conns.truncate s) (conns.truncate s')"
proof -
  let ?s1 = "is_cleanupFinishedThreads s"
  let ?c1 = "(conns.truncate ?s1)\<lparr>cn_acceptor := Accepting\<rparr>"
  have "conns_step g (conns.truncate s) ?c1"
    using conns_step.cleanup [of "conns.truncate s" g] assms(2,3,5)
    by (simp add: cleanup_truncate) (simp add: conns.truncate_def)
  moreover obtain s2 where s2: "accept_client fd ?s1 = Some s2" "s' = s2\<lparr>is_net := (is_net s2)(fd := sk)\<rparr>"
    using assms(1) by (auto simp: is_accept_round_def)
  have "conns_step g ?c1 ((conns.truncate s2)\<lparr>cn_acceptor := Cleaning\<rparr>)"
    using conns_step.accept [OF _ _ _ accept_truncate(1) [OF s2(1)], of g] assms(2,4)
    by (simp add: conns.truncate_def cleanup_truncate)
  moreover have "(conns.truncate s2)\<lparr>cn_acceptor := Cleaning\<rparr> = conns.truncate s'"
    using accept_truncate(2) [OF s2(1)] assms(3) by (simp add: s2(2) conns.truncate_def cleanup_truncate)
  ultimately show ?thesis by (metis (no_types) rtranclp.simps)
qed

section \<open>What a send does\<close>

lemma is_send_eq:
  "is_sendMessage fd t body s = Inr (r, s') \<longleftrightarrow>
   (\<exists>raw. json_dump body = Inr raw \<and> r = fst (send_packet htonl fd t raw (is_net s)) \<and>
     s' = s\<lparr>is_net := snd (send_packet htonl fd t raw (is_net s))\<rparr>)"
  by (auto simp: is_sendMessage_def rbind_Inr_iff case_prod_unfold)

lemma is_send_appends:
  assumes "is_sendMessage fd t j s = Inr (r, s')" "json_dump j = Inr raw" "tx_ok (is_net s fd)"
  shows "r" "sk_tx (is_net s' fd) = sk_tx (is_net s fd) @ packet_bytes htonl t raw" "tx_ok (is_net s' fd)"
proof -
  obtain net where "send_packet htonl fd t raw (is_net s) = (True, net)" "tx_ok (net fd)"
    "sk_tx (net fd) = sk_tx (is_net s fd) @ packet_bytes htonl t raw" "\<forall>g. g \<noteq> fd \<longrightarrow> net g = is_net s g"
    by (rule internal_framing.send_packet_ok [of "is_net s" fd t raw, OF assms(3)])
  with assms(1,2) show "r" "sk_tx (is_net s' fd) = sk_tx (is_net s fd) @ packet_bytes htonl t raw" "tx_ok (is_net s' fd)"
    by (auto simp: is_send_eq)
qed

lemma is_send_other:
  assumes "is_sendMessage fd t j s = Inr (r, s')"
  shows "g \<noteq> fd \<Longrightarrow> is_net s' g = is_net s g" "cn_client_fds s' = cn_client_fds s"
  using assms by (auto simp: is_send_eq send_packet_other)

lemma is_send_returns: "json_good j \<Longrightarrow> \<exists>r s'. is_sendMessage fd t j s = Inr (r, s')"
  using json_good_dump [of j] by (auto simp: is_send_eq)

text \<open>The pushes go to every ClientServer that is connected.\<close>

interpretation push_all: delivering is_net cn_client_fds "\<lambda>fd. is_sendMessage fd t body" "\<lambda>fd k. True"
    "\<lambda>fd s. True" "packet_bytes htonl t (case json_dump body of Inr s \<Rightarrow> s | Inl e \<Rightarrow> [])" for t body
proof (unfold_locales, goal_cases)
  case (4 fd q r q')
  then obtain raw where "json_dump body = Inr raw" by (auto simp: is_send_eq)
  with is_send_appends(2) [OF 4(1) this 4(4)] show ?case by simp
next
  case (6 fd q r q')
  then show ?case by (auto simp: is_send_eq send_packet_tx_ok)
qed (use is_send_other in \<open>simp_all\<close>)

lemma is_broadcast_returns: "json_good j \<Longrightarrow> \<exists>s'. is_broadcast t j s = Inr s'"
  unfolding is_broadcast_def by (rule send_each_returns) (simp add: is_send_returns)

lemma is_broadcast_appends:
  assumes "is_broadcast t j s = Inr s'" "json_dump j = Inr raw"
    and "distinct (cn_client_fds s)" "fd \<in> set (cn_client_fds s)" "tx_ok (is_net s fd)"
  shows "sk_tx (is_net s' fd) = sk_tx (is_net s fd) @ packet_bytes htonl t raw"
  using push_all.each_delivers [OF assms(1) [unfolded is_broadcast_def] assms(3,4) _ _ assms(5)] assms(2) by simp

lemma is_broadcast_keeps: "is_broadcast t j s = Inr s' \<Longrightarrow> cn_client_fds s' = cn_client_fds s"
  unfolding is_broadcast_def by (rule push_all.each_keeps)

lemma is_broadcast_tx_ok: "is_broadcast t j s = Inr s' \<Longrightarrow> tx_ok (is_net s fd) \<Longrightarrow> tx_ok (is_net s' fd)"
  unfolding is_broadcast_def by (rule push_all.each_tx_ok)

end
