(* ===== verification/DeviceController.thy ===== *)
theory DeviceController
  imports DeviceManager SubPiManager OnvifScanner RtspServer InternalServer
begin

text \<open>
  \<open>DeviceServer/src/DeviceController.cpp\<close>: the DeviceServer as a whole. The state is that of its
  members, the callbacks are the functions they are bound to. The descriptors of the Sub-Pis
  belong to the network of \<open>SubPiManager\<close>, those of the ClientServers to that of \<open>InternalServer\<close>.
\<close>

record device_controller =
  dc_running :: bool
  dc_manager :: device_manager
  dc_subpi :: subpi_manager
  dc_onvif :: onvif_scanner
  dc_rtsp :: rtsp_server
  dc_internal :: internal_server
  dc_providers_set :: bool
  dc_ifaddrs :: "string list option"

section \<open>Providers\<close>

text \<open>The addresses of \<open>getifaddrs\<close> of family \<open>AF_INET\<close>, in order; \<open>None\<close> when it fails.\<close>

definition loopback :: string where
  "loopback = ''127.0.0.1''"

definition getLocalIp :: "string list option \<Rightarrow> string" where
  "getLocalIp ifaddrs =
     (case ifaddrs of
        None \<Rightarrow> loopback
      | Some ips \<Rightarrow> (case find (\<lambda>ip. ip \<noteq> loopback) ips of Some ip \<Rightarrow> ip | None \<Rightarrow> loopback))"

definition camera_source_url :: "string \<Rightarrow> device_info \<Rightarrow> string" where
  "camera_source_url local_ip dev =
     (if dev_type dev = SUB_PI then ''rtsp://'' @ local_ip @ '':8554/'' @ dev_id dev
      else dev_source_url dev)"

definition camera_entry :: "string \<Rightarrow> device_info \<Rightarrow> exn + json" where
  "camera_entry local_ip dev =
     rbind (json_set JNull ''is_online'' (JBool (dev_is_online dev))) (\<lambda>d.
     rbind (json_set d ''ip'' (JString (dev_ip dev))) (\<lambda>d.
     rbind (json_set d ''source_url'' (JString (camera_source_url local_ip dev))) (\<lambda>d.
     json_set d ''type'' (JString (if dev_type dev = SUB_PI then ''SUB_PI'' else ''HANWHA'')))))"

fun camera_entries :: "string \<Rightarrow> device_info list \<Rightarrow> json \<Rightarrow> exn + json" where
  "camera_entries local_ip [] camera_list = Inr camera_list"
| "camera_entries local_ip (dev # devs) camera_list =
     rbind (camera_entry local_ip dev) (\<lambda>d.
     rbind (json_push_back camera_list d) (camera_entries local_ip devs))"

definition buildCameraListJson :: "device_controller \<Rightarrow> exn + json" where
  "buildCameraListJson dc =
     camera_entries (getLocalIp (dc_ifaddrs dc)) (getDeviceList (dc_manager dc)) (JArray [])"

definition dc_device_status :: "device_controller \<Rightarrow> exn + json" where
  "dc_device_status dc = getDeviceStatusList (dc_manager dc)"

section \<open>Callbacks\<close>

definition on_device_registered :: "device_info \<Rightarrow> device_controller \<Rightarrow> device_controller" where
  "on_device_registered info dc = dc\<lparr>dc_rtsp := addRelayPath info (dc_rtsp dc)\<rparr>"

definition on_device_removed :: "string \<Rightarrow> device_controller \<Rightarrow> device_controller" where
  "on_device_removed device dc = dc\<lparr>dc_rtsp := removeRelayPath device (dc_rtsp dc)\<rparr>"

text \<open>A provider is called only if it was set, by \<open>InternalServer::start\<close>.\<close>

definition when_provided :: "bool \<Rightarrow> exn + json \<Rightarrow> exn + json option" where
  "when_provided set_p j = (if set_p then rbind j (\<lambda>v. Inr (Some v)) else Inr None)"

definition on_device_changed :: "device_controller \<Rightarrow> exn + device_controller" where
  "on_device_changed dc =
     rbind (when_provided (dc_providers_set dc) (buildCameraListJson dc)) (\<lambda>cameras.
     rbind (broadcastCameraList cameras (dc_internal dc)) (\<lambda>s1.
     rbind (when_provided (dc_providers_set dc) (dc_device_status dc)) (\<lambda>status.
     rbind (broadcastDeviceStatus status s1) (\<lambda>s2. Inr (dc\<lparr>dc_internal := s2\<rparr>)))))"

text \<open>The device callbacks of the two discoverers.\<close>

definition dc_found ::
    "(device_info \<Rightarrow> device_manager \<Rightarrow> device_info option \<times> device_manager) \<Rightarrow>
     device_info \<Rightarrow> device_controller \<Rightarrow> exn + device_controller" where
  "dc_found found info dc =
     (case found info (dc_manager dc) of
        (None, dm) \<Rightarrow> Inr (dc\<lparr>dc_manager := dm\<rparr>)
      | (Some registered_info, dm) \<Rightarrow>
          on_device_changed (on_device_registered registered_info (dc\<lparr>dc_manager := dm\<rparr>)))"

definition on_subpi_event :: "subpi_event \<Rightarrow> device_controller \<Rightarrow> exn + device_controller" where
  "on_subpi_event ev dc =
     (case ev of
        SubAi device event \<Rightarrow>
          rbind (broadcastAiEvent event (dc_internal dc)) (\<lambda>s. Inr (dc\<lparr>dc_internal := s\<rparr>))
      | SubImage device meta jpeg \<Rightarrow>
          rbind (broadcastImageEvent meta jpeg (dc_internal dc)) (\<lambda>s. Inr (dc\<lparr>dc_internal := s\<rparr>))
      | SubMeta device sensor_data \<Rightarrow>
          rbind (broadcastMetaEvent sensor_data (dc_internal dc)) (\<lambda>s. Inr (dc\<lparr>dc_internal := s\<rparr>))
      | SubAvailable device status \<Rightarrow>
          Inr (dc\<lparr>dc_manager := available_event device status (dc_manager dc)\<rparr>))"

definition onDeviceCommand :: "json \<Rightarrow> device_controller \<Rightarrow> exn + device_controller" where
  "onDeviceCommand body dc =
     rbind (value_string body ''device'' []) (\<lambda>ip.
     rbind (value_string body ''motor'' []) (\<lambda>motor.
       if ip \<noteq> [] \<and> motor \<noteq> [] then
         rbind (sendMotorCommand ip motor (dc_manager dc) (sp_net (dc_subpi dc))) (\<lambda>(r, net).
           Inr (dc\<lparr>dc_subpi := (dc_subpi dc)\<lparr>sp_net := net\<rparr>\<rparr>))
       else Inr dc))"

section \<open>The threads\<close>

text \<open>A round of the beacon receiver.\<close>

definition dc_beacon ::
    "bytes \<Rightarrow> string \<Rightarrow> fd \<Rightarrow> bool \<Rightarrow> device_controller \<Rightarrow> exn + device_controller option" where
  "dc_beacon datagram sender_ip sock connected dc =
     rbind (beacon_round (\<lambda>device d. is_device_registered device (dc_manager d)) (dc_found subpi_found)
              datagram sender_ip sock connected (dc_subpi dc, dc))
       (\<lambda>r. Inr (map_option (\<lambda>(sp, d). d\<lparr>dc_subpi := sp\<rparr>) r))"

text \<open>A probe answer and an ARP scan.\<close>

definition dc_probe_answer ::
    "(string \<Rightarrow> string option) \<Rightarrow> bytes \<Rightarrow> string \<Rightarrow> device_controller \<Rightarrow> exn + device_controller" where
  "dc_probe_answer shell datagram cam_ip dc =
     rbind (probe_answer shell (\<lambda>device d. is_device_registered device (dc_manager d))
              (dc_found hanwha_found) datagram cam_ip (dc_onvif dc, dc))
       (\<lambda>(sc, d). Inr (d\<lparr>dc_onvif := sc\<rparr>))"

definition dc_arp_scan ::
    "(string \<Rightarrow> string option) \<Rightarrow> string option \<Rightarrow> nat \<Rightarrow> device_controller \<Rightarrow> exn + device_controller" where
  "dc_arp_scan shell arp running dc =
     rbind (arpFallbackScan shell (\<lambda>device d. is_device_registered device (dc_manager d))
              (dc_found hanwha_found) arp running (dc_onvif dc, dc))
       (\<lambda>(sc, d). Inr (d\<lparr>dc_onvif := sc\<rparr>))"

text \<open>A cycle of \<open>monitorLoop\<close>.\<close>

definition monitor_cycle :: "health_env \<Rightarrow> device_controller \<Rightarrow> exn + device_controller" where
  "monitor_cycle env dc =
     (let went_offline = health_check env 0 (check_targets (dc_manager dc)) [] in
      rbind (if went_offline = [] then Inr dc
             else
               (case apply_offline went_offline (dc_manager dc) (sp_net (dc_subpi dc)) of
                  (removed_ids, dm, net) \<Rightarrow>
                    (let dc1 = dc\<lparr>dc_manager := dm, dc_subpi := (dc_subpi dc)\<lparr>sp_net := net\<rparr>\<rparr>;
                         dc2 = fold on_device_removed removed_ids dc1
                     in if removed_ids \<noteq> [] then on_device_changed dc2 else Inr dc2)))
        on_device_changed)"

text \<open>A listener round, with its callback.\<close>

definition dc_listener_round ::
    "int \<Rightarrow> string \<Rightarrow> fd \<Rightarrow> nat \<Rightarrow> device_controller \<Rightarrow> exn + (bool \<times> nat \<times> device_controller)" where
  "dc_listener_round ret device fd errors dc =
     rbind (listener_round ret device fd errors (sp_net (dc_subpi dc))) (\<lambda>(go_on, ev, errors', net).
       let dc1 = dc\<lparr>dc_subpi := (dc_subpi dc)\<lparr>sp_net := net\<rparr>\<rparr> in
       rbind (case ev of None \<Rightarrow> Inr dc1 | Some e \<Rightarrow> on_subpi_event e dc1) (\<lambda>dc2.
         Inr (go_on, errors', dc2)))"

text \<open>The handler of a ClientServer: the welcome push, then a round per request.\<close>

definition dc_welcome :: "fd \<Rightarrow> device_controller \<Rightarrow> exn + device_controller" where
  "dc_welcome fd dc =
     rbind (when_provided (dc_providers_set dc) (buildCameraListJson dc)) (\<lambda>cameras.
     rbind (welcome_send fd CAMERA cameras (dc_internal dc)) (\<lambda>s1.
     rbind (when_provided (dc_providers_set dc) (dc_device_status dc)) (\<lambda>status.
     rbind (welcome_send fd AVAILABLE status s1) (\<lambda>s2. Inr (dc\<lparr>dc_internal := s2\<rparr>)))))"

definition dc_handler_round :: "fd \<Rightarrow> device_controller \<Rightarrow> exn + (bool \<times> device_controller)" where
  "dc_handler_round fd dc =
     rbind (is_handler_round fd (dc_internal dc)) (\<lambda>(rq, s).
       let dc1 = dc\<lparr>dc_internal := s\<rparr> in
       case rq of
         ReqBreak \<Rightarrow> Inr (False, dc1)
       | ReqNext \<Rightarrow> Inr (True, dc1)
       | ReqCamera \<Rightarrow>
           rbind (buildCameraListJson dc1) (\<lambda>cameras.
           rbind (is_sendMessage fd CAMERA cameras s) (\<lambda>(r, s1). Inr (True, dc1\<lparr>dc_internal := s1\<rparr>)))
       | ReqAvailable \<Rightarrow>
           rbind (dc_device_status dc1) (\<lambda>status.
           rbind (is_sendMessage fd AVAILABLE status s) (\<lambda>(r, s1). Inr (True, dc1\<lparr>dc_internal := s1\<rparr>)))
       | ReqDevice body \<Rightarrow> rbind (onDeviceCommand body dc1) (\<lambda>dc2. Inr (True, dc2)))"

section \<open>Start and stop\<close>

text \<open>
  The three starts of \<open>run\<close> in their order. Discovery threads run from the first on, so a device
  may be found between any two of them.
\<close>

definition dc_start_discovery :: "device_controller \<Rightarrow> device_controller" where
  "dc_start_discovery dc = dc\<lparr>dc_running := True, dc_manager := startDiscovery (dc_manager dc)\<rparr>"

definition dc_start_rtsp :: "device_controller \<Rightarrow> device_controller" where
  "dc_start_rtsp dc = dc\<lparr>dc_rtsp := rtsp_start (dc_rtsp dc)\<rparr>"

definition dc_start_internal :: "fd \<Rightarrow> bool \<Rightarrow> bool \<Rightarrow> device_controller \<Rightarrow> device_controller" where
  "dc_start_internal server_fd bound listening dc =
     (if cn_running (dc_internal dc) then dc
      else dc\<lparr>dc_internal := is_start server_fd bound listening (dc_internal dc), dc_providers_set := True\<rparr>)"

text \<open>\<open>run\<close> when nothing is found in between; the main thread then waits until \<open>stop\<close>.\<close>

definition dc_run :: "fd \<Rightarrow> bool \<Rightarrow> bool \<Rightarrow> device_controller \<Rightarrow> device_controller" where
  "dc_run server_fd bound listening dc =
     dc_start_internal server_fd bound listening (dc_start_rtsp (dc_start_discovery dc))"

definition dc_stop :: "device_controller \<Rightarrow> device_controller" where
  "dc_stop dc =
     (if \<not> dc_running dc then dc
      else dc\<lparr>dc_running := False, dc_internal := is_stop (dc_internal dc),
              dc_rtsp := rtsp_stop (dc_rtsp dc), dc_subpi := subpi_stop (dc_subpi dc),
              dc_manager := stopDiscovery (dc_manager dc)\<rparr>)"

end
