(* ===== verification/DeviceServing.thy ===== *)
theory DeviceServing
  imports DeviceController
begin

text \<open>
  The DeviceServer as a whole: what the lists it sends contain, and that they can always be sent.
  The steps of its threads, each taken at once, are the relation \<open>dev_step\<close>.
\<close>

section \<open>The lists as values\<close>

definition camera_value :: "string \<Rightarrow> device_info \<Rightarrow> json" where
  "camera_value local_ip dev =
     JObject [(''ip'', JString (dev_ip dev)), (''is_online'', JBool (dev_is_online dev)),
       (''source_url'', JString (camera_source_url local_ip dev)),
       (''type'', JString (if dev_type dev = SUB_PI then ''SUB_PI'' else ''HANWHA''))]"

lemma camera_entry_value: "camera_entry local_ip dev = Inr (camera_value local_ip dev)"
  by (simp add: camera_entry_def camera_value_def)

lemma camera_entries_value:
  "camera_entries local_ip devs (JArray xs) = Inr (JArray (xs @ map (camera_value local_ip) devs))"
  by (induction devs arbitrary: xs) (simp_all add: camera_entry_value)

definition status_value :: "(string, device_info) omap \<Rightarrow> string \<times> json \<Rightarrow> json" where
  "status_value devices ds =
     (case (om_find (fst ds) devices, snd ds) of
        (Some info, JObject m) \<Rightarrow> JObject (om_assign ''ip'' (JString (dev_ip info)) m)
      | (_, status) \<Rightarrow> status)"

definition statuses_ok :: "device_manager \<Rightarrow> bool" where
  "statuses_ok dm = (\<forall>ds \<in> set (dm_device_status dm). is_object (snd ds))"

lemma status_entries_value:
  "\<forall>ds \<in> set m. is_object (snd ds) \<Longrightarrow>
   status_entries devices m (JArray xs) = Inr (JArray (xs @ map (status_value devices) m))"
proof (induction m arbitrary: xs)
  case (Cons ds m)
  obtain device status where ds: "ds = (device, status)" by force
  with Cons.prems obtain o1 where "status = JObject o1" by (cases status) auto
  with Cons ds show ?case by (simp add: status_value_def split: option.split)
qed simp

lemma provider_values:
  "buildCameraListJson dc = Inr (JArray (map (camera_value (getLocalIp (dc_ifaddrs dc))) (getDeviceList (dc_manager dc))))"
  "statuses_ok (dc_manager dc) \<Longrightarrow>
   dc_device_status dc = Inr (JArray (map (status_value (dm_devices (dc_manager dc))) (dm_device_status (dc_manager dc))))"
  by (simp_all add: buildCameraListJson_def camera_entries_value dc_device_status_def getDeviceStatusList_def
      status_entries_value statuses_ok_def)

section \<open>When they can be written\<close>

definition device_utf8 :: "device_info \<Rightarrow> bool" where
  "device_utf8 info = (utf8_ok (dev_id info) \<and> utf8_ok (dev_ip info) \<and> utf8_ok (dev_source_url info))"

definition dm_good :: "device_manager \<Rightarrow> bool" where
  "dm_good dm =
     ((\<forall>p \<in> set (dm_devices dm). device_utf8 (snd p)) \<and>
      (\<forall>ds \<in> set (dm_device_status dm). is_object (snd ds) \<and> json_good (snd ds)))"

definition dc_good :: "device_controller \<Rightarrow> bool" where
  "dc_good dc = (dm_good (dc_manager dc) \<and> (\<forall>ips. dc_ifaddrs dc = Some ips \<longrightarrow> (\<forall>ip \<in> set ips. utf8_ok ip)))"

lemma local_ip_utf8: "dc_good dc \<Longrightarrow> utf8_ok (getLocalIp (dc_ifaddrs dc))"
  by (auto simp: dc_good_def getLocalIp_def loopback_def utf8_ok_ascii find_Some_iff split: option.split)

lemma camera_value_good:
  "utf8_ok local_ip \<Longrightarrow> device_utf8 dev \<Longrightarrow> json_good (camera_value local_ip dev)"
  by (simp add: camera_value_def json_good_def om_wf_Cons device_utf8_def camera_source_url_def utf8_ok_append utf8_ok_ascii)

lemma status_value_good:
  assumes "\<forall>p \<in> set devices. device_utf8 (snd p)" "is_object (snd ds)" "json_good (snd ds)"
  shows "json_good (status_value devices ds)"
proof -
  obtain m where m: "snd ds = JObject m" using assms(2) by (cases "snd ds") auto
  have "json_good (JObject (om_assign ''ip'' (JString (dev_ip info)) m))"
    if "om_find (fst ds) devices = Some info" for info
  proof -
    have "utf8_ok (dev_ip info)" using om_find_Some_mem [OF that] assms(1) by (auto simp: device_utf8_def)
    with assms(3) m json_set_good [of "JObject m" "JString (dev_ip info)" "''ip''"] show ?thesis
      by (simp add: json_good_def [of "JString _"] utf8_ok_ascii)
  qed
  with assms(3) m show ?thesis by (simp add: status_value_def split: option.split)
qed

lemma lists_good:
  assumes "dc_good dc"
  obtains cams status where "buildCameraListJson dc = Inr cams" "json_good cams"
    "dc_device_status dc = Inr status" "json_good status"
proof -
  have dm: "dm_good (dc_manager dc)" using assms by (simp add: dc_good_def)
  then have "statuses_ok (dc_manager dc)" by (simp add: dm_good_def statuses_ok_def)
  have "json_good (JArray (map (camera_value (getLocalIp (dc_ifaddrs dc))) (getDeviceList (dc_manager dc))))"
    using dm camera_value_good [OF local_ip_utf8 [OF assms]]
    by (auto simp: json_good_array getDeviceList_def dm_good_def)
  moreover have "json_good (JArray (map (status_value (dm_devices (dc_manager dc))) (dm_device_status (dc_manager dc))))"
    using dm status_value_good [of "dm_devices (dc_manager dc)"] by (auto simp: json_good_array dm_good_def)
  ultimately show thesis
    using that provider_values(1) provider_values(2) [OF \<open>statuses_ok (dc_manager dc)\<close>] by blast
qed

section \<open>Changes are pushed\<close>

lemma on_device_changed_eq:
  assumes "dc_providers_set dc" "buildCameraListJson dc = Inr cams" "dc_device_status dc = Inr status"
  shows "on_device_changed dc = Inr dc' \<longleftrightarrow>
    (\<exists>s1 s2. is_broadcast CAMERA cams (dc_internal dc) = Inr s1 \<and> is_broadcast AVAILABLE status s1 = Inr s2 \<and>
      dc' = dc\<lparr>dc_internal := s2\<rparr>)"
  using assms
  by (auto simp: on_device_changed_def when_provided_def broadcastCameraList_def broadcastDeviceStatus_def rbind_Inr_iff)

lemma on_device_changed_returns:
  assumes "dc_good dc"
  shows "\<exists>s. on_device_changed dc = Inr (dc\<lparr>dc_internal := s\<rparr>)"
proof (cases "dc_providers_set dc")
  case True
  obtain cams status where l: "buildCameraListJson dc = Inr cams" "json_good cams"
    "dc_device_status dc = Inr status" "json_good status" by (rule lists_good [OF assms])
  obtain s1 where "is_broadcast CAMERA cams (dc_internal dc) = Inr s1" using is_broadcast_returns [OF l(2)] ..
  moreover obtain s2 where "is_broadcast AVAILABLE status s1 = Inr s2" using is_broadcast_returns [OF l(4)] ..
  ultimately show ?thesis using on_device_changed_eq [OF True l(1,3)] by blast
next
  case False
  then have "on_device_changed dc = Inr (dc\<lparr>dc_internal := dc_internal dc\<rparr>)"
    by (simp add: on_device_changed_def when_provided_def broadcastCameraList_def broadcastDeviceStatus_def)
  then show ?thesis by blast
qed

lemma on_device_changed_keeps:
  "on_device_changed dc = Inr dc' \<Longrightarrow>
   dc_manager dc' = dc_manager dc \<and> dc_ifaddrs dc' = dc_ifaddrs dc \<and> dc_subpi dc' = dc_subpi dc \<and> dc_rtsp dc' = dc_rtsp dc"
  by (auto simp: on_device_changed_def rbind_Inr_iff)

section \<open>The tables stay well-formed\<close>

definition dc_same :: "device_controller \<Rightarrow> device_controller \<Rightarrow> bool" where
  "dc_same dc dc' =
     (dc_manager dc' = dc_manager dc \<and> dc_ifaddrs dc' = dc_ifaddrs dc \<and> dc_rtsp dc' = dc_rtsp dc
      \<and> sp_next_port (dc_subpi dc') = sp_next_port (dc_subpi dc))"

lemma dc_same_refl [simp]: "dc_same dc dc"
  by (simp add: dc_same_def)

lemma dc_good_same: "dc_same dc dc' \<Longrightarrow> dc_good dc' \<longleftrightarrow> dc_good dc"
  by (simp add: dc_same_def dc_good_def)

lemma dc_good_manager: "dc_good dc \<Longrightarrow> dm_good dm \<Longrightarrow> dc_good (dc\<lparr>dc_manager := dm\<rparr>)"
  by (simp add: dc_good_def)

lemma dm_good_put: "dm_good dm \<Longrightarrow> device_utf8 info \<Longrightarrow> dm_good (put_device device info dm)"
  using om_assign_subset [of device info "dm_devices dm"] by (auto simp: dm_good_def put_device_def)

lemma dm_good_find: "dm_good dm \<Longrightarrow> om_find device (dm_devices dm) = Some info \<Longrightarrow> device_utf8 info"
  by (auto simp: dm_good_def dest!: om_find_Some_mem)

lemma device_found_good:
  assumes "device_found recover info dm = (r, dm')" "dm_good dm" "device_utf8 info"
    and "\<And>existing. device_utf8 existing \<Longrightarrow> device_utf8 (recover info existing)"
  shows "dm_good dm'"
  using assms dm_good_find [OF assms(2)]
  by (auto simp: device_found_def Let_def split: option.splits if_splits intro!: dm_good_put)

lemma recover_utf8: "device_utf8 existing \<Longrightarrow> device_utf8 (recover_subpi info existing)"
    "device_utf8 existing \<Longrightarrow> device_utf8 (recover_hanwha info existing)"
  by (simp_all add: device_utf8_def recover_subpi_def recover_hanwha_def)

lemma found_good:
  "subpi_found info dm = (r, dm') \<Longrightarrow> dm_good dm \<Longrightarrow> device_utf8 info \<Longrightarrow> dm_good dm'"
  "hanwha_found info dm = (r, dm') \<Longrightarrow> dm_good dm \<Longrightarrow> device_utf8 info \<Longrightarrow> dm_good dm'"
  unfolding subpi_found_def hanwha_found_def using device_found_good recover_utf8 by blast+

lemma dc_found_good:
  assumes "dc_good dc" "\<And>r dm. found info (dc_manager dc) = (r, dm) \<Longrightarrow> dm_good dm"
  shows "\<exists>dc'. dc_found found info dc = Inr dc' \<and> dc_good dc'"
proof (cases "found info (dc_manager dc)")
  case (Pair r dm)
  then have good: "dc_good (dc\<lparr>dc_manager := dm\<rparr>)" using assms dc_good_manager by blast
  show ?thesis
  proof (cases r)
    case None
    with Pair good show ?thesis by (simp add: dc_found_def)
  next
    case (Some info')
    let ?dc = "on_device_registered info' (dc\<lparr>dc_manager := dm\<rparr>)"
    have "dc_good ?dc" using good by (simp add: dc_good_def on_device_registered_def)
    then obtain s where "on_device_changed ?dc = Inr (?dc\<lparr>dc_internal := s\<rparr>)" using on_device_changed_returns by blast
    with Pair Some \<open>dc_good ?dc\<close> show ?thesis by (simp add: dc_found_def dc_good_def)
  qed
qed

text \<open>Devices that went offline.\<close>

lemma set_offline_good:
  "set_offline device (removed, dm, net) = (removed', dm', net') \<Longrightarrow> dm_good dm \<Longrightarrow> dm_good dm'"
  using dm_good_find [of dm device]
  by (auto simp: set_offline_def Let_def device_utf8_def split: option.splits if_splits intro!: dm_good_put)

lemma apply_offline_good: "dm_good dm \<Longrightarrow> apply_offline went_offline dm net = (removed, dm', net') \<Longrightarrow> dm_good dm'"
proof -
  have "dm_good (fst (snd st)) \<Longrightarrow> dm_good (fst (snd (fold set_offline ds st)))" for ds st
  proof (induction ds arbitrary: st)
    case (Cons d ds)
    obtain a b c where "set_offline d st = (a, b, c)" by (metis prod.exhaust)
    with Cons set_offline_good [of d "fst st" "fst (snd st)" "snd (snd st)"] show ?case by simp
  qed simp
  from this [of "([], dm, net)" went_offline]
  show "dm_good dm \<Longrightarrow> apply_offline went_offline dm net = (removed, dm', net') \<Longrightarrow> dm_good dm'"
    by (simp add: apply_offline_def)
qed

lemma fold_removed_good: "dc_good (fold on_device_removed ids dc) \<longleftrightarrow> dc_good dc"
  by (induction ids arbitrary: dc) (auto simp: dc_good_def on_device_removed_def)

lemma monitor_cycle_returns:
  assumes "dc_good dc"
  shows "\<exists>dc'. monitor_cycle env dc = Inr dc' \<and> dc_good dc'"
proof -
  let ?off = "health_check env 0 (check_targets (dc_manager dc)) []"
  have changed: "\<exists>d'. on_device_changed d = Inr d' \<and> dc_good d'" if "dc_good d" for d
    using on_device_changed_returns [OF that] that by (auto simp: dc_good_def)
  obtain removed dm net where a: "apply_offline ?off (dc_manager dc) (sp_net (dc_subpi dc)) = (removed, dm, net)"
    by (metis prod.exhaust)
  let ?dc = "fold on_device_removed removed
      (dc\<lparr>dc_manager := dm, dc_subpi := (dc_subpi dc)\<lparr>sp_net := net\<rparr>\<rparr>)"
  have "dm_good dm" using apply_offline_good [OF _ a] assms by (simp add: dc_good_def)
  then have "dc_good (dc\<lparr>dc_manager := dm, dc_subpi := (dc_subpi dc)\<lparr>sp_net := net\<rparr>\<rparr>)"
    using assms by (simp add: dc_good_def)
  then have "dc_good ?dc" by (simp add: fold_removed_good)
  then obtain d1 where "on_device_changed ?dc = Inr d1" "dc_good d1" using changed by blast
  with \<open>dc_good ?dc\<close> a changed assms show ?thesis
    by (cases "?off = []"; cases "removed = []") (auto simp: monitor_cycle_def Let_def)
qed

section \<open>The steps\<close>

text \<open>The URLs that a camera gives are what a shell command prints; that they are UTF-8 is asked for.\<close>

definition utf8_shell :: "(string \<Rightarrow> string option) \<Rightarrow> bool" where
  "utf8_shell shell = (\<forall>sc ip. \<forall>url \<in> set (getRtspUrls shell sc ip). utf8_ok url)"

text \<open>
  A beacon, a probe answer, a scan of the ARP table, a packet of a Sub-Pi, a cycle of the monitor, and
  of a ClientServer the turn of the accept loop, the welcome, its requests and its end. Addresses
  come from \<open>inet_ntoa\<close> and from the kernel's table, and are UTF-8.
\<close>

inductive dev_step :: "device_controller \<Rightarrow> device_controller \<Rightarrow> bool" where
  beacon: "utf8_ok sender_ip \<Longrightarrow> dc_beacon datagram sender_ip sock connected dc = Inr (Some dc') \<Longrightarrow> dev_step dc dc'"
| probe: "utf8_ok cam_ip \<Longrightarrow> utf8_shell shell \<Longrightarrow> dc_probe_answer shell datagram cam_ip dc = Inr dc' \<Longrightarrow>
    dev_step dc dc'"
| arp: "\<forall>ip \<in> set (getHanwhaIpsFromArp table). utf8_ok ip \<Longrightarrow> utf8_shell shell \<Longrightarrow>
    dc_arp_scan shell table running dc = Inr dc' \<Longrightarrow> dev_step dc dc'"
| packet: "dc_listener_round ret device fd errors dc = Inr (go_on, errors', dc') \<Longrightarrow> dev_step dc dc'"
| accept: "is_accept_round incoming (dc_internal dc) = Some (go_on, s) \<Longrightarrow> dev_step dc (dc\<lparr>dc_internal := s\<rparr>)"
| greeting: "dc_welcome fd dc = Inr dc' \<Longrightarrow> dev_step dc dc'"
| request: "dc_handler_round fd dc = Inr (go_on, dc') \<Longrightarrow> dev_step dc dc'"
| leave: "dev_step dc (dc\<lparr>dc_internal := is_handler_end fd (dc_internal dc)\<rparr>)"
| monitor: "monitor_cycle env dc = Inr dc' \<Longrightarrow> dev_step dc dc'"

lemma internal_same [simp]: "dc_same dc (dc\<lparr>dc_internal := s\<rparr>)"
  by (simp add: dc_same_def)

lemma camera_id_utf8: "utf8_ok ip \<Longrightarrow> utf8_ok (camera_id ip i)"
proof -
  have "utf8_ok (''_CH_'' @ nat_to_dec i)"
    using nat_to_dec_digits [of i] by (auto simp: is_digit_def intro!: utf8_ok_ascii)
  moreover assume "utf8_ok ip"
  ultimately have "utf8_ok (''Hanwha_'' @ ip @ ''_CH_'' @ nat_to_dec i)"
    by (intro utf8_ok_append) (simp_all add: utf8_ok_ascii)
  then show ?thesis by (simp only: camera_id_def)
qed

text \<open>
  What the scanner does to the server is to report cameras: a property that every report keeps, and
  that does not look at the scanner, is kept by probe answers and scans.
\<close>

locale camera_invariant =
  fixes P :: "device_controller \<Rightarrow> bool"
  assumes reported: "device_utf8 info \<Longrightarrow> dev_is_online info \<Longrightarrow> dev_type info = HANWHA \<Longrightarrow>
      dc_found hanwha_found info dc = Inr dc' \<Longrightarrow> P dc \<Longrightarrow> P dc'"
    and scanner: "P dc \<Longrightarrow> P (dc\<lparr>dc_onvif := sc\<rparr>)"
begin

lemma reports_keep:
  "report_cameras (dc_found hanwha_found) ip i urls dc = Inr dc' \<Longrightarrow> utf8_ok ip \<Longrightarrow>
   \<forall>url \<in> set urls. utf8_ok url \<Longrightarrow> P dc \<Longrightarrow> P dc'"
proof (induction urls arbitrary: i dc)
  case (Cons url urls)
  then obtain dc1 where dc1: "dc_found hanwha_found (camera_info ip i url) dc = Inr dc1"
    "report_cameras (dc_found hanwha_found) ip (Suc i) urls dc1 = Inr dc'" by (auto simp: rbind_Inr_iff)
  have "device_utf8 (camera_info ip i url)"
    using Cons.prems(2,3) camera_id_utf8 [OF Cons.prems(2), of i]
    by (simp add: device_utf8_def camera_info_def)
  then have "P dc1"
    using reported [OF _ _ _ dc1(1)] Cons.prems(4) by (simp add: camera_info_def default_device_info_def)
  with Cons.IH [OF dc1(2)] Cons.prems(2,3) show ?case by simp
qed simp

lemma try_camera_keeps:
  assumes "try_camera shell is_registered (dc_found hanwha_found) ip (sc, dc) = Inr (sc', dc')"
    and "utf8_ok ip" "utf8_shell shell" "P dc"
  shows "P dc'"
  using assms reports_keep [of ip 0 _ dc dc']
  by (auto simp: try_camera_def Let_def rbind_Inr_iff utf8_shell_def split: if_splits)

lemma probe_keeps:
  assumes "dc_probe_answer shell datagram ip dc = Inr dc'" "utf8_ok ip" "utf8_shell shell" "P dc"
  shows "P dc'"
proof -
  from assms(1) obtain sc d where d: "dc' = d\<lparr>dc_onvif := sc\<rparr>"
    and p: "probe_answer shell (\<lambda>device d. is_device_registered device (dc_manager d)) (dc_found hanwha_found)
      datagram ip (dc_onvif dc, dc) = Inr (sc, d)"
    by (auto simp: dc_probe_answer_def rbind_Inr_iff)
  then have "P d"
    using try_camera_keeps [OF _ assms(2-4)] assms(4) by (auto simp: probe_answer_def split: if_splits)
  then show ?thesis unfolding d by (rule scanner)
qed

lemma arp_scan_keeps:
  "arp_scan shell is_registered (dc_found hanwha_found) ips (sc, dc) = Inr (sc', dc') \<Longrightarrow>
   \<forall>ip \<in> set ips. utf8_ok ip \<Longrightarrow> utf8_shell shell \<Longrightarrow> P dc \<Longrightarrow> P dc'"
proof (induction ips arbitrary: sc dc)
  case (Cons ip ips)
  then obtain sc1 dc1 where "try_camera shell is_registered (dc_found hanwha_found) ip (sc, dc) = Inr (sc1, dc1)"
    and rest: "arp_scan shell is_registered (dc_found hanwha_found) ips (sc1, dc1) = Inr (sc', dc')"
    by (auto simp: rbind_Inr_iff)
  then have "P dc1" using try_camera_keeps Cons.prems(2-4) by auto
  with Cons.IH [OF rest] Cons.prems(2,3) show ?case by simp
qed simp

lemma arp_keeps:
  assumes "dc_arp_scan shell table running dc = Inr dc'"
    and "\<forall>ip \<in> set (getHanwhaIpsFromArp table). utf8_ok ip" "utf8_shell shell" "P dc"
  shows "P dc'"
proof -
  from assms(1) obtain sc d where d: "dc' = d\<lparr>dc_onvif := sc\<rparr>"
    and p: "arp_scan shell (\<lambda>device d. is_device_registered device (dc_manager d)) (dc_found hanwha_found)
      (take running (getHanwhaIpsFromArp table)) (dc_onvif dc, dc) = Inr (sc, d)"
    by (auto simp: dc_arp_scan_def arpFallbackScan_def rbind_Inr_iff)
  have "P d" by (rule arp_scan_keeps [OF p _ assms(3,4)]) (use assms(2) in \<open>auto dest: in_set_takeD\<close>)
  then show ?thesis unfolding d by (rule scanner)
qed

end

lemma subpi_info_utf8: "utf8_ok ip \<Longrightarrow> device_utf8 (subpi_info ip port fd)"
  by (simp add: device_utf8_def subpi_info_def subpi_id_def default_device_info_def utf8_ok_append utf8_ok_ascii)

text \<open>A beacon that is taken goes through the discovery of \<open>DeviceManager\<close>.\<close>

lemma dc_beacon_cases:
  assumes "dc_beacon datagram sender_ip sock connected dc = Inr (Some dc')"
  obtains (ignored) "dc_same dc dc'"
  | (taken) d sp where "dc_found subpi_found (subpi_info sender_ip (sp_next_port (dc_subpi dc)) sock) dc = Inr d"
      "dc' = d\<lparr>dc_subpi := sp\<rparr>" "sp_next_port sp = sp_next_port (dc_subpi dc) + 1"
proof -
  obtain started sp1 where q: "requestStartStream sock connected (sp_next_port (dc_subpi dc)) (dc_subpi dc) = (started, sp1)"
    by force
  then have p: "sp_next_port sp1 = sp_next_port (dc_subpi dc)"
    by (auto simp: requestStartStream_def split: if_splits)
  let ?info = "subpi_info sender_ip (sp_next_port (dc_subpi dc)) sock"
  show thesis
  proof (cases "datagram = [] \<or> \<not> str_contains ''SUB_PI_ALIVE'' (c_str (take (beacon_buffer - 1) datagram)) \<or>
      is_device_registered (subpi_id sender_ip) (dc_manager dc) \<or> \<not> started")
    case True
    with assms q have "dc' = dc\<lparr>dc_subpi := dc_subpi dc\<rparr> \<or> dc' = dc\<lparr>dc_subpi := sp1\<rparr>"
      by (cases started) (simp_all add: dc_beacon_def beacon_round_def Let_def split: if_splits)
    with p have "dc_same dc dc'" by (auto simp: dc_same_def)
    then show thesis by (rule ignored)
  next
    case False
    with q have "requestStartStream sock connected (sp_next_port (dc_subpi dc)) (dc_subpi dc) = (True, sp1)" by simp
    with False assms p obtain d sp where "dc_found subpi_found ?info dc = Inr d"
      "start_listener (subpi_id sender_ip) sock (sp1\<lparr>sp_next_port := sp_next_port sp1 + 1\<rparr>) = Some sp"
      "dc' = d\<lparr>dc_subpi := sp\<rparr>"
      by (auto simp: dc_beacon_def beacon_round_def Let_def rbind_Inr_iff)
    with p start_listener_port [OF this(2)] show thesis by (intro taken) simp_all
  qed
qed

lemma beacon_good:
  assumes "dc_beacon datagram sender_ip sock connected dc = Inr (Some dc')" "dc_good dc" "utf8_ok sender_ip"
  shows "dc_good dc'"
  using assms(1)
proof (cases rule: dc_beacon_cases)
  case ignored
  with assms(2) show ?thesis by (simp add: dc_good_same)
next
  case (taken d sp)
  then have "dc_good d"
    using dc_found_good [of dc subpi_found "subpi_info sender_ip (sp_next_port (dc_subpi dc)) sock"] assms(2)
      found_good(1) [OF _ _ subpi_info_utf8 [OF assms(3)]] by (auto simp: dc_good_def)
  with taken show ?thesis by (simp add: dc_good_def)
qed

text \<open>A status that a listener passes on is an object.\<close>

lemma on_available_object: "on_available device j = Inr r \<Longrightarrow> is_object j \<and> r = Event (SubAvailable device j)"
  by (cases "is_object j") (auto simp: on_available_def rbind_Inr_iff json_value_not_object)

lemma react_available:
  "react device fd t j net = Inr (Event (SubAvailable d status), net') \<Longrightarrow> is_object status \<and> status = j"
  by (auto simp: react_def rbind_Inr_iff on_ai_def on_image_def on_meta_def Let_def
      split: if_splits option.splits prod.splits dest!: on_available_object)

lemma listener_event:
  assumes "listener_round ret device fd errors net = Inr (go_on, Some ev, errors', net')"
  obtains t raw j net1 where "json_parse raw = Inr j" "react device fd t j net1 = Inr (Event ev, net')"
proof -
  from assms obtain h net1 where h: "recv_header fd net = (Some h, net1)"
    by (auto simp: listener_round_def split: if_splits option.splits prod.splits)
  let ?n = "unat (ntohl (ph_body_length h))"
  from assms h obtain raw net2 where b: "recvExact fd ?n net1 = (Some raw, net2)"
    by (auto simp: listener_round_def Let_def split: if_splits option.splits prod.splits)
  from assms h b obtain j where j: "json_parse raw = Inr j"
    by (auto simp: listener_round_def Let_def split: if_splits sum.splits)
  from assms h b j obtain r net3 where r: "react device fd (ph_type h) j net2 = Inr (r, net3)"
    by (auto simp: listener_round_def Let_def rbind_Inr_iff split: if_splits)
  with assms h b j have "r = Event ev \<and> net3 = net'"
    by (auto simp: listener_round_def Let_def split: if_splits reaction.splits)
  with that j r show thesis by blast
qed

lemma listener_round_available:
  assumes "listener_round ret device fd errors net = Inr (go_on, Some (SubAvailable d status), errors', net')"
  shows "is_object status \<and> json_good status"
proof -
  obtain t raw j net1 where "json_parse raw = Inr j" "react device fd t j net1 = Inr (Event (SubAvailable d status), net')"
    by (rule listener_event [OF assms])
  with react_available json_parse_good show ?thesis by blast
qed

lemma available_good:
  "dm_good dm \<Longrightarrow> is_object status \<Longrightarrow> json_good status \<Longrightarrow> dm_good (available_event device status dm)"
  using om_assign_subset [of device status "dm_device_status dm"] by (auto simp: dm_good_def available_event_def)

lemma dc_listener_cases:
  assumes "dc_listener_round ret device fd errors dc = Inr (go_on, errors', dc')"
  obtains ev net where "listener_round ret device fd errors (sp_net (dc_subpi dc)) = Inr (go_on, ev, errors', net)"
    "(case ev of None \<Rightarrow> Inr (dc\<lparr>dc_subpi := (dc_subpi dc)\<lparr>sp_net := net\<rparr>\<rparr>)
      | Some e \<Rightarrow> on_subpi_event e (dc\<lparr>dc_subpi := (dc_subpi dc)\<lparr>sp_net := net\<rparr>\<rparr>)) = Inr dc'"
  using assms by (auto simp: dc_listener_round_def rbind_Inr_iff Let_def)

lemma subpi_event_devices:
  "on_subpi_event e dc = Inr dc' \<Longrightarrow>
   dm_devices (dc_manager dc') = dm_devices (dc_manager dc) \<and> dc_rtsp dc' = dc_rtsp dc
   \<and> sp_next_port (dc_subpi dc') = sp_next_port (dc_subpi dc)"
  by (cases e) (auto simp: on_subpi_event_def available_event_def rbind_Inr_iff)

lemma listener_devices:
  "dc_listener_round ret device fd errors dc = Inr (go_on, errors', dc') \<Longrightarrow>
   dm_devices (dc_manager dc') = dm_devices (dc_manager dc) \<and> dc_rtsp dc' = dc_rtsp dc
   \<and> sp_next_port (dc_subpi dc') = sp_next_port (dc_subpi dc)"
  by (erule dc_listener_cases) (auto split: option.splits dest: subpi_event_devices)

lemma listener_good:
  assumes "dc_listener_round ret device fd errors dc = Inr (go_on, errors', dc')" "dc_good dc"
  shows "dc_good dc'"
proof -
  obtain ev net where l: "listener_round ret device fd errors (sp_net (dc_subpi dc)) = Inr (go_on, ev, errors', net)"
    and e: "(case ev of None \<Rightarrow> Inr (dc\<lparr>dc_subpi := (dc_subpi dc)\<lparr>sp_net := net\<rparr>\<rparr>)
      | Some e \<Rightarrow> on_subpi_event e (dc\<lparr>dc_subpi := (dc_subpi dc)\<lparr>sp_net := net\<rparr>\<rparr>)) = Inr dc'"
    by (rule dc_listener_cases [OF assms(1)])
  show ?thesis
  proof (cases "\<exists>d status. ev = Some (SubAvailable d status)")
    case True
    then obtain d status where ev: "ev = Some (SubAvailable d status)" by blast
    from listener_round_available [OF l [unfolded ev]] e ev assms(2) show ?thesis
      by (auto simp: on_subpi_event_def dc_good_def available_good)
  next
    case False
    with e assms(2) show ?thesis
      by (auto simp: on_subpi_event_def dc_good_def rbind_Inr_iff split: option.splits subpi_event.splits)
  qed
qed

lemma welcome_same: "dc_welcome fd dc = Inr dc' \<Longrightarrow> dc_same dc dc'"
  by (auto simp: dc_welcome_def dc_same_def rbind_Inr_iff)

lemma command_same: "onDeviceCommand body dc = Inr dc' \<Longrightarrow> dc_same dc dc'"
  by (auto simp: onDeviceCommand_def dc_same_def rbind_Inr_iff split: if_splits)

lemma request_same:
  assumes "dc_handler_round fd dc = Inr (go_on, dc')"
  shows "dc_same dc dc'"
proof -
  from assms obtain rq s where h: "is_handler_round fd (dc_internal dc) = Inr (rq, s)"
    by (auto simp: dc_handler_round_def rbind_Inr_iff)
  show ?thesis
  proof (cases rq)
    case (ReqDevice body)
    with assms h have "onDeviceCommand body (dc\<lparr>dc_internal := s\<rparr>) = Inr dc'"
      by (auto simp: dc_handler_round_def Let_def rbind_Inr_iff)
    from command_same [OF this] show ?thesis by (simp add: dc_same_def)
  qed (use assms h in \<open>auto simp: dc_handler_round_def Let_def rbind_Inr_iff dc_same_def\<close>)
qed

interpretation good_cameras: camera_invariant dc_good
proof (unfold_locales, goal_cases)
  case (1 info dc dc')
  have "dm_good dm" if "hanwha_found info (dc_manager dc) = (r, dm)" for r dm
    using found_good(2) [OF that _ 1(1)] 1(5) by (simp add: dc_good_def)
  with dc_found_good [OF 1(5), of hanwha_found info] 1(4) show ?case by auto
qed (simp add: dc_good_def)

lemma dev_step_good: "dev_step dc dc' \<Longrightarrow> dc_good dc \<Longrightarrow> dc_good dc'"
proof (induction rule: dev_step.induct)
  case (monitor env dc dc')
  with monitor_cycle_returns [of dc env] show ?case by auto
qed (auto simp: beacon_good listener_good dc_good_same [OF internal_same] dc_good_same
    intro: good_cameras.probe_keeps good_cameras.arp_keeps dest: welcome_same request_same)

lemma dev_steps_good: "rtranclp dev_step dc0 dc \<Longrightarrow> dc_good dc0 \<Longrightarrow> dc_good dc"
  by (induction rule: rtranclp_induct) (auto intro: dev_step_good)

section \<open>Properties\<close>


definition sample_dc :: device_controller where
  "sample_dc =
     \<lparr>dc_running = True, dc_manager = dm_init, dc_subpi = subpi_init (\<lambda>_. sample_sock), dc_onvif = onvif_init,
      dc_rtsp = rtsp_start rtsp_init,
      dc_internal = \<lparr>cn_running = False, cn_server_fd = -1, cn_open = [], cn_client_fds = [], cn_threads = [],
        cn_finished = [], cn_acceptor = Cleaning, cn_terminated = False, is_net = (\<lambda>_. sample_sock)\<rparr>,
      dc_providers_set = False, dc_ifaddrs = Some [''127.0.0.1'', ''10.0.0.2'']\<rparr>"

lemma sample_dc_good: "dc_good sample_dc"
  by (simp add: sample_dc_def dc_good_def dm_good_def dm_init_def utf8_ok_ascii)

lemma sample_beacon:
  obtains dc' where "dc_beacon ''SUB_PI_ALIVE'' ''10.0.0.7'' 5 True sample_dc = Inr (Some dc')"
    "om_find (subpi_id ''10.0.0.7'') (dm_devices (dc_manager dc')) = Some (subpi_info ''10.0.0.7'' 15001 5)"
proof -
  have "str_contains ''SUB_PI_ALIVE'' ''SUB_PI_ALIVE''" by (simp add: str_contains_def)
  then show thesis
    using that
    by (auto simp: dc_beacon_def beacon_round_def sample_dc_def subpi_init_def beacon_buffer_def is_device_registered_def
        dm_init_def requestStartStream_def dc_found_def subpi_found_def device_found_def put_device_def Let_def
        on_device_registered_def on_device_changed_def when_provided_def broadcastCameraList_def
        broadcastDeviceStatus_def start_listener_def assign_listener_def sp_cleanupFinishedThreads_def
        subpi_info_def default_device_info_def)
qed


end
