(* ===== verification/InternalClient.thy ===== *)
theory InternalClient
  imports Framing JsonParsed
begin

text \<open>
  \<open>ClientServer/src/InternalClient.cpp\<close>: the connection of the ClientServer to the DeviceServer. The
  pushed packets update the caches or become callback events. What \<open>select\<close> returns is an
  argument; a callback call is a value of \<open>push_event\<close>. An exception other than
  \<open>json::parse_error\<close> leaves the thread, which terminates the process.
\<close>

record internal_client =
  ic_running :: bool
  ic_current_fd :: fd
  ic_cached_cameras :: json
  ic_cached_device_status :: json
  ic_net :: net

datatype push_event = AiEvent json | ImageEvent json bytes | MetaEvent json

definition internal_client_init :: "net \<Rightarrow> internal_client" where
  "internal_client_init net =
     \<lparr>ic_running = False, ic_current_fd = -1, ic_cached_cameras = JArray [],
      ic_cached_device_status = JArray [], ic_net = net\<rparr>"

section \<open>Start, stop, caches\<close>

definition ic_start :: "internal_client \<Rightarrow> internal_client" where
  "ic_start ic = (if ic_running ic then ic else ic\<lparr>ic_running := True\<rparr>)"

definition ic_stop :: "internal_client \<Rightarrow> internal_client" where
  "ic_stop ic =
     (if \<not> ic_running ic then ic
      else ic\<lparr>ic_running := False,
              ic_net := (if ic_current_fd ic \<noteq> -1 then sock_shutdown (ic_current_fd ic) (ic_net ic)
                         else ic_net ic)\<rparr>)"

definition getCameraList :: "internal_client \<Rightarrow> json" where
  "getCameraList ic = ic_cached_cameras ic"

definition getDeviceStatus :: "internal_client \<Rightarrow> json" where
  "getDeviceStatus ic = ic_cached_device_status ic"

section \<open>Sending\<close>

definition ic_sendMessage :: "fd \<Rightarrow> message_type \<Rightarrow> json \<Rightarrow> net \<Rightarrow> exn + (bool \<times> net)" where
  "ic_sendMessage fd t body net =
     rbind (json_dump body) (\<lambda>body_str. Inr (send_packet htonl fd t body_str net))"

definition sendDeviceCommand :: "json \<Rightarrow> internal_client \<Rightarrow> exn + internal_client" where
  "sendDeviceCommand body ic =
     (if ic_current_fd ic \<noteq> -1 then
        rbind (ic_sendMessage (ic_current_fd ic) DEVICE body (ic_net ic))
          (\<lambda>(r, net). Inr (ic\<lparr>ic_net := net\<rparr>))
      else Inr ic)"

section \<open>Receiving\<close>

text \<open>\<open>try { json::parse(s) } catch (const json::parse_error&)\<close>; \<open>None\<close> is the handler.\<close>

definition parse_caught :: "string \<Rightarrow> exn + json option" where
  "parse_caught s =
     (case json_parse s of
        Inr j \<Rightarrow> Inr (Some j)
      | Inl e \<Rightarrow> if is_parse_error e then Inr None else Inl e)"

definition max_jpeg :: nat where
  "max_jpeg = 10 * 1024 * 1024"

definition receive_image :: "fd \<Rightarrow> json \<Rightarrow> internal_client \<Rightarrow> exn + (push_event option \<times> internal_client)" where
  "receive_image fd meta ic =
     rbind (json_value from_json_int meta ''jpeg_size'' 0) (\<lambda>size.
       let jpeg_size = unat size in
       if 0 < jpeg_size \<and> jpeg_size < max_jpeg then
         (case recvExact fd jpeg_size (ic_net ic) of
            (None, net) \<Rightarrow> Inr (None, ic\<lparr>ic_net := net\<rparr>)
          | (Some jpeg, net) \<Rightarrow> Inr (Some (ImageEvent meta jpeg), ic\<lparr>ic_net := net\<rparr>))
       else Inr (None, ic))"

definition dispatchPushEvent ::
    "message_type \<Rightarrow> bytes \<Rightarrow> fd \<Rightarrow> internal_client \<Rightarrow> exn + (push_event option \<times> internal_client)" where
  "dispatchPushEvent t body fd ic =
     (if t \<in> {CAMERA, AVAILABLE, AI, IMAGE, META} then
        rbind (parse_caught body) (\<lambda>parsed.
          case parsed of
            None \<Rightarrow> Inr (None, ic)
          | Some j \<Rightarrow>
            (if t = CAMERA then Inr (None, ic\<lparr>ic_cached_cameras := j\<rparr>)
             else if t = AVAILABLE then Inr (None, ic\<lparr>ic_cached_device_status := j\<rparr>)
             else if t = AI then Inr (Some (AiEvent j), ic)
             else if t = IMAGE then receive_image fd j ic
             else Inr (Some (MetaEvent j), ic)))
      else Inr (None, ic))"

text \<open>The first component is the result of the function: whether the connection goes on.\<close>

definition handleIncoming ::
    "int \<Rightarrow> fd \<Rightarrow> internal_client \<Rightarrow> exn + (bool \<times> push_event option \<times> internal_client)" where
  "handleIncoming ret fd ic =
     (if ret < 0 then Inr (False, None, ic)
      else if ret = 0 then Inr (True, None, ic)
      else (case recv_header fd (ic_net ic) of
              (None, net) \<Rightarrow> Inr (False, None, ic\<lparr>ic_net := net\<rparr>)
            | (Some h, net1) \<Rightarrow>
              (let body_len = unat (ntohl (ph_body_length h)); ic1 = ic\<lparr>ic_net := net1\<rparr>
               in if body_len = 0 \<or> 1024 * 1024 < body_len then Inr (True, None, ic1)
                  else (case recvExact fd body_len net1 of
                          (None, net2) \<Rightarrow> Inr (False, None, ic1\<lparr>ic_net := net2\<rparr>)
                        | (Some buf, net2) \<Rightarrow>
                          rbind (dispatchPushEvent (ph_type h) buf fd (ic1\<lparr>ic_net := net2\<rparr>))
                            (\<lambda>(ev, ic2). Inr (True, ev, ic2))))))"

text \<open>
  The inner loop of \<open>connectionLoop\<close> over the results of successive \<open>select\<close> calls, with the events
  in the order of the callbacks.
\<close>

fun incoming_loop :: "int list \<Rightarrow> fd \<Rightarrow> internal_client \<Rightarrow> exn + (push_event list \<times> internal_client)" where
  "incoming_loop [] fd ic = Inr ([], ic)"
| "incoming_loop (ret # rets) fd ic =
     (if \<not> ic_running ic then Inr ([], ic)
      else rbind (handleIncoming ret fd ic) (\<lambda>(go_on, ev, ic1).
             if go_on then
               rbind (incoming_loop rets fd ic1) (\<lambda>(evs, ic2).
                 Inr ((case ev of None \<Rightarrow> evs | Some e \<Rightarrow> e # evs), ic2))
             else Inr ([], ic1)))"

text \<open>One attempt of \<open>connectionLoop\<close>: what \<open>socket\<close> and \<open>connect\<close> return, then the connection.\<close>

definition connection_attempt ::
    "fd \<Rightarrow> bool \<Rightarrow> int list \<Rightarrow> internal_client \<Rightarrow> exn + (push_event list \<times> internal_client)" where
  "connection_attempt sock_fd connected rets ic =
     (if sock_fd < 0 then Inr ([], ic)
      else if \<not> connected then Inr ([], ic\<lparr>ic_net := sock_close sock_fd (ic_net ic)\<rparr>)
      else rbind (incoming_loop rets sock_fd (ic\<lparr>ic_current_fd := sock_fd\<rparr>)) (\<lambda>(evs, ic1).
             Inr (evs, ic1\<lparr>ic_current_fd := -1, ic_net := sock_close sock_fd (ic_net ic1)\<rparr>)))"

section \<open>The caches\<close>

lemma receive_image_caches:
  "receive_image fd meta ic = Inr (ev, ic') \<Longrightarrow>
   ic_cached_cameras ic' = ic_cached_cameras ic \<and> ic_cached_device_status ic' = ic_cached_device_status ic"
  by (auto simp: receive_image_def rbind_Inr_iff Let_def case_prod_unfold split: if_splits option.splits)

lemma parse_caught_good: "parse_caught s = Inr (Some j) \<Longrightarrow> json_good j"
  by (auto simp: parse_caught_def json_parse_good split: sum.splits if_splits)

lemma dispatch_caches:
  assumes "dispatchPushEvent t body fd ic = Inr (ev, ic')"
    and "json_good (getCameraList ic)" "json_good (getDeviceStatus ic)"
  shows "json_good (getCameraList ic') \<and> json_good (getDeviceStatus ic')"
  using assms parse_caught_good [of body]
  by (auto simp: dispatchPushEvent_def rbind_Inr_iff getCameraList_def getDeviceStatus_def
      dest!: receive_image_caches split: if_splits option.splits)

text \<open>A packet of the DeviceServer replaces a cache by a parsed value.\<close>

lemma incoming_caches:
  assumes "handleIncoming ret fd ic = Inr (b, ev, ic')"
    and "json_good (getCameraList ic)" "json_good (getDeviceStatus ic)"
  shows "json_good (getCameraList ic') \<and> json_good (getDeviceStatus ic')"
  using assms dispatch_caches [of _ _ fd "ic\<lparr>ic_net := _\<rparr>" ev ic']
  by (auto simp: handleIncoming_def rbind_Inr_iff Let_def getCameraList_def getDeviceStatus_def
      split: if_splits option.splits prod.splits)

end
