(* ===== verification/ServerLink.thy ===== *)
theory ServerLink
  imports DeviceServing InternalClient
begin

text \<open>
  The link between the two servers: what \<open>InternalServer\<close> sends is what \<open>InternalClient\<close> handles. A
  packet of the one is a step of the other, over any splitting of the stream.
\<close>

section \<open>A packet received\<close>

text \<open>A whole packet with a body is read and dispatched.\<close>

lemma incoming_packet:
  assumes "0 < ret" "rx_ok (ic_net ic fd)" "sk_rx (ic_net ic fd) = packet_bytes htonl t raw @ rest"
    and "type_wf t" "raw \<noteq> []" "length raw \<le> 1024 * 1024"
  obtains net where "received_upto fd rest (ic_net ic) net"
    "handleIncoming ret fd ic =
       rbind (dispatchPushEvent t raw fd (ic\<lparr>ic_net := net\<rparr>)) (\<lambda>(ev, ic2). Inr (True, ev, ic2))"
proof -
  have len: "length raw < 2 ^ 32" using assms(6) by simp
  obtain h net1 net2 where h: "recv_header fd (ic_net ic) = (Some h, net1)" "ph_type h = t"
    "unat (ntohl (ph_body_length h)) = length raw"
    "recvExact fd (length raw) net1 = (Some raw, net2)" "received_upto fd rest (ic_net ic) net2"
    by (rule internal_framing.recv_packet [of "ic_net ic" fd t raw rest, OF assms(2-4) len])
  with assms(1,5,6) that show thesis by (simp add: handleIncoming_def Let_def)
qed

lemma dump_nonempty: "json_wf j \<Longrightarrow> json_floats_ok j \<Longrightarrow> json_dump j \<noteq> Inr []"
  using json_parse_dump [of j "[]"] json_parse_empty by auto

lemma incoming_value:
  assumes "0 < ret" "rx_ok (ic_net ic fd)" "sk_rx (ic_net ic fd) = packet_bytes htonl t raw @ rest"
    and "t = CAMERA \<or> t = AVAILABLE" "length raw \<le> 1024 * 1024"
    and "json_wf j" "json_floats_ok j" "json_dump j = Inr raw"
  obtains net where "received_upto fd rest (ic_net ic) net"
    "handleIncoming ret fd ic = Inr (True, None,
       (if t = CAMERA then ic\<lparr>ic_net := net, ic_cached_cameras := json_norm j\<rparr>
        else ic\<lparr>ic_net := net, ic_cached_device_status := json_norm j\<rparr>))"
proof -
  have t: "type_wf t" "raw \<noteq> []" using assms(4) dump_nonempty [OF assms(6,7)] assms(8) by (auto simp: type_wf_def)
  obtain net where "received_upto fd rest (ic_net ic) net"
    "handleIncoming ret fd ic =
       rbind (dispatchPushEvent t raw fd (ic\<lparr>ic_net := net\<rparr>)) (\<lambda>(ev, ic2). Inr (True, ev, ic2))"
    by (rule incoming_packet [OF assms(1-3) t assms(5)])
  with that assms(4) json_parse_dump [OF assms(6-8)] show thesis
    by (auto simp: dispatchPushEvent_def parse_caught_def)
qed

section \<open>A command through both servers\<close>

lemma is_round_packet:
  assumes "rx_ok (is_net s fd)" "sk_rx (is_net s fd) = packet_bytes htonl t raw @ rest"
    and "type_wf t" "raw \<noteq> []" "length raw < 1024 * 1024" "json_parse raw = Inr j"
  obtains net where "received_upto fd rest (is_net s) net"
    "is_handler_round fd s = rbind (request_of t j) (\<lambda>rq. Inr (rq, s\<lparr>is_net := net\<rparr>))"
proof -
  have len: "length raw < 2 ^ 32" using assms(5) by simp
  obtain h net1 net2 where h: "recv_header fd (is_net s) = (Some h, net1)" "ph_type h = t"
    "unat (ntohl (ph_body_length h)) = length raw"
    "recvExact fd (length raw) net1 = (Some raw, net2)" "received_upto fd rest (is_net s) net2"
    by (rule internal_framing.recv_packet [of "is_net s" fd t raw rest, OF assms(1-3) len])
  with assms(4-6) that show thesis by (simp add: is_handler_round_def Let_def)
qed

text \<open>The body that a Sub-Pi gets, and its packet.\<close>

definition motor_value :: "string \<Rightarrow> string \<Rightarrow> json" where
  "motor_value ip motor = JObject [(''device'', JString ip), (''motor'', JString motor)]"

lemma motor_value_good: "utf8_ok ip \<Longrightarrow> utf8_ok motor \<Longrightarrow> json_good (motor_value ip motor)"
  by (simp add: motor_value_def json_good_def om_wf_Cons utf8_ok_ascii)

lemma motor_fd_target:
  assumes "0 \<le> motor_fd ip dm"
  shows "\<exists>info \<in> set (getDeviceList dm). dev_type info = SUB_PI \<and> dev_is_online info \<and> dev_ip info = ip \<and>
    dev_command_socket_fd info = motor_fd ip dm"
proof -
  from assms obtain info where f: "find (motor_target ip) (getDeviceList dm) = Some info"
    by (auto simp: motor_fd_def split: option.splits)
  then have "info \<in> set (getDeviceList dm)" "motor_target ip info" by (auto simp: find_Some_iff)
  moreover have "dev_command_socket_fd info = motor_fd ip dm" using f by (simp add: motor_fd_def)
  ultimately show ?thesis by (auto simp: motor_target_def)
qed

lemma motor_packet:
  assumes "0 \<le> motor_fd ip dm" "json_dump (motor_value ip motor) = Inr cmd" "tx_ok (net (motor_fd ip dm))"
  obtains net' where "sendMotorCommand ip motor dm net = Inr (True, net')"
    "sk_tx (net' (motor_fd ip dm)) = sk_tx (net (motor_fd ip dm)) @ packet_bytes htonl DEVICE cmd"
    "\<forall>g. g \<noteq> motor_fd ip dm \<longrightarrow> net' g = net g"
proof -
  have b: "motor_body ip motor = Inr (motor_value ip motor)" by (simp add: motor_body_def motor_value_def)
  have "cmd \<noteq> []"
    using dump_nonempty [of "motor_value ip motor"] assms(2) by (auto simp: motor_value_def om_wf_Cons)
  then have "sendMotorCommand ip motor dm net = Inr (send_packet htonl (motor_fd ip dm) DEVICE cmd net)"
    using assms(1,2) b by (auto simp: sendMotorCommand_def send_packet_def Let_def split: prod.split bool.split)
  moreover obtain net' where "send_packet htonl (motor_fd ip dm) DEVICE cmd net = (True, net')"
    "sk_tx (net' (motor_fd ip dm)) = sk_tx (net (motor_fd ip dm)) @ packet_bytes htonl DEVICE cmd"
    "\<forall>g. g \<noteq> motor_fd ip dm \<longrightarrow> net' g = net g"
    by (rule internal_framing.send_packet_ok [of net "motor_fd ip dm" DEVICE cmd, OF assms(3)])
  ultimately show thesis using that by simp
qed

lemma command_sent:
  assumes "sendDeviceCommand body ic = Inr ic'" "ic_current_fd ic = cfd" "cfd \<noteq> -1" "json_dump body = Inr raw"
    and "tx_ok (ic_net ic cfd)"
  shows "sk_tx (ic_net ic' cfd) = sk_tx (ic_net ic cfd) @ packet_bytes htonl DEVICE raw"
proof -
  obtain net where "send_packet htonl cfd DEVICE raw (ic_net ic) = (True, net)"
    "sk_tx (net cfd) = sk_tx (ic_net ic cfd) @ packet_bytes htonl DEVICE raw"
    by (rule internal_framing.send_packet_ok [of "ic_net ic" cfd DEVICE raw, OF assms(5)])
  with assms(1-4) show ?thesis by (auto simp: sendDeviceCommand_def ic_sendMessage_def)
qed

text \<open>
  C31: a motor command of a viewer reaches its Sub-Pi: what the ClientServer forwards, read by the
  DeviceServer from any splitting of the stream, makes it write exactly one packet, with the address
  and the command, to the command socket of the online Sub-Pi with that address, and nothing to
  any other.
\<close>

theorem motor_command_arrives:
  assumes "sendDeviceCommand body ic = Inr ic'" "ic_current_fd ic = cfd" "cfd \<noteq> -1"
    and "tx_ok (ic_net ic cfd)" "sk_tx (ic_net ic cfd) = []"
    and "json_wf body" "json_floats_ok body" "json_dump body = Inr raw" "length raw < 1024 * 1024"
    and "rx_ok (is_net (dc_internal dc) fd)" "sk_rx (is_net (dc_internal dc) fd) = sk_tx (ic_net ic' cfd) @ rest"
    and "value_string (json_norm body) ''device'' [] = Inr ip" "value_string (json_norm body) ''motor'' [] = Inr motor"
    and "ip \<noteq> []" "motor \<noteq> []"
    and "motor_fd ip (dc_manager dc) = pfd" "0 \<le> pfd" "tx_ok (sp_net (dc_subpi dc) pfd)"
  shows "\<exists>dc' cmd. dc_handler_round fd dc = Inr (True, dc') \<and> json_dump (motor_value ip motor) = Inr cmd \<and>
    sk_tx (sp_net (dc_subpi dc') pfd) = sk_tx (sp_net (dc_subpi dc) pfd) @ packet_bytes htonl DEVICE cmd \<and>
    (\<forall>g. g \<noteq> pfd \<longrightarrow> sp_net (dc_subpi dc') g = sp_net (dc_subpi dc) g) \<and>
    (\<exists>info \<in> set (getDeviceList (dc_manager dc)). dev_type info = SUB_PI \<and> dev_is_online info \<and>
       dev_ip info = ip \<and> dev_command_socket_fd info = pfd)"
proof -
  note parse = json_parse_dump [OF assms(6-8)]
  have good: "json_good (json_norm body)" using json_parse_good [OF parse] by blast
  obtain d where d: "json_dump (json_norm body) = Inr d" using json_good_dump [OF good] ..
  have "json_good (motor_value ip motor)"
    using value_string_result(1) [OF good _ assms(12)] value_string_result(1) [OF good _ assms(13)]
    by (intro motor_value_good) simp_all
  then obtain cmd where cmd: "json_dump (motor_value ip motor) = Inr cmd" using json_good_dump by blast
  have "raw \<noteq> []" using parse json_parse_empty by auto
  have rx: "sk_rx (is_net (dc_internal dc) fd) = packet_bytes htonl DEVICE raw @ rest"
    using assms(11) command_sent [OF assms(1-3,8,4)] assms(5) by simp
  obtain net where r: "is_handler_round fd (dc_internal dc)
      = rbind (request_of DEVICE (json_norm body)) (\<lambda>rq. Inr (rq, (dc_internal dc)\<lparr>is_net := net\<rparr>))"
    by (rule is_round_packet [OF assms(10) rx _ \<open>raw \<noteq> []\<close> assms(9) parse]) (simp add: type_wf_def)
  obtain net' where m: "sendMotorCommand ip motor (dc_manager dc) (sp_net (dc_subpi dc)) = Inr (True, net')"
    "sk_tx (net' pfd) = sk_tx (sp_net (dc_subpi dc) pfd) @ packet_bytes htonl DEVICE cmd"
    "\<forall>g. g \<noteq> pfd \<longrightarrow> net' g = sp_net (dc_subpi dc) g"
    using motor_packet [of ip "dc_manager dc" motor cmd "sp_net (dc_subpi dc)"] assms(16-18) cmd by metis
  with r d assms(12-15) cmd motor_fd_target [of ip "dc_manager dc"] assms(16,17) show ?thesis
    by (simp add: dc_handler_round_def request_of_def Let_def onDeviceCommand_def)
qed

definition sample_command :: json where
  "sample_command = motor_value ''10.0.0.7'' ''left''"

definition sample_command_text :: string where
  "sample_command_text = ''{'' @ [CHR 0x22] @ ''device'' @ [CHR 0x22] @ '':'' @ [CHR 0x22] @ ''10.0.0.7'' @ [CHR 0x22] @ '',''
     @ [CHR 0x22] @ ''motor'' @ [CHR 0x22] @ '':'' @ [CHR 0x22] @ ''left'' @ [CHR 0x22] @ ''}''"

lemma sample_command_dump: "json_dump sample_command = Inr sample_command_text"
  by (simp add: sample_command_def motor_value_def sample_command_text_def dump_string_def dump_escaped_text
      escape_text_def escape_byte_def escape_codepoint_def utf8_follow_def)

lemma sample_command_props:
  "json_wf sample_command" "json_floats_ok sample_command" "json_norm sample_command = sample_command"
  "value_string sample_command ''device'' [] = Inr ''10.0.0.7''" "value_string sample_command ''motor'' [] = Inr ''left''"
  by (simp_all add: sample_command_def motor_value_def om_wf_Cons json_value_def)

definition sample_client :: internal_client where
  "sample_client = (internal_client_init (\<lambda>_. sample_sock))\<lparr>ic_running := True, ic_current_fd := 7\<rparr>"

definition sample_dc_reading :: "bytes \<Rightarrow> device_controller" where
  "sample_dc_reading rx = sample_dc
     \<lparr>dc_manager := dm_init\<lparr>dm_devices := [(subpi_id ''10.0.0.7'', subpi_info ''10.0.0.7'' 15001 5)]\<rparr>,
      dc_internal := (dc_internal sample_dc)\<lparr>is_net := (\<lambda>_. sample_sock\<lparr>sk_rx := rx\<rparr>)\<rparr>\<rparr>"

lemma sample_sock_ok: "rx_ok (sample_sock\<lparr>sk_rx := rx\<rparr>)" "tx_ok sample_sock" "sk_tx sample_sock = []"
  by (simp_all add: sample_sock_def rx_ok_def tx_ok_def)

lemma motor_command_arrives_witness:
  "\<exists>dc'. dc_handler_round 9 (sample_dc_reading (packet_bytes htonl DEVICE sample_command_text)) = Inr (True, dc') \<and>
     sk_tx (sp_net (dc_subpi dc') 5) = packet_bytes htonl DEVICE sample_command_text"
proof -
  let ?dc = "sample_dc_reading (packet_bytes htonl DEVICE sample_command_text)"
  obtain ic' where ic': "sendDeviceCommand sample_command sample_client = Inr ic'"
    by (simp add: sendDeviceCommand_def sample_client_def ic_sendMessage_def sample_command_dump case_prod_unfold)
  have tx: "tx_ok (ic_net sample_client 7)" "sk_tx (ic_net sample_client 7) = []" "ic_current_fd sample_client = 7"
    by (simp_all add: sample_client_def internal_client_init_def sample_sock_ok)
  have sent: "sk_tx (ic_net ic' 7) = packet_bytes htonl DEVICE sample_command_text"
    using command_sent [OF ic' tx(3) _ sample_command_dump tx(1)] tx(2) by simp
  have dc: "rx_ok (is_net (dc_internal ?dc) 9)" "sk_rx (is_net (dc_internal ?dc) 9) = sk_tx (ic_net ic' 7) @ []"
    "motor_fd ''10.0.0.7'' (dc_manager ?dc) = 5" "sp_net (dc_subpi ?dc) = (\<lambda>_. sample_sock)"
    by (simp_all add: sample_dc_reading_def sent sample_sock_ok motor_fd_def motor_target_def getDeviceList_def
        subpi_info_def default_device_info_def sample_dc_def subpi_init_def)
  have len: "length sample_command_text < 1024 * 1024" by (simp add: sample_command_text_def)
  obtain dc' cmd where "dc_handler_round 9 ?dc = Inr (True, dc')"
    "json_dump (motor_value ''10.0.0.7'' ''left'') = Inr cmd"
    "sk_tx (sp_net (dc_subpi dc') 5) = sk_tx (sp_net (dc_subpi ?dc) 5) @ packet_bytes htonl DEVICE cmd"
    using motor_command_arrives [OF ic' tx(3) _ tx(1,2) sample_command_props(1,2) sample_command_dump len dc(1,2),
        of "''10.0.0.7''" "''left''" 5] dc(3,4)
    by (auto simp: sample_command_props sample_sock_ok)
  with dc(4) sample_command_dump show ?thesis by (simp add: sample_command_def sample_sock_ok)
qed

section \<open>The welcome\<close>


text \<open>A DeviceServer with one Sub-Pi, and its camera list as text.\<close>

definition sample_dc_ready :: device_controller where
  "sample_dc_ready = (sample_dc_reading [])\<lparr>dc_providers_set := True\<rparr>"

definition sample_cams :: json where
  "sample_cams = JArray [JObject [(''ip'', JString ''10.0.0.7''), (''is_online'', JBool True),
     (''source_url'', JString ''rtsp://10.0.0.2:8554/SubPi_10.0.0.7''), (''type'', JString ''SUB_PI'')]]"

definition in_quotes :: "string \<Rightarrow> string" where
  "in_quotes s = [CHR 0x22] @ s @ [CHR 0x22]"

definition sample_cams_text :: string where
  "sample_cams_text = ''[{'' @ in_quotes ''ip'' @ '':'' @ in_quotes ''10.0.0.7'' @ '','' @ in_quotes ''is_online'' @ '':true,''
     @ in_quotes ''source_url'' @ '':'' @ in_quotes ''rtsp://10.0.0.2:8554/SubPi_10.0.0.7'' @ '','' @ in_quotes ''type'' @ '':''
     @ in_quotes ''SUB_PI'' @ ''}]''"

lemma sample_cams_dump: "json_dump sample_cams = Inr sample_cams_text"
  by (simp add: sample_cams_def sample_cams_text_def in_quotes_def dump_string_def dump_escaped_text
      escape_text_def escape_byte_def escape_codepoint_def utf8_follow_def)

lemma sample_cams_built:
  "buildCameraListJson sample_dc_ready = Inr sample_cams" "dc_device_status sample_dc_ready = Inr (JArray [])"
  by (simp_all add: provider_values statuses_ok_def sample_dc_ready_def sample_dc_reading_def dm_init_def
      getDeviceList_def camera_value_def camera_source_url_def subpi_info_def default_device_info_def subpi_id_def
      sample_dc_def getLocalIp_def loopback_def sample_cams_def)


section \<open>The largest picture\<close>

text \<open>The note that a Sub-Pi sends before a picture of 10 MB, and as it is passed on.\<close>

definition full_size_note :: json where
  "full_size_note = JObject [(''jpeg_size'', JUInt 10485760)]"

definition full_size_meta :: "string \<Rightarrow> json" where
  "full_size_meta device = JObject [(''device_id'', JString device), (''ip'', JString (drop 6 device)),
     (''jpeg_size'', JUInt 10485760)]"

lemma send_image_packet_ok:
  assumes "tx_ok (net fd)"
  obtains net' where "send_image_packet to_wire fd meta jpeg net = (True, net')"
    "sk_tx (net' fd) = sk_tx (net fd) @ packet_bytes to_wire IMAGE meta @ jpeg"
proof -
  let ?h = "header_bytes \<lparr>ph_type = IMAGE, ph_body_length = to_wire (of_nat (length meta))\<rparr>"
  obtain net1 where 1: "sendExact fd ?h net = (True, net1)" "tx_ok (net1 fd)" "sk_tx (net1 fd) = sk_tx (net fd) @ ?h"
    by (rule sendExact_ok [of net fd ?h, OF assms])
  obtain net2 where 2: "sendExact fd meta net1 = (True, net2)" "tx_ok (net2 fd)" "sk_tx (net2 fd) = sk_tx (net1 fd) @ meta"
    by (rule sendExact_ok [of net1 fd meta, OF 1(2)])
  obtain net3 where 3: "sendExact fd jpeg net2 = (True, net3)" "sk_tx (net3 fd) = sk_tx (net2 fd) @ jpeg"
    by (rule sendExact_ok [of net2 fd jpeg, OF 2(2)])
  from 1 2 3 that [of net2] that [of net3] show thesis
    by (cases "jpeg = []") (simp_all add: send_image_packet_def packet_bytes_def)
qed

text \<open>
  C33: a picture of exactly 10 MB desynchronises the link: the DeviceServer takes it from the Sub-Pi and
  sends it on, note and picture, but the ClientServer, whose bound is strict, does not read the
  picture: it reports no event, and the next header is read from the bytes of the picture.
\<close>

theorem full_size_picture_desyncs:
  assumes "length jpeg = 10 * 1024 * 1024" "json_dump (full_size_meta device) = Inr raw" "length raw \<le> 1024 * 1024"
    and "rx_ok (net pifd)" "sk_rx (net pifd) = jpeg @ later"
    and "tx_ok (is_net s fd)" "sk_tx (is_net s fd) = []"
  shows "\<exists>net' s'. react device pifd IMAGE full_size_note net = Inr (Event (SubImage device (full_size_meta device) jpeg), net') \<and>
    is_sendImageMessage fd (full_size_meta device) jpeg s = Inr (True, s') \<and>
    (\<forall>ic cfd. rx_ok (ic_net ic cfd) \<longrightarrow> sk_rx (ic_net ic cfd) = sk_tx (is_net s' fd) @ rest \<longrightarrow>
      (\<exists>ic'. handleIncoming 1 cfd ic = Inr (True, None, ic') \<and> sk_rx (ic_net ic' cfd) = jpeg @ rest))"
proof -
  have st: "stamp device full_size_note = Inr (full_size_meta device)"
    by (simp add: stamp_def full_size_note_def full_size_meta_def)
  have sz: "json_value from_json_uint (full_size_meta device) ''jpeg_size'' 0 = Inr 10485760"
    "json_value from_json_int (full_size_meta device) ''jpeg_size'' 0 = Inr 10485760"
    "json_value from_json_int (full_size_meta device) ''frame_index'' (- 1) = Inr (- 1)"
    "json_value from_json_int (full_size_meta device) ''total_frames'' (- 1) = Inr (- 1)"
    by (simp_all add: json_value_def full_size_meta_def from_json_uint_def from_json_int_def)
  obtain net' where "recvExact pifd (length jpeg) net = (Some jpeg, net')"
    by (rule recvExact_prefix [of net pifd jpeg later "length jpeg", OF assms(4,5) refl])
  then have 1: "react device pifd IMAGE full_size_note net = Inr (Event (SubImage device (full_size_meta device) jpeg), net')"
    using assms(1) by (simp add: react_def on_image_def st sz)
  obtain net1 where n: "send_image_packet htonl fd raw jpeg (is_net s) = (True, net1)"
    "sk_tx (net1 fd) = sk_tx (is_net s fd) @ packet_bytes htonl IMAGE raw @ jpeg"
    by (rule send_image_packet_ok [of "is_net s" fd htonl raw jpeg, OF assms(6)])
  have wf: "json_wf (full_size_meta device)" "json_floats_ok (full_size_meta device)"
    "json_norm (full_size_meta device) = full_size_meta device"
    by (simp_all add: full_size_meta_def om_wf_Cons)
  note parse = json_parse_dump [OF wf(1,2) assms(2), unfolded wf(3)]
  have "raw \<noteq> []" using dump_nonempty [OF wf(1,2)] assms(2) by auto
  have 2: "\<exists>ic'. handleIncoming 1 cfd ic = Inr (True, None, ic') \<and> sk_rx (ic_net ic' cfd) = jpeg @ rest"
    if ic: "rx_ok (ic_net ic cfd)" "sk_rx (ic_net ic cfd) = packet_bytes htonl IMAGE raw @ (jpeg @ rest)" for ic cfd
  proof -
    obtain net2 where "received_upto cfd (jpeg @ rest) (ic_net ic) net2" "handleIncoming 1 cfd ic =
       rbind (dispatchPushEvent IMAGE raw cfd (ic\<lparr>ic_net := net2\<rparr>)) (\<lambda>(ev, ic2). Inr (True, ev, ic2))"
      by (rule incoming_packet [OF _ ic _ \<open>raw \<noteq> []\<close> assms(3), of 1]) (simp_all add: type_wf_def)
    then show ?thesis
      by (simp add: dispatchPushEvent_def parse_caught_def parse receive_image_def sz max_jpeg_def received_upto_def)
  qed
  have "is_sendImageMessage fd (full_size_meta device) jpeg s = Inr (True, s\<lparr>is_net := net1\<rparr>)"
    using assms(2) n by (simp add: is_sendImageMessage_def)
  with 1 2 n(2) assms(7) show ?thesis by (intro exI [of _ net'] exI [of _ "s\<lparr>is_net := net1\<rparr>"]) simp
qed

definition full_size_text :: string where
  "full_size_text = ''{'' @ in_quotes ''device_id'' @ '':'' @ in_quotes ''SubPi_9'' @ '','' @ in_quotes ''ip'' @ '':''
     @ in_quotes ''9'' @ '','' @ in_quotes ''jpeg_size'' @ '':'' @ ''10485760'' @ ''}''"

lemma full_size_dump: "json_dump (full_size_meta ''SubPi_9'') = Inr full_size_text"
proof -
  have "nat_to_dec 10485760 = ''10485760''" by (simp add: nat_to_dec.simps digit_char_def, code_simp)
  then show ?thesis
    by (simp add: full_size_meta_def full_size_text_def in_quotes_def dump_string_def dump_escaped_text
        escape_text_def escape_byte_def escape_codepoint_def utf8_follow_def dump_uint_text to_string_def)
qed

lemma full_size_picture_desyncs_witness:
  "\<exists>s'. is_sendImageMessage 9 (full_size_meta ''SubPi_9'') (replicate (10 * 1024 * 1024) CHR 0xFF) (dc_internal sample_dc)
     = Inr (True, s')"
proof -
  let ?jpeg = "replicate (10 * 1024 * 1024) CHR 0xFF :: bytes"
  have "tx_ok (is_net (dc_internal sample_dc) 9)" "sk_tx (is_net (dc_internal sample_dc) 9) = []"
    by (simp_all add: sample_dc_def sample_sock_ok)
  note * = full_size_picture_desyncs [OF length_replicate full_size_dump _ _ _ this,
      of "\<lambda>_. sample_sock\<lparr>sk_rx := ?jpeg\<rparr>" 5 "CHR 0xFF" "[]" "[]"]
  have "length full_size_text \<le> 1024 * 1024" by (simp add: full_size_text_def in_quotes_def)
  moreover have "sk_rx (sample_sock\<lparr>sk_rx := ?jpeg\<rparr>) = ?jpeg @ []" by simp
  ultimately show ?thesis using * sample_sock_ok(1) by blast
qed

end
