(* ===== verification/SocketWriters.thy ===== *)
theory SocketWriters
  imports ServerLink
begin

text \<open>
  Several threads that send on one descriptor. A packet is two calls of \<open>sendExact\<close>, each of them
  several of \<open>send\<close>, so what keeps packets whole is the mutex held around them, where there is one.
  The threads run under a scheduler that may switch after any byte.
\<close>

section \<open>What the threads do\<close>

datatype mutex = ClientMutex | FdMutex | SendMutex | TlsMutex

datatype write_op = Lock mutex | Put bytes | Unlock mutex

text \<open>The two \<open>sendExact\<close> of a packet; the second is left out for an empty text.\<close>

definition packet_parts :: "(uint32 \<Rightarrow> uint32) \<Rightarrow> message_type \<Rightarrow> bytes \<Rightarrow> bytes list" where
  "packet_parts to_wire t raw =
     header_bytes \<lparr>ph_type = t, ph_body_length = to_wire (of_nat (length raw))\<rparr>
       # (if raw \<noteq> [] then [raw] else [])"

text \<open>\<open>InternalServer::sendMessage\<close> as the handler calls it for the welcome and for its replies.\<close>

definition reply_writer :: "message_type \<Rightarrow> bytes \<Rightarrow> write_op list" where
  "reply_writer t raw = map Put (packet_parts htonl t raw)"

definition locked :: "mutex \<Rightarrow> bytes list \<Rightarrow> write_op list" where
  "locked m parts = Lock m # map Put parts @ [Unlock m]"

text \<open>
  One descriptor of a broadcast of \<open>InternalServer\<close>, a command of \<open>InternalClient\<close>, a motor command of
  \<open>DeviceManager\<close>, and a message of \<open>QtCommServer\<close> whose session is up.
\<close>

definition broadcast_writer :: "message_type \<Rightarrow> bytes \<Rightarrow> write_op list" where
  "broadcast_writer t raw = locked ClientMutex (packet_parts htonl t raw)"

definition command_writer :: "bytes \<Rightarrow> write_op list" where
  "command_writer raw = locked FdMutex (packet_parts htonl DEVICE raw)"

definition motor_writer :: "bytes \<Rightarrow> write_op list" where
  "motor_writer raw = locked SendMutex (packet_parts htonl DEVICE raw)"

definition tls_writer :: "message_type \<Rightarrow> bytes \<Rightarrow> write_op list" where
  "tls_writer t cipher = locked TlsMutex (packet_parts (\<lambda>w. w) t cipher)"

section \<open>The scheduler\<close>

record writers =
  progs :: "write_op list list"
  holder :: "mutex \<Rightarrow> nat option"
  wire :: bytes

definition start_writers :: "write_op list list \<Rightarrow> writers" where
  "start_writers ps = \<lparr>progs = ps, holder = (\<lambda>m. None), wire = []\<rparr>"

text \<open>
  Thread \<open>i\<close> takes its next operation; of a \<open>Put\<close> the kernel takes \<open>n\<close> bytes, at least one. The result
  is \<open>None\<close> where the thread waits for a mutex or the choice is not possible.
\<close>

fun op_step :: "nat \<Rightarrow> nat \<Rightarrow> write_op \<Rightarrow> writers \<Rightarrow> (write_op list \<times> writers) option" where
  "op_step i n (Lock m) st =
     (if holder st m = None then Some ([], st\<lparr>holder := (holder st)(m := Some i)\<rparr>) else None)"
| "op_step i n (Unlock m) st = Some ([], st\<lparr>holder := (holder st)(m := None)\<rparr>)"
| "op_step i n (Put bs) st =
     (if n = 0 then None
      else Some (if n < length bs then [Put (drop n bs)] else [], st\<lparr>wire := wire st @ take n bs\<rparr>))"

fun write_step :: "nat \<times> nat \<Rightarrow> writers \<Rightarrow> writers option" where
  "write_step (i, n) st =
     (if i < length (progs st) then
        (case progs st ! i of
           [] \<Rightarrow> None
         | x # xs \<Rightarrow>
           (case op_step i n x st of
              None \<Rightarrow> None
            | Some (r, st') \<Rightarrow> Some (st'\<lparr>progs := (progs st)[i := r @ xs]\<rparr>)))
      else None)"

fun write_run :: "(nat \<times> nat) list \<Rightarrow> writers \<Rightarrow> writers option" where
  "write_run [] st = Some st"
| "write_run (x # xs) st = Option.bind (write_step x st) (write_run xs)"

section \<open>Packets written at once\<close>

text \<open>The specification: each turn takes the next packet of one thread as a whole.\<close>

fun atomic_run :: "nat list \<Rightarrow> 'p list list \<Rightarrow> ('p list \<times> 'p list list) option" where
  "atomic_run [] qs = Some ([], qs)"
| "atomic_run (i # is) qs =
     (if i < length qs then
        (case qs ! i of
           [] \<Rightarrow> None
         | p # ps \<Rightarrow> map_option (\<lambda>(log, rest). (p # log, rest)) (atomic_run is (qs[i := ps])))
      else None)"

lemma atomic_run_snoc:
  "atomic_run is qs = Some (log, rest) \<Longrightarrow> i < length rest \<Longrightarrow> rest ! i = p # ps \<Longrightarrow>
   atomic_run (is @ [i]) qs = Some (log @ [p], rest[i := ps])"
proof (induction "is" arbitrary: qs log)
  case (Cons j js)
  then show ?case by (auto split: if_splits list.splits)
qed simp

definition locked_all :: "mutex \<Rightarrow> bytes list list \<Rightarrow> write_op list" where
  "locked_all m ps = concat (map (locked m) ps)"

lemma locked_all_Nil [simp]: "locked_all m [] = []"
  and locked_all_Cons: "locked_all m (p # ps) = Lock m # map Put p @ Unlock m # locked_all m ps"
  by (simp_all add: locked_all_def locked_def)

text \<open>
  Between packets the mutex is free and the wire is what the turns so far wrote. Within a packet its
  thread holds the mutex, and the wire lacks what this thread has still to put.
\<close>

definition between :: "mutex \<Rightarrow> bytes list list list \<Rightarrow> writers \<Rightarrow> bool" where
  "between m qs st =
     (\<exists>turns log rest. atomic_run turns qs = Some (log, rest) \<and> holder st m = None \<and>
        progs st = map (locked_all m) rest \<and> wire st = concat (map concat log))"

definition within :: "mutex \<Rightarrow> bytes list list list \<Rightarrow> writers \<Rightarrow> bool" where
  "within m qs st =
     (\<exists>turns log rest i p ps parts. atomic_run turns qs = Some (log, rest) \<and> i < length rest \<and>
        rest ! i = p # ps \<and> holder st m = Some i \<and>
        progs st = (map (locked_all m) rest)[i := map Put parts @ Unlock m # locked_all m ps] \<and>
        wire st @ concat parts = concat (map concat log) @ concat p)"

lemma withinI:
  assumes "atomic_run turns qs = Some (log, rest)" "i < length rest" "rest ! i = p # ps" "holder st m = Some i"
    "progs st = (map (locked_all m) rest)[i := map Put parts @ Unlock m # locked_all m ps]"
    "wire st @ concat parts = concat (map concat log) @ concat p"
  shows "within m qs st"
  using assms unfolding within_def by blast

lemma between_step:
  assumes "between m qs st" "write_step (j, n) st = Some st'"
  shows "within m qs st'"
proof -
  obtain turns log rest where a: "atomic_run turns qs = Some (log, rest)" "holder st m = None"
    "progs st = map (locked_all m) rest" "wire st = concat (map concat log)"
    using assms(1) by (auto simp: between_def)
  from assms(2) a(3) have j: "j < length rest" by (auto split: if_splits)
  from assms(2) a(3) j obtain p ps where p: "rest ! j = p # ps"
    by (cases "rest ! j") auto
  with assms(2) a j have "st' = st\<lparr>holder := (holder st)(m := Some j),
      progs := (map (locked_all m) rest)[j := map Put p @ Unlock m # locked_all m ps]\<rparr>"
    by (simp add: locked_all_Cons)
  with a j p show ?thesis by (intro withinI [of turns qs log rest j p ps st' m p]) simp_all
qed

lemma within_step:
  assumes "within m qs st" "write_step (j, n) st = Some st'"
  shows "within m qs st' \<or> between m qs st'"
proof -
  obtain turns log rest i p ps parts where a: "atomic_run turns qs = Some (log, rest)" "i < length rest"
    "rest ! i = p # ps" "holder st m = Some i"
    "progs st = (map (locked_all m) rest)[i := map Put parts @ Unlock m # locked_all m ps]"
    "wire st @ concat parts = concat (map concat log) @ concat p"
    using assms(1) by (auto simp: within_def)
  from assms(2) a(5) have j: "j < length rest" by (auto split: if_splits)
  have "j = i"
  proof (rule ccontr)
    assume "j \<noteq> i"
    with assms(2) a(4,5) j show False by (cases "rest ! j") (auto simp: locked_all_Cons)
  qed
  show ?thesis
  proof (cases parts)
    case Nil
    with assms(2) a(2,5) \<open>j = i\<close> have st': "st' = st\<lparr>holder := (holder st)(m := None),
        progs := (map (locked_all m) rest)[i := locked_all m ps]\<rparr>" by simp
    have "between m qs st'" unfolding between_def
      using atomic_run_snoc [OF a(1-3)] a(6) Nil st'
      by (intro exI [of _ "turns @ [i]"] exI [of _ "log @ [p]"] exI [of _ "rest[i := ps]"])
        (simp add: map_update)
    then show ?thesis ..
  next
    case (Cons bs parts')
    let ?left = "(if n < length bs then [drop n bs] else []) @ parts'"
    have w: "take n bs @ concat ?left = bs @ concat parts'"
      by (simp flip: append_assoc)
    from Cons assms(2) a(2,5) \<open>j = i\<close> have st': "st' = st\<lparr>wire := wire st @ take n bs,
        progs := (map (locked_all m) rest)[i := map Put ?left @ Unlock m # locked_all m ps]\<rparr>"
      by (auto split: if_splits)
    have "wire st' @ concat ?left = concat (map concat log) @ concat p"
    proof -
      have "wire st' @ concat ?left = wire st @ (take n bs @ concat ?left)" by (simp add: st')
      also have "\<dots> = wire st @ concat parts" unfolding w by (simp add: Cons)
      finally show ?thesis using a(6) by simp
    qed
    moreover have "holder st' m = Some i" using a(4) by (simp add: st')
    moreover have "progs st' = (map (locked_all m) rest)[i := map Put ?left @ Unlock m # locked_all m ps]"
      by (simp add: st')
    ultimately show ?thesis using withinI [OF a(1-3)] by blast
  qed
qed

lemma run_invariant:
  "write_run sched st = Some st' \<Longrightarrow> within m qs st \<or> between m qs st \<Longrightarrow> within m qs st' \<or> between m qs st'"
proof (induction sched arbitrary: st)
  case (Cons x sched)
  obtain j n where x: "x = (j, n)" by force
  from Cons.prems(1) obtain st1 where st1: "write_step (j, n) st = Some st1" "write_run sched st1 = Some st'"
    by (auto simp: x Option.bind_eq_Some_conv)
  from Cons.prems(2) have "within m qs st1 \<or> between m qs st1"
    using between_step [OF _ st1(1)] within_step [OF _ st1(1)] by blast
  from Cons.IH [OF st1(2) this] show ?case .
qed simp

text \<open>When all threads are done, the wire is the packets in the order of some turns.\<close>

lemma atomic_run_length: "atomic_run turns qs = Some (log, rest) \<Longrightarrow> length rest = length qs"
  by (induction turns arbitrary: qs log) (auto split: if_splits list.splits)

lemma atomic_run_map:
  "atomic_run turns (map (map f) qs) = map_option (map_prod (map f) (map (map f))) (atomic_run turns qs)"
proof (induction turns arbitrary: qs)
  case (Cons i turns)
  show ?case
  proof (cases "i < length qs \<and> qs ! i \<noteq> []")
    case True
    then obtain p ps where p: "i < length qs" "qs ! i = p # ps" by (auto simp: neq_Nil_conv)
    have "atomic_run turns ((map (map f) qs)[i := map f ps])
        = map_option (map_prod (map f) (map (map f))) (atomic_run turns (qs[i := ps]))"
      using Cons.IH [of "qs[i := ps]"] by (simp add: map_update)
    with p show ?thesis by (cases "atomic_run turns (qs[i := ps])") auto
  qed auto
qed simp

lemma all_done: "length rest = length qs \<Longrightarrow> (\<And>r. r \<in> set rest \<Longrightarrow> r = []) \<Longrightarrow> rest = map (\<lambda>q. []) qs"
  by (metis map_eq_conv map_replicate_const replicate_eqI)

lemma locked_refines:
  assumes "write_run sched (start_writers (map (locked_all m) qs)) = Some st" "\<forall>ops \<in> set (progs st). ops = []"
  shows "\<exists>turns log. atomic_run turns qs = Some (log, map (\<lambda>q. []) qs) \<and> wire st = concat (map concat log)"
proof -
  have "atomic_run [] qs = Some ([], qs)" "wire (start_writers ps) = concat (map concat [])"
    "holder (start_writers ps) m = None" "progs (start_writers ps) = ps" for ps
    by (simp_all add: start_writers_def)
  then have "between m qs (start_writers (map (locked_all m) qs))" unfolding between_def by blast
  with run_invariant [OF assms(1)] have "within m qs st \<or> between m qs st" by blast
  moreover have "\<not> within m qs st"
  proof
    assume "within m qs st"
    then obtain rest i ps parts where "i < length rest"
      "progs st = (map (locked_all m) rest)[i := map Put parts @ Unlock m # locked_all m ps]"
      by (auto simp: within_def)
    then have "map Put parts @ Unlock m # locked_all m ps \<in> set (progs st)" by (simp add: set_update_memI)
    with assms(2) show False by auto
  qed
  ultimately obtain turns log rest where a: "atomic_run turns qs = Some (log, rest)"
    "progs st = map (locked_all m) rest" "wire st = concat (map concat log)" by (auto simp: between_def)
  have "r = []" if "r \<in> set rest" for r
    using assms(2) a(2) that by (cases r) (auto simp: locked_all_Cons)
  then have "rest = map (\<lambda>q. []) qs" by (rule all_done [OF atomic_run_length [OF a(1)]])
  with a show ?thesis by blast
qed

lemma packet_parts_bytes: "concat (packet_parts to_wire t raw) = packet_bytes to_wire t raw"
  by (simp add: packet_parts_def packet_bytes_def)

text \<open>A group of threads that all write packets made by \<open>parts\<close> under one mutex.\<close>

lemma locked_writers:
  assumes "\<And>x. writer x = locked m (parts x)" "\<And>x. concat (parts x) = packet x"
    and "write_run sched (start_writers (map (\<lambda>xs. concat (map writer xs)) threads)) = Some st"
    and "\<forall>ops \<in> set (progs st). ops = []"
  shows "\<exists>turns log. atomic_run turns threads = Some (log, map (\<lambda>xs. []) threads) \<and>
    wire st = concat (map packet log)"
proof -
  have "map (\<lambda>xs. concat (map writer xs)) threads = map (locked_all m) (map (map parts) threads)"
    by (simp add: locked_all_def o_def ext [of writer, OF assms(1)])
  from locked_refines [OF assms(3) [unfolded this] assms(4)] obtain turns log where
    t: "atomic_run turns (map (map parts) threads) = Some (log, map (\<lambda>q. []) threads)" "wire st = concat (map concat log)"
    by (auto simp: o_def)
  then obtain log0 rest0 where r: "atomic_run turns threads = Some (log0, rest0)" "log = map parts log0"
    "map (map parts) rest0 = map (\<lambda>q. []) threads" by (auto simp: atomic_run_map)
  have "xs = []" if "xs \<in> set rest0" for xs
  proof -
    from that have "map parts xs \<in> set (map (map parts) rest0)" by simp
    then show ?thesis unfolding r(3) by auto
  qed
  then have "rest0 = map (\<lambda>xs. []) threads" by (rule all_done [OF atomic_run_length [OF r(1)]])
  with r t(2) show ?thesis by (intro exI [of _ turns] exI [of _ log0]) (simp add: o_def assms(2))
qed

lemmas motor_commands_keep_whole = locked_writers [of motor_writer SendMutex "packet_parts htonl DEVICE"
    "packet_bytes htonl DEVICE", OF motor_writer_def packet_parts_bytes]

lemmas tls_messages_keep_whole = locked_writers [of "tls_writer t" TlsMutex "packet_parts (\<lambda>w. w) t"
    "packet_bytes (\<lambda>w. w) t", OF tls_writer_def packet_parts_bytes] for t

text \<open>
  C34: however the handler threads of the viewers are scheduled while they forward device commands,
  down to single bytes of a \<open>send\<close>: what the DeviceServer gets is whole packets, those of each thread in
  their order. The refined system takes turns, one packet each, and the mutex of
  \<open>sendDeviceCommand\<close> makes the threads behave like it.
\<close>

theorem commands_keep_whole:
  assumes "write_run sched (start_writers (map (\<lambda>raws. concat (map command_writer raws)) threads)) = Some st"
    and "\<forall>ops \<in> set (progs st). ops = []"
  shows "\<exists>turns log. atomic_run turns threads = Some (log, map (\<lambda>raws. []) threads) \<and>
    wire st = concat (map (packet_bytes htonl DEVICE) log)"
  using locked_writers [of command_writer, OF command_writer_def packet_parts_bytes assms] .

theorem commands_keep_whole_witness:
  "\<exists>st. write_run [(1, 0), (1, 2), (1, 9), (1, 1), (1, 0), (0, 0), (0, 5), (0, 2), (0, 0)]
      (start_writers (map (\<lambda>raws. concat (map command_writer raws)) [[''{}''], [''7'']])) = Some st \<and>
    (\<exists>turns log. atomic_run turns [[''{}''], [''7'']] = Some (log, [[], []]) \<and>
      wire st = concat (map (packet_bytes htonl DEVICE) log))"
proof -
  let ?sched = "[(1, 0), (1, 2), (1, 9), (1, 1), (1, 0), (0, 0), (0, 5), (0, 2), (0, 0)]"
  let ?init = "start_writers (map (\<lambda>raws. concat (map command_writer raws)) [[''{}''], [''7'']])"
  obtain st where st: "write_run ?sched ?init = Some st" "progs st = [[], []]"
    by (simp add: start_writers_def command_writer_def locked_def packet_parts_def header_size_def)
  from commands_keep_whole [OF st(1)] st show ?thesis by auto
qed

section \<open>The handler and a broadcast of the DeviceServer\<close>

text \<open>A text that starts like a header of type \<open>AI\<close> is no JSON.\<close>

lemma header_is_no_json: "json_parse (CHR 0x06 # cs) = Inl (ParseError 101)"
proof -
  have b: "lx_ok (lexer_init (CHR 0x06 # cs))" "pending (lexer_init (CHR 0x06 # cs)) = CHR 0x06 # cs"
    using before_parser_init(2) [of "CHR 0x06 # cs"] by (simp_all add: before_def)
  obtain l where l: "scan (lexer_init (CHR 0x06 # cs)) = scan_token l" "reads l (Some (CHR 0x06)) cs"
    by (rule scan_at [OF b]) (simp_all add: is_space_def)
  then have "scan (lexer_init (CHR 0x06 # cs)) = (TParseError, l)"
    using reads_current [OF l(2)] by (simp add: scan_token_def is_digit_def)
  then have "parse_value [] (parser_init (CHR 0x06 # cs)) = Inl (ParseError 101)"
    by (simp add: before_parser_init(1) get_token_def parse_value_def)
  then show ?thesis
    by (simp add: json_parse_def parse_round_def sax_parse_internal.simps [of False "[]" "parser_init (CHR 0x06 # cs)"])
qed

lemma ai_char: "char_of (6 :: nat) = CHR 0x06"
  by code_simp

text \<open>The schedule: the broadcast comes between the two \<open>sendExact\<close> of the handler.\<close>

definition clash :: "bytes \<Rightarrow> bytes \<Rightarrow> (nat \<times> nat) list" where
  "clash raw1 raw2 = [(0, header_size), (1, 0), (1, header_size), (0, length raw1), (1, length raw2), (1, 0)]"

definition ai_header :: "bytes \<Rightarrow> bytes" where
  "ai_header raw = header_bytes \<lparr>ph_type = AI, ph_body_length = htonl (of_nat (length raw))\<rparr>"

lemma clash_wire:
  assumes "raw1 \<noteq> []" "raw2 \<noteq> []"
  shows "write_run (clash raw1 raw2) (start_writers [reply_writer CAMERA raw1, broadcast_writer AI raw2])
    = Some \<lparr>progs = [[], []], holder = (\<lambda>m. None),
        wire = header_bytes \<lparr>ph_type = CAMERA, ph_body_length = htonl (of_nat (length raw1))\<rparr>
          @ ai_header raw2 @ raw1 @ raw2\<rparr>"
  using assms
  by (simp add: clash_def start_writers_def reply_writer_def broadcast_writer_def locked_def packet_parts_def
      ai_header_def fun_upd_idem header_size_def)

text \<open>
  C36: the handler of a ClientServer in the DeviceServer sends its welcome and its replies without
  the mutex that the broadcasts hold. So there is a schedule in which a camera list and an AI event are
  both sent, and both calls succeed, but the ClientServer takes the header of the event for the start of
  the list: the list is dropped as no JSON, the event is not delivered, and the next header is read
  from the middle of the list's text.
\<close>

theorem reply_and_broadcast_clash:
  assumes "header_size \<le> length raw1" "length raw1 \<le> 1024 * 1024" "raw2 \<noteq> []"
  shows "\<exists>sched st. write_run sched (start_writers [reply_writer CAMERA raw1, broadcast_writer AI raw2]) = Some st \<and>
    progs st = [[], []] \<and>
    (\<forall>ret fd ic. 0 < ret \<longrightarrow> rx_ok (ic_net ic fd) \<longrightarrow> sk_rx (ic_net ic fd) = wire st \<longrightarrow>
      (\<exists>net. handleIncoming ret fd ic = Inr (True, None, ic\<lparr>ic_net := net\<rparr>) \<and>
        sk_rx (net fd) = drop (length raw1 - header_size) raw1 @ raw2))"
proof -
  let ?k = "length raw1 - header_size"
  let ?raw = "ai_header raw2 @ take ?k raw1" and ?rest = "drop ?k raw1 @ raw2"
  have raw1: "raw1 \<noteq> []" using assms(1) by (auto simp: header_size_def)
  have len: "length ?raw = length raw1" using assms(1) by (simp add: ai_header_def)
  have ne: "?raw \<noteq> []" "length ?raw \<le> 1024 * 1024" using len raw1 assms(2) by auto
  have no: "json_parse ?raw = Inl (ParseError 101)"
    using header_is_no_json by (simp add: ai_header_def header_bytes_def ai_char)
  obtain st where st: "write_run (clash raw1 raw2) (start_writers [reply_writer CAMERA raw1, broadcast_writer AI raw2]) = Some st"
    "progs st = [[], []]" "wire st = header_bytes \<lparr>ph_type = CAMERA, ph_body_length = htonl (of_nat (length raw1))\<rparr>
          @ ai_header raw2 @ raw1 @ raw2" using clash_wire [OF raw1 assms(3)] by simp
  moreover have "?raw @ ?rest = ai_header raw2 @ raw1 @ raw2" by simp
  ultimately have w: "wire st = packet_bytes htonl CAMERA ?raw @ ?rest"
    unfolding packet_bytes_def len append_assoc by simp
  have "\<exists>net. handleIncoming ret fd ic = Inr (True, None, ic\<lparr>ic_net := net\<rparr>) \<and> sk_rx (net fd) = ?rest"
    if a: "0 < ret" "rx_ok (ic_net ic fd)" "sk_rx (ic_net ic fd) = wire st" for ret fd ic
  proof -
    obtain net where net: "received_upto fd ?rest (ic_net ic) net" "handleIncoming ret fd ic =
        rbind (dispatchPushEvent CAMERA ?raw fd (ic\<lparr>ic_net := net\<rparr>)) (\<lambda>(ev, ic2). Inr (True, ev, ic2))"
      by (rule incoming_packet [of ret ic fd CAMERA ?raw ?rest, OF a(1,2) a(3) [unfolded w] _ ne])
        (simp add: type_wf_def)
    with no show ?thesis by (auto simp: dispatchPushEvent_def parse_caught_def received_upto_def)
  qed
  with st show ?thesis by blast
qed

theorem reply_and_broadcast_clash_witness:
  "\<exists>sched st net. write_run sched (start_writers [reply_writer CAMERA ''[null]'', broadcast_writer AI ''{}'']) = Some st \<and>
    handleIncoming 1 7 (internal_client_init (\<lambda>_. sample_sock\<lparr>sk_rx := wire st\<rparr>)) =
      Inr (True, None, internal_client_init net) \<and> sk_rx (net 7) = ''null]{}''"
proof -
  have "header_size \<le> length ''[null]''" "length ''[null]'' \<le> 1024 * 1024" "''{}'' \<noteq> ([] :: string)"
    by (simp_all add: header_size_def)
  from reply_and_broadcast_clash [OF this] obtain sched st where
    run: "write_run sched (start_writers [reply_writer CAMERA ''[null]'', broadcast_writer AI ''{}'']) = Some st"
    and read: "\<forall>ret fd ic. 0 < ret \<longrightarrow> rx_ok (ic_net ic fd) \<longrightarrow> sk_rx (ic_net ic fd) = wire st \<longrightarrow>
      (\<exists>net. handleIncoming ret fd ic = Inr (True, None, ic\<lparr>ic_net := net\<rparr>) \<and>
        sk_rx (net fd) = drop (length ''[null]'' - header_size) ''[null]'' @ ''{}'')" by blast
  let ?ic = "internal_client_init (\<lambda>_. sample_sock\<lparr>sk_rx := wire st\<rparr>)"
  have "rx_ok (ic_net ?ic 7)" "sk_rx (ic_net ?ic 7) = wire st"
    by (simp_all add: internal_client_init_def sample_sock_ok)
  with read [rule_format, of 1 ?ic 7] obtain net where
    "handleIncoming 1 7 ?ic = Inr (True, None, ?ic\<lparr>ic_net := net\<rparr>)" "sk_rx (net 7) = ''null]{}''"
    by (auto simp: header_size_def)
  with run show ?thesis by (auto simp: internal_client_init_def)
qed

end
