(* ===== verification/Tls.thy ===== *)
theory Tls
  imports Prelude
begin

text \<open>
  \<open>crypt/tls.hpp\<close>: contexts and the memory-BIO session. OpenSSL is not under src/, so its calls
  are a parameter: a record of functions on an abstract connection state, which stands for the
  \<open>SSL\<close> object with its two BIOs. What is only logged (\<open>SSL_get_error\<close>) is left out.
\<close>

section \<open>Contexts\<close>

text \<open>What the calls on a new \<open>SSL_CTX\<close> return.\<close>

record ctx_env =
  env_ctx_new :: bool
  env_cert_ok :: "string \<Rightarrow> bool"
  env_key_ok :: "string \<Rightarrow> bool"
  env_key_matches :: bool
  env_ca_ok :: "string \<Rightarrow> bool"

record ssl_ctx =
  ctx_cert :: bool
  ctx_key :: bool
  ctx_ca :: bool
  ctx_verify_peer :: bool
  ctx_fail_if_no_peer_cert :: bool

definition load_file :: "(string \<Rightarrow> bool) \<Rightarrow> string option \<Rightarrow> bool" where
  "load_file ok f = (case f of None \<Rightarrow> False | Some path \<Rightarrow> ok path)"

definition ServerContext ::
    "ctx_env \<Rightarrow> string option \<Rightarrow> string option \<Rightarrow> string option \<Rightarrow> ssl_ctx option" where
  "ServerContext env certfile keyfile cafile =
     (if \<not> env_ctx_new env then None
      else Some \<lparr>ctx_cert = load_file (env_cert_ok env) certfile,
                 ctx_key = load_file (env_key_ok env) keyfile,
                 ctx_ca = load_file (env_ca_ok env) cafile,
                 ctx_verify_peer = (cafile \<noteq> None),
                 ctx_fail_if_no_peer_cert = (cafile \<noteq> None)\<rparr>)"

definition ClientContext ::
    "ctx_env \<Rightarrow> string option \<Rightarrow> string option \<Rightarrow> string option \<Rightarrow> ssl_ctx option" where
  "ClientContext env certfile keyfile cafile =
     (if \<not> env_ctx_new env then None
      else Some \<lparr>ctx_cert = load_file (env_cert_ok env) certfile,
                 ctx_key = load_file (env_key_ok env) keyfile,
                 ctx_ca = load_file (env_ca_ok env) cafile,
                 ctx_verify_peer = (cafile \<noteq> None),
                 ctx_fail_if_no_peer_cert = False\<rparr>)"

section \<open>Sessions\<close>

record 's ssl_ops =
  SSL_new :: "'s option"
  BIO_new_read :: bool
  BIO_new_write :: bool
  SSL_set_accept_state :: "'s \<Rightarrow> 's"
  SSL_set_connect_state :: "'s \<Rightarrow> 's"
  SSL_is_init_finished :: "'s \<Rightarrow> bool"
  SSL_do_handshake :: "'s \<Rightarrow> int \<times> 's"
  SSL_read :: "nat \<Rightarrow> 's \<Rightarrow> (int \<times> bytes) \<times> 's"
  SSL_write :: "bytes \<Rightarrow> 's \<Rightarrow> int \<times> 's"
  BIO_write :: "bytes \<Rightarrow> 's \<Rightarrow> int \<times> 's"
  BIO_pending :: "'s \<Rightarrow> int"
  BIO_read :: "int \<Rightarrow> 's \<Rightarrow> (int \<times> bytes) \<times> 's"

text \<open>\<open>None\<close> is \<open>ssl == nullptr\<close>.\<close>

type_synonym 's session = "'s option"

definition BufferSize :: nat where
  "BufferSize = 4096"

definition flushWriteBio :: "'s ssl_ops \<Rightarrow> 's \<Rightarrow> bytes \<times> 's" where
  "flushWriteBio ops s =
     (let pending = BIO_pending ops s
      in if 0 < pending then
           (case BIO_read ops pending s of
              ((n, bs), s') \<Rightarrow> if 0 < n then (take (nat n) bs, s') else ([], s'))
         else ([], s))"

definition new_session :: "'s ssl_ops \<Rightarrow> bool \<Rightarrow> bool \<Rightarrow> 's session" where
  "new_session ops ctx isServer =
     (if \<not> ctx then None
      else (case SSL_new ops of
              None \<Rightarrow> None
            | Some s \<Rightarrow>
              (if \<not> BIO_new_read ops \<or> \<not> BIO_new_write ops then None
               else Some (if isServer then SSL_set_accept_state ops s else SSL_set_connect_state ops s))))"

definition isValid :: "'s session \<Rightarrow> bool" where
  "isValid ss = (ss \<noteq> None)"

definition isHandshakeDone :: "'s ssl_ops \<Rightarrow> 's session \<Rightarrow> bool" where
  "isHandshakeDone ops ss = (case ss of None \<Rightarrow> False | Some s \<Rightarrow> SSL_is_init_finished ops s)"

definition Handshake :: "'s ssl_ops \<Rightarrow> 's session \<Rightarrow> bytes \<times> 's session" where
  "Handshake ops ss =
     (case ss of
        None \<Rightarrow> ([], None)
      | Some s \<Rightarrow>
        (let s1 = (if SSL_is_init_finished ops s then s else snd (SSL_do_handshake ops s))
         in map_prod id Some (flushWriteBio ops s1)))"

text \<open>The \<open>SSL_read\<close> loop ends when a call returns nothing; it need not, so it is partial.\<close>

partial_function (option) read_loop :: "'s ssl_ops \<Rightarrow> bytes \<Rightarrow> 's \<Rightarrow> (bytes \<times> 's) option" where
  [code]: "read_loop ops plain s =
     (case SSL_read ops BufferSize s of
        ((n, bs), s') \<Rightarrow>
          if 0 < n then read_loop ops (plain @ take (nat n) bs) s' else Some (plain, s'))"

definition decrypt :: "'s ssl_ops \<Rightarrow> bytes \<Rightarrow> 's session \<Rightarrow> (bytes \<times> 's session) option" where
  "decrypt ops buf ss =
     (case ss of
        None \<Rightarrow> Some ([], None)
      | Some s \<Rightarrow>
        (case BIO_write ops buf s of
           (written, s1) \<Rightarrow>
             if written \<le> 0 then Some ([], Some s1)
             else
               (let s2 = (if SSL_is_init_finished ops s1 then s1 else snd (SSL_do_handshake ops s1))
                in if \<not> SSL_is_init_finished ops s2 then Some ([], Some s2)
                   else map_option (map_prod id Some) (read_loop ops [] s2))))"

definition encrypt :: "'s ssl_ops \<Rightarrow> bytes \<Rightarrow> 's session \<Rightarrow> bytes \<times> 's session" where
  "encrypt ops buf ss =
     (case ss of
        None \<Rightarrow> ([], None)
      | Some s \<Rightarrow>
        (if \<not> SSL_is_init_finished ops s then ([], Some s)
         else (case SSL_write ops buf s of
                 (written, s1) \<Rightarrow>
                   if written \<le> 0 then ([], Some s1)
                   else map_prod id Some (flushWriteBio ops s1))))"

definition getHandshakeData :: "'s ssl_ops \<Rightarrow> 's session \<Rightarrow> bytes \<times> 's session" where
  "getHandshakeData ops ss =
     (case ss of None \<Rightarrow> ([], None) | Some s \<Rightarrow> map_prod id Some (flushWriteBio ops s))"

text \<open>
  Ownership. \<open>cleanup\<close> and the assignment return what went to \<open>SSL_free\<close> first; a moved-from session
  is left with the null pointer.
\<close>

definition cleanup :: "'s session \<Rightarrow> 's list \<times> 's session" where
  "cleanup ss = (case ss of None \<Rightarrow> ([], None) | Some s \<Rightarrow> ([s], None))"

definition move_session :: "'s session \<Rightarrow> 's session \<times> 's session" where
  "move_session other = (other, None)"

definition assign_session ::
    "bool \<Rightarrow> 's session \<Rightarrow> 's session \<Rightarrow> 's list \<times> 's session \<times> 's session" where
  "assign_session same this other =
     (if same then ([], this, other) else (fst (cleanup this), other, None))"

section \<open>What is relied on\<close>

text \<open>
  The manual of \<open>SSL_read\<close>: a positive result is taken from data already received, so a number
  of pending bytes goes down with each, and at most the bytes asked for are returned.
\<close>

definition ssl_read_bounded :: "'s ssl_ops \<Rightarrow> ('s \<Rightarrow> nat) \<Rightarrow> bool" where
  "ssl_read_bounded ops avail =
     (\<forall>s n bs s'. SSL_read ops BufferSize s = ((n, bs), s') \<longrightarrow> 0 < n \<longrightarrow> avail s' < avail s)"

lemma read_loop_returns:
  assumes "ssl_read_bounded ops avail"
  shows "\<exists>r. read_loop ops plain s = Some r"
proof (induction "avail s" arbitrary: plain s rule: less_induct)
  case less
  obtain n bs s' where r: "SSL_read ops BufferSize s = ((n, bs), s')" by (metis prod.exhaust)
  show ?case
  proof (cases "0 < n")
    case True
    with r assms have "avail s' < avail s" by (auto simp: ssl_read_bounded_def)
    from less [OF this] r True show ?thesis by (subst read_loop.simps) simp
  next
    case False
    with r show ?thesis by (subst read_loop.simps) simp
  qed
qed

lemma decrypt_returns:
  assumes "ssl_read_bounded ops avail"
  shows "\<exists>r. decrypt ops buf ss = Some r"
  using read_loop_returns [OF assms]
  by (auto simp: decrypt_def Let_def split: option.split prod.split)

lemma encrypt_before_handshake:
  "\<not> isHandshakeDone ops ss \<Longrightarrow> encrypt ops buf ss = ([], ss)"
  by (auto simp: encrypt_def isHandshakeDone_def split: option.splits)

section \<open>An instance\<close>

text \<open>
  A connection of two byte queues, with a handshake of one call and a marker for ciphertext. It
  shows that what is asked of the library can hold.
\<close>

record link =
  lk_done :: bool
  lk_in :: bytes
  lk_out :: bytes

definition link_ops :: "link ssl_ops" where
  "link_ops =
     \<lparr>SSL_new = Some \<lparr>lk_done = False, lk_in = [], lk_out = []\<rparr>,
      BIO_new_read = True, BIO_new_write = True,
      SSL_set_accept_state = (\<lambda>s. s), SSL_set_connect_state = (\<lambda>s. s),
      SSL_is_init_finished = lk_done,
      SSL_do_handshake = (\<lambda>s. (1, s\<lparr>lk_done := True, lk_in := [], lk_out := lk_out s @ ''H''\<rparr>)),
      SSL_read = (\<lambda>n s. if lk_in s = [] then ((-1, []), s)
        else ((int (min n (length (lk_in s))), take n (lk_in s)), s\<lparr>lk_in := drop n (lk_in s)\<rparr>)),
      SSL_write = (\<lambda>bs s. (int (length bs), s\<lparr>lk_out := lk_out s @ ''#'' @ bs\<rparr>)),
      BIO_write = (\<lambda>bs s. (int (length bs), s\<lparr>lk_in := lk_in s @ bs\<rparr>)),
      BIO_pending = (\<lambda>s. int (length (lk_out s))),
      BIO_read = (\<lambda>n s. ((n, take (nat n) (lk_out s)), s\<lparr>lk_out := drop (nat n) (lk_out s)\<rparr>))\<rparr>"

definition link_up :: "link session" where
  "link_up = Some \<lparr>lk_done = True, lk_in = [], lk_out = []\<rparr>"

lemma link_read_bounded: "ssl_read_bounded link_ops (length \<circ> lk_in)"
  by (auto simp: ssl_read_bounded_def link_ops_def BufferSize_def split: if_splits)

lemma link_up_done: "isHandshakeDone link_ops link_up"
  by (simp add: isHandshakeDone_def link_up_def link_ops_def)

end
