(* ===== verification/QtCommServer.thy ===== *)
theory QtCommServer
  imports ClientThreads Broadcast Tls JsonParsed
begin

text \<open>
  \<open>ClientServer/src/QtCommServer.cpp\<close>: the server the Qt clients talk to. The state extends the
  connection bookkeeping of \<open>ClientThreads\<close> with the roles, the TLS sessions and the network.
  \<open>is_running_\<close> guards each round of a handler; one round is a function that tells how the loop
  goes on. Headers carry the length as it is in memory. The OpenSSL calls are the parameter
  \<open>ops\<close>.
\<close>

record 's qt_server = conns +
  qs_client_roles :: "(fd, string) omap"
  qs_tls_ctx :: "ssl_ctx option"
  qs_tls_sessions :: "(fd, 's session) omap"
  qs_net :: net

definition set_net :: "net \<Rightarrow> 's qt_server \<Rightarrow> 's qt_server" where
  "set_net net q = q\<lparr>qs_net := net\<rparr>"

section \<open>Start and stop\<close>

definition initTLS :: "ctx_env \<Rightarrow> string \<Rightarrow> string \<Rightarrow> string \<Rightarrow> 's qt_server \<Rightarrow> bool \<times> 's qt_server" where
  "initTLS env cert_path key_path ca_path q =
     (let ctx = ServerContext env (Some cert_path) (Some key_path) (Some ca_path)
      in (ctx \<noteq> None, q\<lparr>qs_tls_ctx := ctx\<rparr>))"

text \<open>\<open>server_fd\<close> is what \<open>socket\<close> returned; \<open>bound\<close> and \<open>listening\<close> whether the next calls succeed.\<close>

definition qt_start :: "fd \<Rightarrow> bool \<Rightarrow> bool \<Rightarrow> 's qt_server \<Rightarrow> 's qt_server" where
  "qt_start server_fd bound listening q =
     (if cn_running q then q
      else if server_fd < 0 then q\<lparr>cn_server_fd := server_fd\<rparr>
      else if \<not> bound \<or> \<not> listening then q\<lparr>cn_server_fd := -1\<rparr>
      else q\<lparr>cn_server_fd := server_fd, cn_running := True, cn_acceptor := Cleaning\<rparr>)"

text \<open>
  \<open>stop\<close>: every listed descriptor is shut down and closed, the sessions go, and the joins wait for
  the handlers, each of which then runs its own clean-up (\<open>qt_handler_end\<close>) first.
\<close>

definition close_all :: "fd list \<Rightarrow> net \<Rightarrow> net" where
  "close_all fds net = fold (\<lambda>fd net. sock_close fd (sock_shutdown fd net)) fds net"

definition qt_handler_unlist :: "fd \<Rightarrow> 's qt_server \<Rightarrow> 's qt_server" where
  "qt_handler_unlist fd q =
     (let q1 = (handler_unlist fd q)\<lparr>qs_client_roles := om_erase fd (qs_client_roles q)\<rparr>
      in q1\<lparr>qs_tls_sessions := om_erase fd (qs_tls_sessions q1)\<rparr>)"

definition qt_handler_end :: "fd \<Rightarrow> 's qt_server \<Rightarrow> 's qt_server" where
  "qt_handler_end fd q =
     handler_finish fd (qt_handler_unlist fd (handler_close fd (set_net (sock_close fd (qs_net q)) q)))"

text \<open>What is left of a handler that stands at some point of its end.\<close>

definition qt_handler_drain :: "fd \<times> handler_pc \<Rightarrow> 's qt_server \<Rightarrow> 's qt_server" where
  "qt_handler_drain h q =
     (case h of
        (fd, Serving) \<Rightarrow> qt_handler_end fd q
      | (fd, Closed) \<Rightarrow> handler_finish fd (qt_handler_unlist fd q)
      | (fd, Unlisted) \<Rightarrow> handler_finish fd q
      | (fd, Ended) \<Rightarrow> q)"

definition qt_stop :: "'s qt_server \<Rightarrow> 's qt_server" where
  "qt_stop q =
     (if \<not> cn_running q then q
      else
        (let q1 = q\<lparr>cn_running := False, cn_server_fd := -1\<rparr>;
             q2 = q1\<lparr>qs_net := close_all (cn_client_fds q1) (qs_net q1), cn_client_fds := []\<rparr>;
             q3 = q2\<lparr>qs_tls_sessions := []\<rparr>;
             q4 = fold qt_handler_drain (cn_threads q3) q3
         in q4\<lparr>cn_threads := []\<rparr>))"

section \<open>Sending\<close>

definition sendRaw :: "fd \<Rightarrow> message_type \<Rightarrow> bytes \<Rightarrow> 's qt_server \<Rightarrow> bool \<times> 's qt_server" where
  "sendRaw fd t data q = (case send_packet (\<lambda>w. w) fd t data (qs_net q) of (r, net) \<Rightarrow> (r, set_net net q))"

text \<open>The session of a client whose handshake is done.\<close>

definition secure_session :: "'s ssl_ops \<Rightarrow> fd \<Rightarrow> 's qt_server \<Rightarrow> 's session option" where
  "secure_session ops fd q =
     (case om_find fd (qs_tls_sessions q) of
        Some ss \<Rightarrow> if isHandshakeDone ops ss then Some ss else None
      | None \<Rightarrow> None)"

definition set_session :: "fd \<Rightarrow> 's session \<Rightarrow> 's qt_server \<Rightarrow> 's qt_server" where
  "set_session fd ss q = q\<lparr>qs_tls_sessions := om_assign fd ss (qs_tls_sessions q)\<rparr>"

definition qt_sendMessage ::
    "'s ssl_ops \<Rightarrow> fd \<Rightarrow> message_type \<Rightarrow> json \<Rightarrow> 's qt_server \<Rightarrow> exn + (bool \<times> 's qt_server)" where
  "qt_sendMessage ops fd t body q =
     rbind (json_dump body) (\<lambda>body_str.
       case secure_session ops fd q of
         Some ss \<Rightarrow>
           (case encrypt ops body_str ss of
              (cipher, ss') \<Rightarrow>
                if cipher = [] then Inr (False, set_session fd ss' q)
                else (case send_packet (\<lambda>w. w) fd t cipher (qs_net q) of
                        (r, net) \<Rightarrow> Inr (r, set_net net (set_session fd ss' q))))
       | None \<Rightarrow>
           (case send_packet (\<lambda>w. w) fd t body_str (qs_net q) of
              (r, net) \<Rightarrow> Inr (r, set_net net q)))"

definition qt_sendImageMessage ::
    "'s ssl_ops \<Rightarrow> fd \<Rightarrow> json \<Rightarrow> bytes \<Rightarrow> 's qt_server \<Rightarrow> exn + (bool \<times> 's qt_server)" where
  "qt_sendImageMessage ops fd meta jpeg q =
     rbind (json_dump meta) (\<lambda>meta_str.
       case secure_session ops fd q of
         Some ss \<Rightarrow>
           (case encrypt ops meta_str ss of
              (cipher, ss') \<Rightarrow>
                if cipher = [] then Inr (False, set_session fd ss' q)
                else (case send_image_packet (\<lambda>w. w) fd cipher jpeg (qs_net q) of
                        (r, net) \<Rightarrow> Inr (r, set_net net (set_session fd ss' q))))
       | None \<Rightarrow>
           (case send_image_packet (\<lambda>w. w) fd meta_str jpeg (qs_net q) of
              (r, net) \<Rightarrow> Inr (r, set_net net q)))"

definition qt_broadcast :: "'s ssl_ops \<Rightarrow> message_type \<Rightarrow> json \<Rightarrow> 's qt_server \<Rightarrow> exn + 's qt_server" where
  "qt_broadcast ops t body q = send_each (\<lambda>fd. qt_sendMessage ops fd t body) (cn_client_fds q) q"

text \<open>A client without a role is skipped, as is one with an empty role.\<close>

definition client_role :: "fd \<Rightarrow> 's qt_server \<Rightarrow> string option" where
  "client_role fd q =
     (case om_find fd (qs_client_roles q) of
        Some role \<Rightarrow> if role = [] then None else Some role
      | None \<Rightarrow> None)"

definition broadcastToRole ::
    "'s ssl_ops \<Rightarrow> message_type \<Rightarrow> json \<Rightarrow> string \<Rightarrow> 's qt_server \<Rightarrow> exn + 's qt_server" where
  "broadcastToRole ops t body min_role q =
     send_each (\<lambda>fd q'.
       case client_role fd q' of
         None \<Rightarrow> Inr (False, q')
       | Some role \<Rightarrow>
         (if min_role = ''user'' \<and> (role = ''user'' \<or> role = ''admin'') then qt_sendMessage ops fd t body q'
          else if min_role = ''admin'' \<and> role = ''admin'' then qt_sendMessage ops fd t body q'
          else Inr (False, q')))
       (cn_client_fds q) q"

definition broadcastByRole ::
    "'s ssl_ops \<Rightarrow> message_type \<Rightarrow> json \<Rightarrow> json \<Rightarrow> 's qt_server \<Rightarrow> exn + 's qt_server" where
  "broadcastByRole ops t user_body admin_body q =
     send_each (\<lambda>fd q'.
       case client_role fd q' of
         None \<Rightarrow> Inr (False, q')
       | Some role \<Rightarrow>
         (if role = ''admin'' then qt_sendMessage ops fd t admin_body q'
          else if role = ''user'' then qt_sendMessage ops fd t user_body q'
          else Inr (False, q')))
       (cn_client_fds q) q"

definition broadcastImage :: "'s ssl_ops \<Rightarrow> json \<Rightarrow> bytes \<Rightarrow> 's qt_server \<Rightarrow> exn + 's qt_server" where
  "broadcastImage ops meta jpeg q =
     send_each (\<lambda>fd q'.
       case client_role fd q' of
         None \<Rightarrow> Inr (False, q')
       | Some role \<Rightarrow> qt_sendImageMessage ops fd meta jpeg q')
       (cn_client_fds q) q"

definition setClientRole :: "fd \<Rightarrow> string \<Rightarrow> 's qt_server \<Rightarrow> 's qt_server" where
  "setClientRole fd role q = q\<lparr>qs_client_roles := om_assign fd role (qs_client_roles q)\<rparr>"

definition getClientCount :: "'s qt_server \<Rightarrow> nat" where
  "getClientCount q = length (cn_client_fds q)"

section \<open>The handler of a client\<close>

text \<open>
  The start of \<open>clientHandler\<close>: with TLS a session is put into the map unless the key is present.
  The result is whether the loop is entered; otherwise the handler has given up.
\<close>

definition qt_handler_start :: "'s ssl_ops \<Rightarrow> fd \<Rightarrow> 's qt_server \<Rightarrow> bool \<times> 's qt_server" where
  "qt_handler_start ops fd q =
     (if qs_tls_ctx q = None then (True, q)
      else
        (let q1 = q\<lparr>qs_tls_sessions :=
                      om_emplace fd (new_session ops (qs_tls_ctx q \<noteq> None) True) (qs_tls_sessions q)\<rparr>
         in case om_find fd (qs_tls_sessions q1) of
              Some ss \<Rightarrow>
                (if isValid ss then (True, q1)
                 else (False, handler_give_up fd (set_net (sock_close fd (qs_net q1)) q1)))
            | None \<Rightarrow> (False, handler_give_up fd (set_net (sock_close fd (qs_net q1)) q1))))"

text \<open>
  How a round of the loop ends: \<open>break\<close>, \<open>continue\<close>, a call of \<open>on_message_\<close>, an exception that
  nothing catches (the process terminates), or no end at all (inside \<open>SSL_read\<close>).
\<close>

datatype round = Break | Next | Dispatch message_type json | Throws exn | Hangs

definition max_body :: nat where
  "max_body = 1024 * 1024"

definition error_body :: "string \<Rightarrow> json" where
  "error_body msg = json_object [(''error'', JString msg)]"

text \<open>
  The body text is parsed and logged (\<open>dump\<close>) before it is dispatched; a parse error is answered.
\<close>

definition parse_and_dispatch ::
    "'s ssl_ops \<Rightarrow> fd \<Rightarrow> message_type \<Rightarrow> string \<Rightarrow> 's qt_server \<Rightarrow> round \<times> 's qt_server" where
  "parse_and_dispatch ops fd t text q =
     (case json_parse text of
        Inl e \<Rightarrow>
          (if is_parse_error e then
             (case qt_sendMessage ops fd FAIL (error_body ''JSON parse error'') q of
                Inl e' \<Rightarrow> (Throws e', q)
              | Inr (r, q') \<Rightarrow> (Next, q'))
           else (Throws e, q))
      | Inr body \<Rightarrow>
          (case json_dump body of
             Inl e \<Rightarrow> (Throws e, q)
           | Inr log \<Rightarrow> (Dispatch t body, q)))"

definition tls_round ::
    "'s ssl_ops \<Rightarrow> fd \<Rightarrow> message_type \<Rightarrow> bytes \<Rightarrow> 's qt_server \<Rightarrow> round \<times> 's qt_server" where
  "tls_round ops fd t buf q =
     (case om_find fd (qs_tls_sessions q) of
        None \<Rightarrow> (Break, q)
      | Some ss \<Rightarrow>
        (if \<not> isHandshakeDone ops ss then
           (if t \<noteq> HANDSHAKE then (Break, q)
            else (case decrypt ops buf ss of
                    None \<Rightarrow> (Hangs, q)
                  | Some (plain, ss1) \<Rightarrow>
                    (case getHandshakeData ops ss1 of
                       (resp, ss2) \<Rightarrow>
                         (let q1 = set_session fd ss2 q
                          in (Next, if resp = [] then q1 else snd (sendRaw fd HANDSHAKE resp q1))))))
         else (case decrypt ops buf ss of
                 None \<Rightarrow> (Hangs, q)
               | Some (plain, ss1) \<Rightarrow>
                 (let q1 = set_session fd ss1 q
                  in if plain = [] then (Next, q1)
                     else parse_and_dispatch ops fd t plain q1))))"

definition plain_round ::
    "'s ssl_ops \<Rightarrow> fd \<Rightarrow> message_type \<Rightarrow> bytes \<Rightarrow> 's qt_server \<Rightarrow> round \<times> 's qt_server" where
  "plain_round ops fd t buf q =
     (if buf = [] then
        (case json_dump (JObject []) of
           Inl e \<Rightarrow> (Throws e, q)
         | Inr log \<Rightarrow> (Dispatch t (JObject []), q))
      else parse_and_dispatch ops fd t buf q)"

definition handler_round :: "'s ssl_ops \<Rightarrow> fd \<Rightarrow> 's qt_server \<Rightarrow> round \<times> 's qt_server" where
  "handler_round ops fd q =
     (case recv_header fd (qs_net q) of
        (None, net) \<Rightarrow> (Break, set_net net q)
      | (Some h, net1) \<Rightarrow>
        (let body_len = unat (ph_body_length h); q1 = set_net net1 q
         in if max_body < body_len then (Break, q1)
            else (case (if 0 < body_len then recvExact fd body_len net1 else (Some [], net1)) of
                    (None, net2) \<Rightarrow> (Break, set_net net2 q1)
                  | (Some buf, net2) \<Rightarrow>
                    (let q2 = set_net net2 q1
                     in if qs_tls_ctx q2 \<noteq> None then tls_round ops fd (ph_type h) buf q2
                        else plain_round ops fd (ph_type h) buf q2))))"

end
