(* ===== verification/QtServing.thy ===== *)
theory QtServing
  imports QtCommServer
begin

text \<open>
  What the server of \<open>QtCommServer\<close> guarantees. Its sends interpret the locales of \<open>Broadcast\<close>, from
  which follows who each broadcast reaches; a round of a client handler is analysed into its
  ends, for any stream and any OpenSSL.
\<close>

section \<open>The sends keep their contract\<close>

text \<open>What decides who is sent to, and whether the connection of a client is still in the clear.\<close>

definition qt_kept :: "'s qt_server \<Rightarrow> fd list \<times> (fd, string) omap \<times> ssl_ctx option" where
  "qt_kept q = (cn_client_fds q, qs_client_roles q, qs_tls_ctx q)"

definition in_clear :: "'s ssl_ops \<Rightarrow> fd \<Rightarrow> 's qt_server \<Rightarrow> bool" where
  "in_clear ops fd q = (secure_session ops fd q = None)"

lemma set_net_simps [simp]:
  "qs_net (set_net net q) = net" "qt_kept (set_net net q) = qt_kept q"
  "qs_tls_sessions (set_net net q) = qs_tls_sessions q" "qs_client_roles (set_net net q) = qs_client_roles q"
  "in_clear ops fd (set_net net q) = in_clear ops fd q" "qs_tls_ctx (set_net net q) = qs_tls_ctx q"
  "cn_client_fds (set_net net q) = cn_client_fds q"
  by (simp_all add: set_net_def qt_kept_def in_clear_def secure_session_def)

lemma set_session_simps [simp]:
  "qs_net (set_session fd ss q) = qs_net q" "qt_kept (set_session fd ss q) = qt_kept q"
  "qs_client_roles (set_session fd ss q) = qs_client_roles q" "qs_tls_ctx (set_session fd ss q) = qs_tls_ctx q"
  "cn_client_fds (set_session fd ss q) = cn_client_fds q"
  "g \<noteq> fd \<Longrightarrow> in_clear ops g (set_session fd ss q) = in_clear ops g q"
  "g \<noteq> fd \<Longrightarrow> om_find g (qs_tls_sessions (set_session fd ss q)) = om_find g (qs_tls_sessions q)"
  by (simp_all add: set_session_def qt_kept_def in_clear_def secure_session_def om_find_assign)

text \<open>Both sends are a choice of the bytes, a change of the client's own session, and packet sends.\<close>

lemma qt_sendMessage_cases:
  assumes "qt_sendMessage ops fd t body q = Inr (r, q')"
  obtains (clear) s where "json_dump body = Inr s" "secure_session ops fd q = None"
      "q' = set_net (snd (send_packet (\<lambda>w. w) fd t s (qs_net q))) q"
  | (silent) s ss where "json_dump body = Inr s" "secure_session ops fd q = Some ss"
      "fst (encrypt ops s ss) = []" "q' = set_session fd (snd (encrypt ops s ss)) q"
  | (secure) s ss where "json_dump body = Inr s" "secure_session ops fd q = Some ss"
      "fst (encrypt ops s ss) \<noteq> []"
      "q' = set_net (snd (send_packet (\<lambda>w. w) fd t (fst (encrypt ops s ss)) (qs_net q)))
              (set_session fd (snd (encrypt ops s ss)) q)"
proof -
  from assms obtain s where s: "json_dump body = Inr s" by (auto simp: qt_sendMessage_def rbind_Inr_iff)
  show thesis
  proof (cases "secure_session ops fd q")
    case None
    with assms s show thesis by (intro clear) (auto simp: qt_sendMessage_def split: prod.splits)
  next
    case (Some ss)
    with assms s silent [OF s Some] secure [OF s Some] show thesis
      by (cases "fst (encrypt ops s ss) = []") (auto simp: qt_sendMessage_def split: prod.splits if_splits)
  qed
qed

lemma qt_sendImageMessage_cases:
  assumes "qt_sendImageMessage ops fd meta jpeg q = Inr (r, q')"
  obtains (silent) ss' where "q' = set_session fd ss' q"
  | (clear) s where "q' = set_net (snd (send_image_packet (\<lambda>w. w) fd s jpeg (qs_net q))) q"
  | (secure) s ss' where "q' = set_net (snd (send_image_packet (\<lambda>w. w) fd s jpeg (qs_net q))) (set_session fd ss' q)"
proof -
  from assms obtain s where s: "json_dump meta = Inr s" by (auto simp: qt_sendImageMessage_def rbind_Inr_iff)
  show thesis
  proof (cases "secure_session ops fd q")
    case None
    with assms s show thesis by (intro clear [of s]) (auto simp: qt_sendImageMessage_def split: prod.splits)
  next
    case (Some ss)
    with assms s silent [of "snd (encrypt ops s ss)"] secure [of "fst (encrypt ops s ss)" "snd (encrypt ops s ss)"]
    show thesis by (cases "fst (encrypt ops s ss) = []") (auto simp: qt_sendImageMessage_def split: prod.splits if_splits)
  qed
qed

lemma qt_send_keeps:
  assumes "qt_sendMessage ops fd t body q = Inr (r, q')"
  shows "qt_kept q' = qt_kept q"
    "g \<noteq> fd \<Longrightarrow> qs_net q' g = qs_net q g" "g \<noteq> fd \<Longrightarrow> in_clear ops g q' = in_clear ops g q"
  using assms by (cases rule: qt_sendMessage_cases; simp add: send_packet_other)+

lemma qt_image_keeps:
  assumes "qt_sendImageMessage ops fd meta jpeg q = Inr (r, q')"
  shows "qt_kept q' = qt_kept q" "g \<noteq> fd \<Longrightarrow> qs_net q' g = qs_net q g"
  using assms by (cases rule: qt_sendImageMessage_cases; simp add: send_image_packet_other)+

text \<open>Who each broadcast sends to.\<close>

definition role_of :: "fd \<Rightarrow> fd list \<times> (fd, string) omap \<times> ssl_ctx option \<Rightarrow> string option" where
  "role_of fd k = (case om_find fd (fst (snd k)) of Some role \<Rightarrow> if role = [] then None else Some role | None \<Rightarrow> None)"

lemma client_role_kept: "client_role fd q = role_of fd (qt_kept q)"
  by (simp add: client_role_def role_of_def qt_kept_def)

definition role_allows :: "string \<Rightarrow> string option \<Rightarrow> bool" where
  "role_allows min_role role =
     (min_role = ''user'' \<and> (role = Some ''user'' \<or> role = Some ''admin'')
      \<or> min_role = ''admin'' \<and> role = Some ''admin'')"

interpretation to_all: delivering qs_net qt_kept "\<lambda>fd. qt_sendMessage ops fd t body" "\<lambda>fd k. True"
    "in_clear ops" "packet_bytes (\<lambda>w. w) t (case json_dump body of Inr s \<Rightarrow> s | Inl e \<Rightarrow> [])" for ops t body
proof (unfold_locales, goal_cases)
  case (4 fd q r q')
  obtain net' where "send_packet (\<lambda>w. w) fd t (case json_dump body of Inr s \<Rightarrow> s | Inl e \<Rightarrow> []) (qs_net q) = (True, net')"
    "sk_tx (net' fd) = sk_tx (qs_net q fd)
       @ packet_bytes (\<lambda>w. w) t (case json_dump body of Inr s \<Rightarrow> s | Inl e \<Rightarrow> [])"
    by (rule qt_framing.send_packet_ok [of "qs_net q" fd t "case json_dump body of Inr s \<Rightarrow> s | Inl e \<Rightarrow> []", OF 4(4)])
  with 4(1,3) show ?case by (cases rule: qt_sendMessage_cases) (simp_all add: in_clear_def)
next
  case (6 fd q r q')
  from 6(1) show ?case using 6(2) by (cases rule: qt_sendMessage_cases) (simp_all add: send_packet_tx_ok)
qed (use qt_send_keeps in \<open>simp_all\<close>)

interpretation to_role: sender qs_net qt_kept
    "\<lambda>fd q'. case client_role fd q' of
         None \<Rightarrow> Inr (False, q')
       | Some role \<Rightarrow>
         (if min_role = ''user'' \<and> (role = ''user'' \<or> role = ''admin'') then qt_sendMessage ops fd t body q'
          else if min_role = ''admin'' \<and> role = ''admin'' then qt_sendMessage ops fd t body q'
          else Inr (False, q'))"
    "\<lambda>fd k. role_allows min_role (role_of fd k)" for ops t body min_role
  by unfold_locales
    (auto simp: client_role_kept role_allows_def dest: qt_send_keeps split: option.splits if_splits)

interpretation by_role: sender qs_net qt_kept
    "\<lambda>fd q'. case client_role fd q' of
         None \<Rightarrow> Inr (False, q')
       | Some role \<Rightarrow>
         (if role = ''admin'' then qt_sendMessage ops fd t admin_body q'
          else if role = ''user'' then qt_sendMessage ops fd t user_body q'
          else Inr (False, q'))"
    "\<lambda>fd k. role_allows ''user'' (role_of fd k)" for ops t user_body admin_body
  by unfold_locales
    (auto simp: client_role_kept role_allows_def dest: qt_send_keeps split: option.splits if_splits)

interpretation image_to_roles: sender qs_net qt_kept
    "\<lambda>fd q'. case client_role fd q' of None \<Rightarrow> Inr (False, q') | Some role \<Rightarrow> qt_sendImageMessage ops fd meta jpeg q'"
    "\<lambda>fd k. role_of fd k \<noteq> None" for ops meta jpeg
  by unfold_locales (auto simp: client_role_kept dest: qt_image_keeps split: option.splits)

section \<open>Properties of the broadcasts\<close>

text \<open>
  C19: \<open>broadcastToRole\<close> changes no connection but those of clients whose role may see the message:
  \<open>admin\<close> messages reach administrators only, \<open>user\<close> messages users and administrators, and a
  client that has not logged in gets nothing.
\<close>

theorem broadcastToRole_recipients:
  assumes "broadcastToRole ops t body min_role q = Inr q'" "\<not> role_allows min_role (client_role fd q)"
  shows "qs_net q' fd = qs_net q fd"
  using to_role.each_spares [OF assms(1) [unfolded broadcastToRole_def], of fd] assms(2)
  by (simp add: client_role_kept)

lemma qt_sendMessage_returns:
  "json_dump body = Inr s \<Longrightarrow> \<exists>r q'. qt_sendMessage ops fd t body q = Inr (r, q')"
  by (auto simp: qt_sendMessage_def split: option.split prod.split)

text \<open>Three clients, a user and an administrator among them, without TLS.\<close>

definition sample_qt :: "link qt_server" where
  "sample_qt =
     \<lparr>cn_running = True, cn_server_fd = 3, cn_open = [6, 5, 4], cn_client_fds = [4, 5, 6],
      cn_threads = [(4, Serving), (5, Serving), (6, Serving)], cn_finished = [], cn_acceptor = Accepting,
      cn_terminated = False, qs_client_roles = [(5, ''user''), (6, ''admin'')], qs_tls_ctx = None,
      qs_tls_sessions = [], qs_net = (\<lambda>_. sample_sock)\<rparr>"

lemma dump_empty_object: "json_dump (JObject []) = Inr ''{}''"
  using dump_ok(1) [of "JObject []"] by simp

lemma broadcastToRole_recipients_witness:
  "\<exists>q'. broadcastToRole link_ops META (JObject []) ''admin'' sample_qt = Inr q' \<and> qs_net q' 5 = sample_sock"
proof -
  have "\<exists>q'. broadcastToRole link_ops META (JObject []) ''admin'' sample_qt = Inr q'"
    unfolding broadcastToRole_def
    by (rule send_each_returns) (simp add: qt_sendMessage_returns [OF dump_empty_object] split: option.split, blast)
  then obtain q' where q': "broadcastToRole link_ops META (JObject []) ''admin'' sample_qt = Inr q'" ..
  have "client_role 5 sample_qt = Some ''user''"
    by (simp add: client_role_def sample_qt_def)
  then have "\<not> role_allows ''admin'' (client_role 5 sample_qt)" by (simp add: role_allows_def)
  from broadcastToRole_recipients [OF q' this] q' show ?thesis by (simp add: sample_qt_def)
qed

text \<open>
  \<open>broadcastByRole\<close> and \<open>broadcastImage\<close> change no connection of a client without a role.
\<close>

lemma no_role_no_data:
  "client_role fd q = None \<Longrightarrow>
   (broadcastByRole ops t user_body admin_body q = Inr q1 \<longrightarrow> qs_net q1 fd = qs_net q fd) \<and>
   (broadcastImage ops meta jpeg q = Inr q2 \<longrightarrow> qs_net q2 fd = qs_net q fd)"
  using by_role.each_spares [of ops t admin_body user_body "cn_client_fds q" q q1 fd]
    image_to_roles.each_spares [of ops meta jpeg "cn_client_fds q" q q2 fd]
  by (auto simp: broadcastByRole_def broadcastImage_def client_role_kept role_allows_def)

lemma no_role_sample:
  "\<exists>q'. broadcastByRole link_ops AVAILABLE (JObject []) (JObject []) sample_qt = Inr q' \<and>
     qs_net q' 4 = sample_sock"
proof -
  have "\<exists>q'. broadcastByRole link_ops AVAILABLE (JObject []) (JObject []) sample_qt = Inr q'"
    unfolding broadcastByRole_def
    by (rule send_each_returns) (simp add: qt_sendMessage_returns [OF dump_empty_object] split: option.split, blast)
  then obtain q' where q': "broadcastByRole link_ops AVAILABLE (JObject []) (JObject []) sample_qt = Inr q'" ..
  have "client_role 4 sample_qt = None" by (simp add: client_role_def sample_qt_def)
  from no_role_no_data [OF this, of link_ops AVAILABLE "JObject []" "JObject []" q'] q'
  show ?thesis by (simp add: sample_qt_def)
qed

text \<open>
  \<open>broadcast\<close>, by contrast, which carries the AI events and the sensor data, puts the whole
  packet on the wire of every listed client whose handshake is not done, logged in or not, in
  the clear.
\<close>

lemma broadcast_reaches_unauthenticated:
  assumes "qt_broadcast ops t body q = Inr q'" "json_dump body = Inr s"
    and "distinct (cn_client_fds q)" "fd \<in> set (cn_client_fds q)"
    and "in_clear ops fd q" "tx_ok (qs_net q fd)"
  shows "sk_tx (qs_net q' fd) = sk_tx (qs_net q fd) @ packet_bytes (\<lambda>w. w) t s"
  using to_all.each_delivers [OF assms(1) [unfolded qt_broadcast_def] assms(3,4) _ assms(5,6)] assms(2)
  by simp

lemma broadcast_reaches_unauthenticated_witness:
  "\<exists>q'. qt_broadcast link_ops AI (JObject []) sample_qt = Inr q' \<and>
     sk_tx (qs_net q' 4) = packet_bytes (\<lambda>w. w) AI ''{}''"
proof -
  have "\<exists>q'. qt_broadcast link_ops AI (JObject []) sample_qt = Inr q'"
    unfolding qt_broadcast_def by (rule send_each_returns) (simp add: qt_sendMessage_returns [OF dump_empty_object])
  then obtain q' where q': "qt_broadcast link_ops AI (JObject []) sample_qt = Inr q'" ..
  from broadcast_reaches_unauthenticated [OF q' dump_empty_object, of 4] q' show ?thesis
    by (simp add: sample_qt_def in_clear_def secure_session_def tx_ok_def sample_sock_def)
qed


definition sample_tls_qt :: "link qt_server" where
  "sample_tls_qt = sample_qt\<lparr>qs_tls_sessions := [(4, link_up)]\<rparr>"

lemma sample_secure: "secure_session link_ops 4 sample_tls_qt = Some link_up"
  by (simp add: secure_session_def sample_tls_qt_def link_up_done)


section \<open>The handler\<close>

lemma parse_and_dispatch_cases:
  assumes "parse_and_dispatch ops fd t body q = (r, q')"
  shows "r \<noteq> Hangs" "r = Throws e \<Longrightarrow> e = OutOfRange 406" "r = Dispatch t' j \<Longrightarrow> t' = t \<and> q' = q \<and> json_good j"
proof -
  have err: "\<exists>s. json_dump (error_body ''JSON parse error'') = Inr s"
    using dump_ok(1) [of "error_body ''JSON parse error''"]
    by (simp add: error_body_def json_object_def om_emplace_def)
  have send: "qt_sendMessage ops fd FAIL (error_body ''JSON parse error'') q \<noteq> Inl e'" for e'
    using err by (auto simp: qt_sendMessage_def rbind_Inl_iff split: option.splits prod.splits if_splits)
  show "r \<noteq> Hangs" using assms
    by (auto simp: parse_and_dispatch_def split: sum.splits prod.splits if_splits)
  show "r = Throws e \<Longrightarrow> e = OutOfRange 406"
    using assms send json_parse_exn [of body] json_parse_good [of body]
    by (auto simp: parse_and_dispatch_def parse_exn_def split: sum.splits prod.splits if_splits)
  show "r = Dispatch t' j \<Longrightarrow> t' = t \<and> q' = q \<and> json_good j"
    using assms json_parse_good [of body]
    by (auto simp: parse_and_dispatch_def split: sum.splits prod.splits if_splits)
qed

lemma plain_round_cases:
  assumes "plain_round ops fd t buf q = (r, q')"
  shows "r \<noteq> Hangs" "r = Throws e \<Longrightarrow> e = OutOfRange 406" "r = Dispatch t' j \<Longrightarrow> t' = t \<and> json_good j"
  using assms parse_and_dispatch_cases [of ops fd t buf q r q']
  by (auto simp: plain_round_def dump_empty_object json_good_def split: if_splits)

lemma tls_round_cases:
  assumes "tls_round ops fd t buf q = (r, q')"
  shows "ssl_read_bounded ops avail \<Longrightarrow> r \<noteq> Hangs"
    "r = Throws e \<Longrightarrow> e = OutOfRange 406"
    "r = Dispatch t' j \<Longrightarrow> t' = t \<and> json_good j \<and> secure_session ops fd q \<noteq> None"
proof -
  show "r \<noteq> Hangs" if bounded: "ssl_read_bounded ops avail"
  proof -
    have "decrypt ops buf ss \<noteq> None" for ss using decrypt_returns [OF bounded] by simp
    moreover have "parse_and_dispatch ops fd t p q1 \<noteq> (Hangs, q2)" for p q1 q2
      using parse_and_dispatch_cases(1) [of ops fd t p q1 Hangs q2] by auto
    ultimately show ?thesis using assms
      by (auto simp: tls_round_def Let_def simp del: not_None_eq split: option.splits prod.splits if_splits)
  qed
  show "r = Throws e \<Longrightarrow> e = OutOfRange 406"
    using assms parse_and_dispatch_cases(2)
    by (fastforce simp: tls_round_def Let_def split: option.splits prod.splits if_splits)
  show "r = Dispatch t' j \<Longrightarrow> t' = t \<and> json_good j \<and> secure_session ops fd q \<noteq> None"
    using assms parse_and_dispatch_cases(3)
    by (fastforce simp: tls_round_def secure_session_def Let_def split: option.splits prod.splits if_splits)
qed

text \<open>What a round of either kind can end in, whatever was received.\<close>

lemma handler_roundE:
  assumes "handler_round ops fd q = (r, q')"
  obtains (stop) "r = Break"
  | (tls) t buf net where "qs_tls_ctx q \<noteq> None" "tls_round ops fd t buf (set_net net q) = (r, q')"
  | (plain) t buf net where "qs_tls_ctx q = None" "plain_round ops fd t buf (set_net net q) = (r, q')"
proof -
  obtain hd net1 where h: "recv_header fd (qs_net q) = (hd, net1)" by force
  show thesis
  proof (cases "hd = None \<or> (\<exists>h. hd = Some h \<and> max_body < unat (ph_body_length h))")
    case True
    with assms h show thesis by (intro stop) (auto simp: handler_round_def Let_def)
  next
    case False
    then obtain h where hs: "hd = Some h" "\<not> max_body < unat (ph_body_length h)" by auto
    obtain buf net2 where b: "(if 0 < unat (ph_body_length h) then recvExact fd (unat (ph_body_length h)) net1
        else (Some [], net1)) = (buf, net2)" by force
    have net2: "set_net net2 (set_net net1 q) = set_net net2 q" by (simp add: set_net_def)
    show thesis
    proof (cases buf)
      case None
      with assms h hs b show thesis by (intro stop) (simp add: handler_round_def Let_def)
    next
      case (Some bs)
      with assms h hs b net2 tls [of "ph_type h" bs net2] plain [of "ph_type h" bs net2] show thesis
        by (simp add: handler_round_def Let_def split: if_splits)
    qed
  qed
qed

lemma secure_session_set_net [simp]: "secure_session ops fd (set_net net q) = secure_session ops fd q"
  by (simp add: secure_session_def)

lemma handler_round_cases:
  assumes "handler_round ops fd q = (r, q')"
  shows "ssl_read_bounded ops avail \<Longrightarrow> r \<noteq> Hangs"
    "r = Throws e \<Longrightarrow> e = OutOfRange 406"
    "r = Dispatch t j \<Longrightarrow> json_good j \<and> (qs_tls_ctx q \<noteq> None \<longrightarrow> secure_session ops fd q \<noteq> None)"
  using assms
  by (cases rule: handler_roundE; use tls_round_cases plain_round_cases in fastforce)+

text \<open>A whole packet is read as one, and the stream stands at the next.\<close>

lemma handler_round_packet:
  assumes "rx_ok (qs_net q fd)" "sk_rx (qs_net q fd) = packet_bytes (\<lambda>w. w) t buf @ rest"
    and "type_wf t" "length buf \<le> max_body"
  obtains net where "received_upto fd rest (qs_net q) net"
    "handler_round ops fd q = (if qs_tls_ctx q \<noteq> None then tls_round ops fd t buf (set_net net q)
       else plain_round ops fd t buf (set_net net q))"
proof -
  have len: "length buf < 2 ^ 32" using assms(4) by (simp add: max_body_def)
  obtain h net1 net2 where h: "recv_header fd (qs_net q) = (Some h, net1)" "ph_type h = t"
    "unat (ph_body_length h) = length buf"
    "recvExact fd (length buf) net1 = (Some buf, net2)" "received_upto fd rest (qs_net q) net2"
    by (rule qt_framing.recv_packet [of "qs_net q" fd t buf rest, OF assms(1,2,3) len])
  have "buf = [] \<Longrightarrow> net1 = net2"
    using h(4) by (auto simp: recvExact_def recv_loop.simps [of 0] split: prod.splits)
  with h assms(4) show thesis
    by (intro that [of net2]) (auto simp: handler_round_def Let_def set_net_def)
qed

section \<open>Properties of the handler\<close>



text \<open>
  C18: with TLS on, \<open>on_message_\<close> is only ever called for a client that has a session whose handshake
  is done; every body it gets is ordered and UTF-8.
\<close>

theorem dispatch_only_after_handshake:
  assumes "handler_round ops fd q = (Dispatch t j, q')" "qs_tls_ctx q \<noteq> None"
  shows "json_good j \<and> (\<exists>s. om_find fd (qs_tls_sessions q) = Some (Some s) \<and> SSL_is_init_finished ops s)"
  using handler_round_cases(3) [OF assms(1), of t j] assms(2)
  by (auto simp: secure_session_def isHandshakeDone_def split: option.splits if_splits)

lemma handler_round_request:
  assumes "rx_ok (qs_net q fd)" "sk_rx (qs_net q fd) = packet_bytes (\<lambda>w. w) t buf @ rest"
    and "type_wf t" "length buf \<le> max_body"
    and "json_wf j" "json_floats_ok j" "json_dump j = Inr s"
    and "if qs_tls_ctx q = None then buf = s
         else \<exists>ss ss'. secure_session ops fd q = Some ss \<and> decrypt ops buf ss = Some (s, ss')"
  shows "\<exists>q'. handler_round ops fd q = (Dispatch t (json_norm j), q') \<and> sk_rx (qs_net q' fd) = rest"
proof -
  note parse = json_parse_dump [OF assms(5-7)]
  obtain d where d: "json_dump (json_norm j) = Inr d" using json_parse_good [OF parse] by blast
  have "s \<noteq> []" using parse json_parse_empty by auto
  moreover have "parse_and_dispatch ops fd t s q1 = (Dispatch t (json_norm j), q1)" for q1
    by (simp add: parse_and_dispatch_def parse d)
  moreover obtain net where "received_upto fd rest (qs_net q) net"
    "handler_round ops fd q = (if qs_tls_ctx q \<noteq> None then tls_round ops fd t buf (set_net net q)
       else plain_round ops fd t buf (set_net net q))"
    by (rule handler_round_packet [of q fd t buf rest ops, OF assms(1-4)])
  ultimately show ?thesis
    using assms(8)
    by (auto simp: plain_round_def tls_round_def secure_session_def received_upto_def split: option.splits if_splits)
qed


text \<open>
  One packet of any type with the five bytes \<open>1e999\<close>, from a client that has not logged in,
  terminates a server without TLS: the exception leaves the handler thread.
\<close>

lemma one_packet_terminates:
  assumes "rx_ok (qs_net q fd)" "sk_rx (qs_net q fd) = packet_bytes (\<lambda>w. w) t ''1e999'' @ rest"
    and "type_wf t" "qs_tls_ctx q = None"
  shows "fst (handler_round ops fd q) = Throws (OutOfRange 406)"
proof -
  obtain net where "handler_round ops fd q = (if qs_tls_ctx q \<noteq> None then tls_round ops fd t ''1e999'' (set_net net q)
       else plain_round ops fd t ''1e999'' (set_net net q))"
    by (rule handler_round_packet [of q fd t "''1e999''" rest ops, OF assms(1-3)]) (simp add: max_body_def)
  with assms(4) show ?thesis
    by (simp add: plain_round_def parse_and_dispatch_def json_parse_huge)
qed

section \<open>Concrete rounds\<close>

definition sample_reading :: "bytes \<Rightarrow> ssl_ctx option \<Rightarrow> link qt_server" where
  "sample_reading rx ctx =
     sample_tls_qt\<lparr>qs_tls_ctx := ctx, qs_net := (\<lambda>_. sample_sock\<lparr>sk_rx := rx\<rparr>)\<rparr>"

definition sample_ctx :: ssl_ctx where
  "sample_ctx = \<lparr>ctx_cert = True, ctx_key = True, ctx_ca = True, ctx_verify_peer = True,
     ctx_fail_if_no_peer_cert = True\<rparr>"

lemma sample_reading_simps:
  "rx_ok (qs_net (sample_reading rx ctx) fd)" "sk_rx (qs_net (sample_reading rx ctx) fd) = rx"
  "qs_tls_ctx (sample_reading rx ctx) = ctx" "secure_session link_ops 4 (sample_reading rx ctx) = Some link_up"
  using sample_secure by (simp_all add: sample_reading_def sample_sock_def rx_ok_def secure_session_def)

lemma link_decrypts: "decrypt link_ops ''{}'' link_up = Some (''{}'', link_up)"
  by (simp add: decrypt_def link_up_def link_ops_def read_loop.simps BufferSize_def)


lemma reading_dispatches:
  "\<exists>q'. handler_round link_ops 4 (sample_reading (packet_bytes (\<lambda>w. w) CAMERA ''{}'') (Some sample_ctx)) =
     (Dispatch CAMERA (JObject []), q')"
proof -
  obtain net where "handler_round link_ops 4 (sample_reading (packet_bytes (\<lambda>w. w) CAMERA ''{}'') (Some sample_ctx)) =
    tls_round link_ops 4 CAMERA ''{}'' (set_net net (sample_reading (packet_bytes (\<lambda>w. w) CAMERA ''{}'') (Some sample_ctx)))"
    by (rule handler_round_packet [of "sample_reading (packet_bytes (\<lambda>w. w) CAMERA ''{}'') (Some sample_ctx)" 4
          CAMERA "''{}''" "[]" link_ops])
      (auto simp: sample_reading_simps type_wf_def max_body_def)
  moreover have "json_parse ''{}'' = Inr (JObject [])"
    using json_parse_dump [of "JObject []" "''{}''"] dump_empty_object by simp
  moreover have "om_find 4 (qs_tls_sessions (sample_reading rx ctx)) = Some link_up" for rx ctx
    by (simp add: sample_reading_def sample_tls_qt_def)
  ultimately show ?thesis
    using link_decrypts dump_empty_object by (simp add: tls_round_def link_up_done parse_and_dispatch_def)
qed

lemma dispatch_only_after_handshake_witness:
  "\<exists>s. om_find 4 (qs_tls_sessions (sample_reading (packet_bytes (\<lambda>w. w) CAMERA ''{}'') (Some sample_ctx))) = Some (Some s)
     \<and> SSL_is_init_finished link_ops s"
  using reading_dispatches dispatch_only_after_handshake
  by (metis (no_types, lifting) option.distinct(1) sample_reading_simps(3))

lemma one_packet_terminates_witness:
  "fst (handler_round link_ops 9 (sample_reading (packet_bytes (\<lambda>w. w) LOGIN ''1e999'') None)) = Throws (OutOfRange 406)"
  using one_packet_terminates [of "sample_reading (packet_bytes (\<lambda>w. w) LOGIN ''1e999'') None" 9 LOGIN "[]" link_ops]
  by (simp add: sample_reading_simps type_wf_def)

end
