(* ===== verification/AuthManager.thy ===== *)
theory AuthManager
  imports Json
begin

text \<open>
  \<open>ClientServer/src/AuthManager.cpp\<close>: accounts in one SQL table. The statements are text of the
  source; each is translated to the operation on the list of rows it denotes, with \<open>UNIQUE\<close> on
  \<open>username\<close> and \<open>email\<close>, and \<open>AUTOINCREMENT\<close>. Whether \<open>sqlite3_prepare_v2\<close> and \<open>sqlite3_step\<close> work is
  an argument of each operation, as are SHA-256, the bytes of \<open>/dev/urandom\<close> and the time of
  \<open>CURRENT_TIMESTAMP\<close>. Text is bound with length -1, so SQLite sees it up to its first NUL.
\<close>

section \<open>The table\<close>

record user_row =
  usr_id :: nat
  usr_username :: string
  usr_email :: string
  usr_password :: string
  usr_salt :: string
  usr_role :: string
  usr_created :: string

record user_db =
  db_users :: "user_row list"
  db_sequence :: nat

definition empty_db :: user_db where
  "empty_db = \<lparr>db_users = [], db_sequence = 0\<rparr>"

text \<open>What the calls of SQLite return besides what the data decides.\<close>

record sql_env =
  sql_prepare_ok :: bool
  sql_step_ok :: bool
  sql_now :: string

section \<open>The statements\<close>

datatype insert_result = Inserted | UniqueViolation | InsertError

definition sql_insert_user ::
    "sql_env \<Rightarrow> string \<Rightarrow> string \<Rightarrow> string \<Rightarrow> string \<Rightarrow> string \<Rightarrow> user_db \<Rightarrow> insert_result \<times> user_db" where
  "sql_insert_user env username email password salt role db =
     (if \<not> sql_step_ok env then (InsertError, db)
      else if \<exists>r \<in> set (db_users db). usr_username r = username \<or> usr_email r = email
        then (UniqueViolation, db)
      else (Inserted,
        \<lparr>db_users = db_users db @
           [\<lparr>usr_id = Suc (db_sequence db), usr_username = username, usr_email = email,
             usr_password = password, usr_salt = salt, usr_role = role, usr_created = sql_now env\<rparr>],
         db_sequence = Suc (db_sequence db)\<rparr>))"

definition sql_select_user :: "sql_env \<Rightarrow> string \<Rightarrow> user_db \<Rightarrow> user_row option" where
  "sql_select_user env username db =
     (if sql_step_ok env then find (\<lambda>r. usr_username r = username) (db_users db) else None)"

definition sql_select_pending :: "sql_env \<Rightarrow> user_db \<Rightarrow> user_row list" where
  "sql_select_pending env db =
     (if sql_step_ok env then filter (\<lambda>r. usr_role r = ''pending'') (db_users db) else [])"

definition pending_user :: "string \<Rightarrow> user_row \<Rightarrow> bool" where
  "pending_user username r = (usr_username r = username \<and> usr_role r = ''pending'')"

text \<open>The number of changed rows, as \<open>sqlite3_changes\<close> reports it.\<close>

definition sql_approve :: "string \<Rightarrow> user_db \<Rightarrow> nat \<times> user_db" where
  "sql_approve username db =
     (length (filter (pending_user username) (db_users db)),
      db\<lparr>db_users := map (\<lambda>r. if pending_user username r then r\<lparr>usr_role := ''user''\<rparr> else r) (db_users db)\<rparr>)"

section \<open>Replies\<close>

definition msg_all_fields :: string where
  "msg_all_fields = map (char_of :: nat \<Rightarrow> char)
     [0xEB, 0xAA, 0xA8, 0xEB, 0x93, 0xA0, 0x20, 0xED, 0x95, 0x84, 0xEB, 0x93, 0x9C, 0xEB, 0xA5,
      0xBC, 0x20, 0xEC, 0x9E, 0x85, 0xEB, 0xA0, 0xA5, 0xED, 0x95, 0xB4, 0xEC, 0xA3, 0xBC, 0xEC,
      0x84, 0xB8, 0xEC, 0x9A, 0x94, 0x2E]"

definition msg_db_error :: string where
  "msg_db_error = map (char_of :: nat \<Rightarrow> char)
     [0x44, 0x42, 0x20, 0xEC, 0x98, 0xA4, 0xEB, 0xA5, 0x98]"

definition msg_in_use :: string where
  "msg_in_use = map (char_of :: nat \<Rightarrow> char)
     [0xEC, 0x9D, 0xB4, 0xEB, 0xAF, 0xB8, 0x20, 0xEC, 0x82, 0xAC, 0xEC, 0x9A, 0xA9, 0x20, 0xEC,
      0xA4, 0x91, 0xEC, 0x9D, 0xB8, 0x20, 0xEC, 0x95, 0x84, 0xEC, 0x9D, 0xB4, 0xEB, 0x94, 0x94,
      0x20, 0xEB, 0x98, 0x90, 0xEB, 0x8A, 0x94, 0x20, 0xEC, 0x9D, 0xB4, 0xEB, 0xA9, 0x94, 0xEC,
      0x9D, 0xBC, 0xEC, 0x9E, 0x85, 0xEB, 0x8B, 0x88, 0xEB, 0x8B, 0xA4, 0x2E]"

definition msg_register_failed :: string where
  "msg_register_failed = map (char_of :: nat \<Rightarrow> char)
     [0xED, 0x9A, 0x8C, 0xEC, 0x9B, 0x90, 0xEA, 0xB0, 0x80, 0xEC, 0x9E, 0x85, 0x20, 0xEC, 0x8B,
      0xA4, 0xED, 0x8C, 0xA8]"

definition msg_registered :: string where
  "msg_registered = map (char_of :: nat \<Rightarrow> char)
     [0xED, 0x9A, 0x8C, 0xEC, 0x9B, 0x90, 0xEA, 0xB0, 0x80, 0xEC, 0x9E, 0x85, 0x20, 0xEC, 0x99,
      0x84, 0xEB, 0xA3, 0x8C, 0x2E, 0x20, 0xEA, 0xB4, 0x80, 0xEB, 0xA6, 0xAC, 0xEC, 0x9E, 0x90,
      0x20, 0xEC, 0x8A, 0xB9, 0xEC, 0x9D, 0xB8, 0xEC, 0x9D, 0x84, 0x20, 0xEA, 0xB8, 0xB0, 0xEB,
      0x8B, 0xA4, 0xEB, 0xA0, 0xA4, 0xEC, 0xA3, 0xBC, 0xEC, 0x84, 0xB8, 0xEC, 0x9A, 0x94, 0x2E]"

definition msg_enter_id_pw :: string where
  "msg_enter_id_pw = map (char_of :: nat \<Rightarrow> char)
     [0xEC, 0x95, 0x84, 0xEC, 0x9D, 0xB4, 0xEB, 0x94, 0x94, 0xEC, 0x99, 0x80, 0x20, 0xEB, 0xB9,
      0x84, 0xEB, 0xB0, 0x80, 0xEB, 0xB2, 0x88, 0xED, 0x98, 0xB8, 0xEB, 0xA5, 0xBC, 0x20, 0xEC,
      0x9E, 0x85, 0xEB, 0xA0, 0xA5, 0xED, 0x95, 0xB4, 0xEC, 0xA3, 0xBC, 0xEC, 0x84, 0xB8, 0xEC,
      0x9A, 0x94, 0x2E]"

definition msg_no_such_id :: string where
  "msg_no_such_id = map (char_of :: nat \<Rightarrow> char)
     [0xEC, 0xA1, 0xB4, 0xEC, 0x9E, 0xAC, 0xED, 0x95, 0x98, 0xEC, 0xA7, 0x80, 0x20, 0xEC, 0x95,
      0x8A, 0xEB, 0x8A, 0x94, 0x20, 0xEC, 0x95, 0x84, 0xEC, 0x9D, 0xB4, 0xEB, 0x94, 0x94, 0xEC,
      0x9E, 0x85, 0xEB, 0x8B, 0x88, 0xEB, 0x8B, 0xA4, 0x2E]"

definition msg_wrong_password :: string where
  "msg_wrong_password = map (char_of :: nat \<Rightarrow> char)
     [0xEB, 0xB9, 0x84, 0xEB, 0xB0, 0x80, 0xEB, 0xB2, 0x88, 0xED, 0x98, 0xB8, 0xEA, 0xB0, 0x80,
      0x20, 0xEC, 0x9D, 0xBC, 0xEC, 0xB9, 0x98, 0xED, 0x95, 0x98, 0xEC, 0xA7, 0x80, 0x20, 0xEC,
      0x95, 0x8A, 0xEC, 0x8A, 0xB5, 0xEB, 0x8B, 0x88, 0xEB, 0x8B, 0xA4, 0x2E]"

definition msg_pending :: string where
  "msg_pending = map (char_of :: nat \<Rightarrow> char)
     [0xEA, 0xB4, 0x80, 0xEB, 0xA6, 0xAC, 0xEC, 0x9E, 0x90, 0x20, 0xEC, 0x8A, 0xB9, 0xEC, 0x9D,
      0xB8, 0x20, 0xEB, 0x8C, 0x80, 0xEA, 0xB8, 0xB0, 0x20, 0xEC, 0xA4, 0x91, 0xEC, 0x9E, 0x85,
      0xEB, 0x8B, 0x88, 0xEB, 0x8B, 0xA4, 0x2E]"

definition msg_approve_failed :: string where
  "msg_approve_failed = map (char_of :: nat \<Rightarrow> char)
     [0xEC, 0x8A, 0xB9, 0xEC, 0x9D, 0xB8, 0x20, 0xEC, 0x8B, 0xA4, 0xED, 0x8C, 0xA8]"

definition msg_not_pending :: string where
  "msg_not_pending = map (char_of :: nat \<Rightarrow> char)
     [0xED, 0x95, 0xB4, 0xEB, 0x8B, 0xB9, 0x20, 0xEC, 0x9C, 0xA0, 0xEC, 0xA0, 0x80, 0xEA, 0xB0,
      0x80, 0x20, 0xEC, 0x97, 0x86, 0xEA, 0xB1, 0xB0, 0xEB, 0x82, 0x98, 0x20, 0xEC, 0x9D, 0xB4,
      0xEB, 0xAF, 0xB8, 0x20, 0xEC, 0x8A, 0xB9, 0xEC, 0x9D, 0xB8, 0xEB, 0x90, 0x98, 0xEC, 0x97,
      0x88, 0xEC, 0x8A, 0xB5, 0xEB, 0x8B, 0x88, 0xEB, 0x8B, 0xA4, 0x2E]"

definition msg_approved_suffix :: string where
  "msg_approved_suffix = map (char_of :: nat \<Rightarrow> char)
     [0x20, 0xEC, 0x8A, 0xB9, 0xEC, 0x9D, 0xB8, 0x20, 0xEC, 0x99, 0x84, 0xEB, 0xA3, 0x8C]"

definition failure :: "string \<Rightarrow> json" where
  "failure msg = json_object [(''success'', JBool False), (''error'', JString msg)]"

definition success_message :: "string \<Rightarrow> json" where
  "success_message msg = json_object [(''success'', JBool True), (''message'', JString msg)]"

section \<open>Passwords\<close>

text \<open>The bytes read from \<open>/dev/urandom\<close>; \<open>None\<close> when it cannot be read and the buffer stays zero.\<close>

definition salt_length :: nat where
  "salt_length = 16"

definition generateSalt :: "bytes option \<Rightarrow> string" where
  "generateSalt urandom =
     hex_string (case urandom of None \<Rightarrow> replicate salt_length (CHR 0x00) | Some bs \<Rightarrow> take salt_length bs)"

definition hashPassword :: "(bytes \<Rightarrow> bytes) \<Rightarrow> string \<Rightarrow> string \<Rightarrow> string" where
  "hashPassword sha256 password salt = hex_string (sha256 (password @ salt))"

section \<open>Operations\<close>

definition registerUser ::
    "(bytes \<Rightarrow> bytes) \<Rightarrow> sql_env \<Rightarrow> bytes option \<Rightarrow> string \<Rightarrow> string \<Rightarrow> string \<Rightarrow> user_db \<Rightarrow> json \<times> user_db" where
  "registerUser sha256 env urandom username email password db =
     (if username = [] \<or> email = [] \<or> password = [] then (failure msg_all_fields, db)
      else
        (let salt = generateSalt urandom; hashed = hashPassword sha256 password salt
         in if \<not> sql_prepare_ok env then (failure msg_db_error, db)
            else (case sql_insert_user env (c_str username) (c_str email) (c_str hashed) (c_str salt) ''pending'' db of
                    (Inserted, db') \<Rightarrow> (success_message msg_registered, db')
                  | (UniqueViolation, db') \<Rightarrow> (failure msg_in_use, db')
                  | (InsertError, db') \<Rightarrow> (failure msg_register_failed, db'))))"

definition loginUser ::
    "(bytes \<Rightarrow> bytes) \<Rightarrow> sql_env \<Rightarrow> string \<Rightarrow> string \<Rightarrow> user_db \<Rightarrow> json" where
  "loginUser sha256 env username password db =
     (if username = [] \<or> password = [] then failure msg_enter_id_pw
      else if \<not> sql_prepare_ok env then failure msg_db_error
      else (case sql_select_user env (c_str username) db of
              None \<Rightarrow> failure msg_no_such_id
            | Some r \<Rightarrow>
              (if hashPassword sha256 password (usr_salt r) \<noteq> usr_password r then failure msg_wrong_password
               else if usr_role r = ''pending'' then failure msg_pending
               else json_object [(''success'', JBool True), (''state'', JString (usr_role r)),
                                 (''username'', JString username)])))"

definition pending_entry :: "user_row \<Rightarrow> json" where
  "pending_entry r =
     json_object [(''username'', JString (usr_username r)), (''email'', JString (usr_email r)),
                  (''created'', JString (usr_created r))]"

definition listPendingUsers :: "sql_env \<Rightarrow> user_db \<Rightarrow> json" where
  "listPendingUsers env db =
     (if \<not> sql_prepare_ok env then failure msg_db_error
      else json_object [(''success'', JBool True),
             (''users'', JArray (map pending_entry (sql_select_pending env db)))])"

definition approveUser :: "sql_env \<Rightarrow> string \<Rightarrow> user_db \<Rightarrow> json \<times> user_db" where
  "approveUser env username db =
     (if \<not> sql_prepare_ok env then (failure msg_db_error, db)
      else if \<not> sql_step_ok env then (failure msg_approve_failed, db)
      else (case sql_approve (c_str username) db of
              (changes, db') \<Rightarrow>
                if changes = 0 then (failure msg_not_pending, db')
                else (success_message (username @ msg_approved_suffix), db')))"

section \<open>Initial data\<close>

definition seed_users :: "(string \<times> string \<times> string \<times> string) list" where
  "seed_users =
     [(''admin_alpha'', ''admin_alpha@google.com'', ''pass_admin_alpha'', ''admin''),
      (''user_alpha'', ''user_alpha@alpha.com'', ''pass_user_alpha'', ''user''),
      (''user_beta'', ''user_beta@google.com'', ''pass_user_beta'', ''user''),
      (''user_gamma'', ''user_gamma@google.com'', ''pass_user_gamma'', ''user''),
      (''wait_alpha'', ''wait_alpha@google.com'', ''pass_wait_alpha'', ''pending''),
      (''wait_beta'', ''wait_beta@google.com'', ''pass_wait_beta'', ''pending''),
      (''wait_gamma'', ''wait_gamma@google.com'', ''pass_wait_gamma'', ''pending'')]"

definition insert_seed ::
    "(bytes \<Rightarrow> bytes) \<Rightarrow> sql_env \<Rightarrow> bytes option \<Rightarrow> string \<times> string \<times> string \<times> string \<Rightarrow> user_db \<Rightarrow> user_db" where
  "insert_seed sha256 env urandom u db =
     (case u of (username, email, password, role) \<Rightarrow>
        (let salt = generateSalt urandom; hashed = hashPassword sha256 password salt
         in snd (sql_insert_user env (c_str username) (c_str email) (c_str hashed) (c_str salt) (c_str role) db)))"

text \<open>One read of \<open>/dev/urandom\<close> per user.\<close>

definition seedTestData ::
    "(bytes \<Rightarrow> bytes) \<Rightarrow> sql_env \<Rightarrow> (nat \<Rightarrow> bytes option) \<Rightarrow> user_db \<Rightarrow> user_db" where
  "seedTestData sha256 env urandom db =
     (if 0 < length (db_users db) then db
      else fold (\<lambda>(i, u). insert_seed sha256 env (urandom i) u) (enumerate 0 seed_users) db)"

definition auth_init ::
    "(bytes \<Rightarrow> bytes) \<Rightarrow> sql_env \<Rightarrow> (nat \<Rightarrow> bytes option) \<Rightarrow> bool \<Rightarrow> bool \<Rightarrow> user_db \<Rightarrow> bool \<times> user_db" where
  "auth_init sha256 env urandom opened created db =
     (if \<not> opened \<or> \<not> created then (False, db)
      else (True, seedTestData sha256 env urandom db))"

section \<open>Replies and their fields\<close>

lemma failure_value [json_simps]: "value_bool (failure msg) ''success'' d = Inr False"
  by (simp add: failure_def json_object_def json_value_def om_emplace_def)

lemma success_message_value [json_simps]: "value_bool (success_message msg) ''success'' d = Inr True"
  by (simp add: success_message_def json_object_def json_value_def om_emplace_def)

definition login_reply :: "string \<Rightarrow> string \<Rightarrow> json" where
  "login_reply role username =
     json_object [(''success'', JBool True), (''state'', JString role), (''username'', JString username)]"

lemma login_reply_values [json_simps]:
  "value_bool (login_reply role username) ''success'' d = Inr True"
  "value_string (login_reply role username) ''state'' d' = Inr role"
  by (simp_all add: login_reply_def json_object_def json_value_def om_emplace_def)

lemma hex_string_no_nul: "CHR 0x00 \<notin> set (hex_string bs)"
proof (induction bs)
  case (Cons c bs)
  have nz: "hex_digit d \<noteq> CHR 0x00" if "d < 16" for d
  proof
    assume "hex_digit d = CHR 0x00"
    then have "(of_char (hex_digit d) :: nat) = 0" by simp
    with that show False by (simp add: hex_digit_def split: if_splits)
  qed
  have "of_char c div 16 < (16 :: nat)" using of_char_bound [of c] by (simp add: less_mult_imp_div_less)
  with nz [of "of_char c div 16"] nz [of "of_char c mod 16"] Cons show ?case
    by (simp del: char.inject)
qed simp

lemma c_str_hex_string [simp]: "c_str (hex_string bs) = hex_string bs"
  by (rule c_str_id [OF hex_string_no_nul])

section \<open>The table invariant\<close>

definition db_wf :: "user_db \<Rightarrow> bool" where
  "db_wf db =
     (distinct (map usr_username (db_users db)) \<and> distinct (map usr_email (db_users db)) \<and>
      sorted_wrt (<) (map usr_id (db_users db)) \<and> (\<forall>r \<in> set (db_users db). usr_id r \<le> db_sequence db))"

lemma db_wf_insert: "db_wf db \<Longrightarrow> db_wf (snd (sql_insert_user env u e p s role db))"
  by (auto simp: db_wf_def sql_insert_user_def sorted_wrt_append le_imp_less_Suc)

definition approve_row :: "string \<Rightarrow> user_row \<Rightarrow> user_row" where
  "approve_row username r = (if pending_user username r then r\<lparr>usr_role := ''user''\<rparr> else r)"

lemma approve_row_fields [simp]:
  "usr_username (approve_row u r) = usr_username r" "usr_email (approve_row u r) = usr_email r"
  "usr_id (approve_row u r) = usr_id r"
  by (simp_all add: approve_row_def)

lemma sql_approve_rows: "db_users (snd (sql_approve u db)) = map (approve_row u) (db_users db)"
  "db_sequence (snd (sql_approve u db)) = db_sequence db"
  by (simp_all add: sql_approve_def approve_row_def [abs_def])

lemma db_wf_approve: "db_wf db \<Longrightarrow> db_wf (snd (sql_approve u db))"
  by (simp add: db_wf_def sql_approve_rows comp_def)

lemma db_find_unique:
  assumes "db_wf db" "r \<in> set (db_users db)"
  shows "find (\<lambda>x. usr_username x = usr_username r) (db_users db) = Some r"
proof -
  have "inj_on usr_username (set (db_users db))" using assms(1) by (simp add: db_wf_def distinct_map)
  moreover obtain x where x: "find (\<lambda>x. usr_username x = usr_username r) (db_users db) = Some x"
    using assms(2) by (cases "find (\<lambda>x. usr_username x = usr_username r) (db_users db)") (auto simp: find_None_iff)
  moreover from x have "x \<in> set (db_users db)" "usr_username x = usr_username r"
    by (auto simp: find_Some_iff)
  ultimately show ?thesis using assms(2) by (auto dest: inj_onD)
qed

lemma find_snoc: "find P xs = None \<Longrightarrow> find P (xs @ [x]) = (if P x then Some x else None)"
  by (induction xs) (auto split: if_splits)

lemma register_db:
  "snd (registerUser sha256 env urandom u e p db) = db \<or>
   snd (registerUser sha256 env urandom u e p db) =
     snd (sql_insert_user env (c_str u) (c_str e) (hashPassword sha256 p (generateSalt urandom))
       (generateSalt urandom) ''pending'' db)"
  by (auto simp: registerUser_def Let_def hashPassword_def generateSalt_def split: prod.split insert_result.split)

lemma approve_db: "snd (approveUser env u db) = db \<or> snd (approveUser env u db) = snd (sql_approve (c_str u) db)"
  by (auto simp: approveUser_def split: prod.split)

lemma seed_db_wf: "db_wf db \<Longrightarrow> db_wf (seedTestData sha256 env urandom db)"
proof -
  have "db_wf d \<Longrightarrow> db_wf (fold (\<lambda>(i, u). insert_seed sha256 env (urandom i) u) us d)" for us d
  proof (induction us arbitrary: d)
    case (Cons x us)
    then show ?case by (auto simp: insert_seed_def Let_def db_wf_insert split: prod.split)
  qed simp
  then show "db_wf db \<Longrightarrow> db_wf (seedTestData sha256 env urandom db)" by (auto simp: seedTestData_def)
qed

text \<open>What the requests of clients do to the table.\<close>

inductive auth_step :: "(bytes \<Rightarrow> bytes) \<Rightarrow> user_db \<Rightarrow> user_db \<Rightarrow> bool" for sha256 :: "bytes \<Rightarrow> bytes" where
  register: "auth_step sha256 db (snd (registerUser sha256 env urandom username email password db))"
| approve: "auth_step sha256 db (snd (approveUser env username db))"

inductive auth_reachable :: "(bytes \<Rightarrow> bytes) \<Rightarrow> user_db \<Rightarrow> user_db \<Rightarrow> bool" for sha256 :: "bytes \<Rightarrow> bytes" where
  refl: "auth_reachable sha256 db db"
| step: "auth_reachable sha256 db0 db \<Longrightarrow> auth_step sha256 db db' \<Longrightarrow> auth_reachable sha256 db0 db'"

lemma auth_step_wf: "auth_step sha256 db db' \<Longrightarrow> db_wf db \<Longrightarrow> db_wf db'"
  by (induction rule: auth_step.induct) (metis register_db db_wf_insert, metis approve_db db_wf_approve)

lemma auth_reachable_wf: "auth_reachable sha256 db0 db \<Longrightarrow> db_wf db0 \<Longrightarrow> db_wf db"
  by (induction rule: auth_reachable.induct) (blast intro: auth_step_wf)+

text \<open>The accounts with a given role, and rows that stay under any request.\<close>

definition accounts_with :: "string \<Rightarrow> user_db \<Rightarrow> string list" where
  "accounts_with role db = map usr_username (filter (\<lambda>r. usr_role r = role) (db_users db))"

lemma accounts_insert:
  "role \<noteq> ''pending'' \<Longrightarrow>
   accounts_with role (snd (sql_insert_user env u e p s ''pending'' db)) = accounts_with role db"
  by (auto simp: accounts_with_def sql_insert_user_def)

lemma accounts_approve:
  "role \<noteq> ''pending'' \<Longrightarrow> role \<noteq> ''user'' \<Longrightarrow> accounts_with role (snd (sql_approve u db)) = accounts_with role db"
proof -
  assume r: "role \<noteq> ''pending''" "role \<noteq> ''user''"
  have "usr_role (approve_row u x) = role \<longleftrightarrow> usr_role x = role" for x
    using r by (auto simp: approve_row_def pending_user_def)
  then show ?thesis by (simp add: accounts_with_def sql_approve_rows filter_map comp_def)
qed

lemma accounts_with_iff: "name \<in> set (accounts_with role db) \<longleftrightarrow>
    (\<exists>r \<in> set (db_users db). usr_username r = name \<and> usr_role r = role)"
  by (auto simp: accounts_with_def)

text \<open>An account that is not pending keeps its role.\<close>

lemma accounts_stay:
  assumes "auth_reachable sha256 db0 db" "role \<noteq> ''pending''"
  shows "set (accounts_with role db0) \<subseteq> set (accounts_with role db)"
  using assms(1)
proof (induction rule: auth_reachable.induct)
  case (step db0 db db')
  from step(2) have "set (accounts_with role db) \<subseteq> set (accounts_with role db')"
  proof (cases rule: auth_step.cases)
    case (register env urandom username email password)
    then show ?thesis
      using register_db [of sha256 env urandom username email password db]
      by (auto simp: accounts_with_iff sql_insert_user_def)
  next
    case (approve env username)
    have "approve_row u r = r" if "usr_role r = role" for u r
      using that assms(2) by (simp add: approve_row_def pending_user_def)
    with approve approve_db [of env username db] show ?thesis
      by (auto simp: accounts_with_iff sql_approve_rows) metis
  qed
  with step show ?case by blast
qed simp

lemma admins_stay:
  assumes "auth_reachable sha256 db0 db" "role \<noteq> ''pending''" "role \<noteq> ''user''"
  shows "accounts_with role db = accounts_with role db0"
  using assms(1)
proof (induction rule: auth_reachable.induct)
  case (step db0 db db')
  from step(2) have "accounts_with role db' = accounts_with role db"
  proof (cases rule: auth_step.cases)
    case (register env urandom username email password)
    with register_db [of sha256 env urandom username email password db] show ?thesis
      by (auto simp: accounts_insert [OF assms(2)])
  next
    case (approve env username)
    with approve_db [of env username db] show ?thesis by (auto simp: accounts_approve [OF assms(2,3)])
  qed
  with step show ?case by simp
qed simp

section \<open>Outcomes of a login, a registration and an approval\<close>

lemma login_outcome:
  obtains (refused) msg where "loginUser sha256 env username password db = failure msg"
      "msg \<in> {msg_enter_id_pw, msg_db_error, msg_no_such_id, msg_wrong_password, msg_pending}"
  | (accepted) r where "r \<in> set (db_users db)" "usr_username r = c_str username" "usr_role r \<noteq> ''pending''"
      "usr_password r = hashPassword sha256 password (usr_salt r)"
      "username \<noteq> []" "password \<noteq> []" "sql_prepare_ok env" "sql_step_ok env"
      "loginUser sha256 env username password db = login_reply (usr_role r) username"
proof (cases "username = [] \<or> password = [] \<or> \<not> sql_prepare_ok env \<or> sql_select_user env (c_str username) db = None")
  case True
  then have "\<exists>msg \<in> {msg_enter_id_pw, msg_db_error, msg_no_such_id}.
      loginUser sha256 env username password db = failure msg"
    by (auto simp: loginUser_def)
  with refused show thesis by blast
next
  case False
  then obtain r where r: "sql_select_user env (c_str username) db = Some r" by blast
  then have "r \<in> set (db_users db)" "usr_username r = c_str username" "sql_step_ok env"
    by (auto simp: sql_select_user_def find_Some_iff split: if_splits)
  with False r refused [of msg_wrong_password] refused [of msg_pending] accepted [of r] show thesis
    by (cases "hashPassword sha256 password (usr_salt r) = usr_password r"; cases "usr_role r = ''pending''")
      (simp_all add: loginUser_def login_reply_def)
qed

lemma login_row:
  assumes "db_wf db" "r \<in> set (db_users db)" "usr_username r = c_str username"
    and "username \<noteq> []" "password \<noteq> []" "sql_prepare_ok env" "sql_step_ok env"
  shows "loginUser sha256 env username password db =
    (if hashPassword sha256 password (usr_salt r) \<noteq> usr_password r then failure msg_wrong_password
     else if usr_role r = ''pending'' then failure msg_pending else login_reply (usr_role r) username)"
  using assms db_find_unique [OF assms(1,2)]
  by (simp add: loginUser_def sql_select_user_def login_reply_def)

lemma login_success_reply:
  assumes "db_wf db" "r \<in> set (db_users db)" "usr_username r = c_str username"
    and "value_bool (loginUser sha256 env username password db) ''success'' False = Inr True"
  shows "loginUser sha256 env username password db = login_reply (usr_role r) username"
  using login_outcome [of sha256 env username password db]
proof cases
  case (refused msg)
  with assms(4) show ?thesis by (simp add: json_simps)
next
  case (accepted r')
  with assms(2,3) have "r' = r"
    using db_find_unique [OF assms(1), of r] db_find_unique [OF assms(1), of r'] by simp
  with accepted show ?thesis by simp
qed

text \<open>The row of a registration under a free name and address.\<close>

definition new_row :: "(bytes \<Rightarrow> bytes) \<Rightarrow> sql_env \<Rightarrow> bytes option \<Rightarrow> string \<Rightarrow> string \<Rightarrow> string \<Rightarrow> user_db \<Rightarrow> user_row" where
  "new_row sha256 env urandom username email password db =
     \<lparr>usr_id = Suc (db_sequence db), usr_username = c_str username, usr_email = c_str email,
      usr_password = hashPassword sha256 password (generateSalt urandom), usr_salt = generateSalt urandom,
      usr_role = ''pending'', usr_created = sql_now env\<rparr>"

definition name_free :: "string \<Rightarrow> string \<Rightarrow> user_db \<Rightarrow> bool" where
  "name_free username email db =
     (\<forall>r \<in> set (db_users db). usr_username r \<noteq> c_str username \<and> usr_email r \<noteq> c_str email)"

lemma register_free:
  assumes "name_free username email db" "username \<noteq> []" "email \<noteq> []" "password \<noteq> []"
    and "sql_prepare_ok env" "sql_step_ok env"
  shows "registerUser sha256 env urandom username email password db =
    (success_message msg_registered,
     \<lparr>db_users = db_users db @ [new_row sha256 env urandom username email password db],
      db_sequence = Suc (db_sequence db)\<rparr>)"
proof -
  have "c_str (hashPassword sha256 password (generateSalt urandom)) = hashPassword sha256 password (generateSalt urandom)"
    "c_str (generateSalt urandom) = generateSalt urandom"
    by (simp_all add: hashPassword_def generateSalt_def)
  with assms show ?thesis
    by (auto simp: registerUser_def sql_insert_user_def Let_def new_row_def name_free_def)
qed

text \<open>An approval of the newest row, and a login to it.\<close>

lemma approve_newest:
  assumes "name_free username email db" "sql_prepare_ok env" "sql_step_ok env"
    and "pending_user (c_str username) r"
  shows "approveUser env username \<lparr>db_users = db_users db @ [r], db_sequence = n\<rparr> =
    (success_message (username @ msg_approved_suffix),
     \<lparr>db_users = db_users db @ [r\<lparr>usr_role := ''user''\<rparr>], db_sequence = n\<rparr>)"
proof -
  have "filter (pending_user (c_str username)) (db_users db) = []"
    using assms(1) by (auto simp: name_free_def pending_user_def filter_empty_conv)
  moreover have "map (\<lambda>r. if pending_user (c_str username) r then r\<lparr>usr_role := ''user''\<rparr> else r) (db_users db) = db_users db"
    using assms(1) by (intro map_idI) (auto simp: name_free_def pending_user_def)
  ultimately show ?thesis using assms(2-4) by (simp add: approveUser_def sql_approve_def)
qed

lemma login_newest:
  assumes "name_free username email db" "username \<noteq> []" "password \<noteq> []" "sql_prepare_ok env" "sql_step_ok env"
    and "usr_username r = c_str username"
  shows "loginUser sha256 env username password \<lparr>db_users = db_users db @ [r], db_sequence = n\<rparr> =
    (if hashPassword sha256 password (usr_salt r) \<noteq> usr_password r then failure msg_wrong_password
     else if usr_role r = ''pending'' then failure msg_pending else login_reply (usr_role r) username)"
proof -
  have "find (\<lambda>x. usr_username x = c_str username) (db_users db) = None"
    using assms(1) by (simp add: name_free_def find_None_iff)
  from find_snoc [OF this, of r] assms(2-6) show ?thesis
    by (simp add: loginUser_def sql_select_user_def login_reply_def)
qed

lemma new_row_pending: "pending_user (c_str username) (new_row sha256 env urandom username email password db)"
  by (simp add: pending_user_def new_row_def)

section \<open>Properties\<close>

text \<open>
  C7: user names and mail addresses stay unique and row ids ascending: in the seeded table and
  under every sequence of registrations and approvals, with any inputs and any SQLite failures.
\<close>

theorem accounts_unique:
  assumes "auth_reachable sha256 (seedTestData sha256 env urandom empty_db) db"
  shows "db_wf db"
  by (rule auth_reachable_wf [OF assms seed_db_wf]) (simp add: db_wf_def empty_db_def)

definition sample_sha :: "bytes \<Rightarrow> bytes" where
  "sample_sha bs = rev bs"

definition sample_sql :: sql_env where
  "sample_sql = \<lparr>sql_prepare_ok = True, sql_step_ok = True, sql_now = ''2025-01-01 00:00:00''\<rparr>"

definition sample_db :: user_db where
  "sample_db = seedTestData sample_sha sample_sql (\<lambda>_. None) empty_db"

lemma accounts_unique_witness:
  "db_wf (snd (registerUser sample_sha sample_sql None ''kim'' ''kim@x.kr'' ''pw'' sample_db))"
  by (rule accounts_unique [of sample_sha sample_sql "\<lambda>_. None"])
    (unfold sample_db_def, rule auth_reachable.step [OF auth_reachable.refl auth_step.register])

text \<open>
  C5: a login succeeds exactly for a stored account whose hash matches and which is not pending, and
  then the reply carries the stored role; every other outcome is a reply with \<open>success\<close> false.
\<close>

theorem login_succeeds_iff:
  assumes "db_wf db"
  shows "(value_bool (loginUser sha256 env username password db) ''success'' False = Inr True \<longleftrightarrow>
      username \<noteq> [] \<and> password \<noteq> [] \<and> sql_prepare_ok env \<and> sql_step_ok env \<and>
      (\<exists>r \<in> set (db_users db). usr_username r = c_str username \<and> usr_role r \<noteq> ''pending'' \<and>
        usr_password r = hashPassword sha256 password (usr_salt r))) \<and>
    (\<forall>r \<in> set (db_users db). usr_username r = c_str username \<longrightarrow>
      value_bool (loginUser sha256 env username password db) ''success'' False = Inr True \<longrightarrow>
      loginUser sha256 env username password db = login_reply (usr_role r) username)"
proof (intro conjI ballI impI iffI)
  assume ok: "value_bool (loginUser sha256 env username password db) ''success'' False = Inr True"
  then show "username \<noteq> []" "password \<noteq> []" "sql_prepare_ok env" "sql_step_ok env"
      "\<exists>r \<in> set (db_users db). usr_username r = c_str username \<and> usr_role r \<noteq> ''pending'' \<and>
        usr_password r = hashPassword sha256 password (usr_salt r)"
    by (cases rule: login_outcome [of sha256 env username password db]; auto simp: json_simps)+
  fix r assume "r \<in> set (db_users db)" "usr_username r = c_str username"
  from login_success_reply [OF assms this ok]
  show "loginUser sha256 env username password db = login_reply (usr_role r) username" .
next
  assume "username \<noteq> [] \<and> password \<noteq> [] \<and> sql_prepare_ok env \<and> sql_step_ok env \<and>
      (\<exists>r \<in> set (db_users db). usr_username r = c_str username \<and> usr_role r \<noteq> ''pending'' \<and>
        usr_password r = hashPassword sha256 password (usr_salt r))"
  then show "value_bool (loginUser sha256 env username password db) ''success'' False = Inr True"
    using login_row [OF assms] by (auto simp: json_simps)
qed

lemma login_succeeds_iff_witness:
  "value_bool (loginUser sample_sha sample_sql ''kim'' ''pw'' empty_db) ''success'' False \<noteq> Inr True"
  using login_succeeds_iff [of empty_db sample_sha sample_sql "''kim''" "''pw''"]
  by (simp add: empty_db_def db_wf_def)

text \<open>
  C6: no request creates or removes an administrator, or any other account outside \<open>pending\<close> and
  \<open>user\<close>: the accounts with such a role are the same after any sequence of registrations and
  approvals.
\<close>

theorem no_request_makes_an_admin:
  assumes "auth_reachable sha256 db0 db" "role \<noteq> ''pending''" "role \<noteq> ''user''"
  shows "accounts_with role db = accounts_with role db0"
  by (rule admins_stay [OF assms])

lemma no_request_makes_an_admin_witness:
  "accounts_with ''admin'' (snd (registerUser sample_sha sample_sql None ''kim'' ''kim@x.kr'' ''pw'' sample_db)) =
   accounts_with ''admin'' sample_db"
  by (rule no_request_makes_an_admin [OF auth_reachable.step [OF auth_reachable.refl auth_step.register]])
    simp_all

text \<open>
  An account lives as documented: after a registration under a free name and address the login
  is refused as pending, an approval makes it succeed with the role \<open>user\<close>, and a wrong password
  (one with another hash) is refused both before and after.
\<close>

lemma account_lifecycle:
  assumes "username \<noteq> []" "email \<noteq> []" "password \<noteq> []" "db_wf db"
    and "sql_prepare_ok env" "sql_step_ok env"
    and "\<forall>r \<in> set (db_users db). usr_username r \<noteq> c_str username \<and> usr_email r \<noteq> c_str email"
    and "registerUser sha256 env urandom username email password db = (reply, db1)"
    and "approveUser env username db1 = (reply2, db2)"
  shows "reply = success_message msg_registered \<and>
    loginUser sha256 env username password db1 = failure msg_pending \<and>
    reply2 = success_message (username @ msg_approved_suffix) \<and>
    loginUser sha256 env username password db2 = login_reply ''user'' username \<and>
    (\<forall>p. p \<noteq> [] \<longrightarrow> sha256 (p @ generateSalt urandom) \<noteq> sha256 (password @ generateSalt urandom) \<longrightarrow>
      loginUser sha256 env username p db1 = failure msg_wrong_password \<and>
      loginUser sha256 env username p db2 = failure msg_wrong_password)"
proof -
  let ?r = "new_row sha256 env urandom username email password db"
  have free: "name_free username email db" using assms(7) by (simp add: name_free_def)
  note reg = register_free [OF free assms(1-3,5,6), of sha256 urandom]
  note app = approve_newest [OF free assms(5,6) new_row_pending [of username sha256 env urandom email password db]]
  have 1: "reply = success_message msg_registered"
      "db1 = \<lparr>db_users = db_users db @ [?r], db_sequence = Suc (db_sequence db)\<rparr>"
    using assms(8) reg by simp_all
  have 2: "reply2 = success_message (username @ msg_approved_suffix)"
      "db2 = \<lparr>db_users = db_users db @ [?r\<lparr>usr_role := ''user''\<rparr>], db_sequence = Suc (db_sequence db)\<rparr>"
    using assms(9) app [of "Suc (db_sequence db)"] 1(2) by simp_all
  show ?thesis
    using assms(1,3) login_newest [OF free assms(1) _ assms(5,6), of _ ?r sha256 "Suc (db_sequence db)"]
      login_newest [OF free assms(1) _ assms(5,6), of _ "?r\<lparr>usr_role := ''user''\<rparr>" sha256 "Suc (db_sequence db)"]
    by (auto simp: 1 2 new_row_def hashPassword_def dest: hex_string_inj)
qed

lemma account_lifecycle_witness:
  "\<exists>db1 db2. loginUser sample_sha sample_sql ''kim'' ''pw'' db1 = failure msg_pending \<and>
    loginUser sample_sha sample_sql ''kim'' ''pw'' db2 = login_reply ''user'' ''kim''"
proof -
  obtain a db1 where 1: "registerUser sample_sha sample_sql None ''kim'' ''kim@x.kr'' ''pw'' empty_db = (a, db1)" by force
  obtain b db2 where 2: "approveUser sample_sql ''kim'' db1 = (b, db2)" by force
  from account_lifecycle [OF _ _ _ _ _ _ _ 1 2] show ?thesis
    by (auto simp: sample_sql_def empty_db_def db_wf_def)
qed

text \<open>
  The check for empty fields looks at the string, the database at its text up to the first NUL:
  a name that starts with NUL passes the check and is stored as the empty name.
\<close>

lemma nul_name_registers_empty:
  assumes "sql_prepare_ok env" "sql_step_ok env" "email \<noteq> []" "password \<noteq> []"
    and "\<forall>r \<in> set (db_users db). usr_username r \<noteq> [] \<and> usr_email r \<noteq> c_str email"
  shows "fst (registerUser sha256 env urandom (CHR 0x00 # name) email password db) = success_message msg_registered \<and>
    fst (registerUser sha256 env urandom [] email password db) = failure msg_all_fields \<and>
    (\<exists>r \<in> set (db_users (snd (registerUser sha256 env urandom (CHR 0x00 # name) email password db))).
      usr_username r = [])"
  using assms by (auto simp: registerUser_def sql_insert_user_def Let_def)

lemma nul_name_registers_empty_witness:
  "fst (registerUser sample_sha sample_sql None (CHR 0x00 # ''x'') ''kim@x.kr'' ''pw'' empty_db) = success_message msg_registered"
  using nul_name_registers_empty [of sample_sql "''kim@x.kr''" "''pw''" empty_db sample_sha None "''x''"]
  by (simp add: sample_sql_def empty_db_def)

end
