(* ===== verification/SystemMonitor.thy ===== *)
theory SystemMonitor
  imports Json
begin

text \<open>
  \<open>ClientServer/src/SystemMonitor.cpp\<close>. What the kernel reports through \<open>/proc/stat\<close>, \<open>sysinfo\<close> and
  the thermal zone is an argument; the previous CPU counters are the state. \<open>long\<close> is 64 bits; the
  counters of \<open>/proc/stat\<close> and their sums are taken to fit, as C++ requires of signed arithmetic.
\<close>

section \<open>Readings\<close>

record cpu_times =
  cpu_user :: int
  cpu_nice :: int
  cpu_system :: int
  cpu_idle :: int
  cpu_iowait :: int
  cpu_irq :: int
  cpu_softirq :: int
  cpu_steal :: int

record sysinfo =
  si_totalram :: uint64
  si_freeram :: uint64
  si_mem_unit :: uint64
  si_uptime :: uint64

text \<open>\<open>None\<close> when the file cannot be opened or the call fails.\<close>

record readings =
  rd_stat :: "cpu_times option"
  rd_sysinfo :: "sysinfo option"
  rd_thermal :: "double option"

section \<open>The monitor\<close>

record system_monitor =
  prev_idle :: int
  prev_total :: int

definition dbl_100 :: double where
  "dbl_100 = dbl_of_int 100"

definition getTemperature :: "readings \<Rightarrow> double" where
  "getTemperature rd =
     dbl_div (case rd_thermal rd of Some temp \<Rightarrow> temp | None \<Rightarrow> 0) (dbl_of_int 1000)"

definition getMemoryUsagePercent :: "readings \<Rightarrow> double" where
  "getMemoryUsagePercent rd =
     (case rd_sysinfo rd of
        None \<Rightarrow> 0
      | Some info \<Rightarrow>
        (let total = si_totalram info * si_mem_unit info;
             free_mem = si_freeram info * si_mem_unit info;
             used = total - free_mem
         in if total = 0 then 0
            else dbl_mul (dbl_div (dbl_of_int (sint used)) (dbl_of_int (sint total))) dbl_100))"

definition cur_idle :: "cpu_times \<Rightarrow> int" where
  "cur_idle t = cpu_idle t + cpu_iowait t"

definition cur_total :: "cpu_times \<Rightarrow> int" where
  "cur_total t =
     cpu_user t + cpu_nice t + cpu_system t + cpu_idle t + cpu_iowait t + cpu_irq t +
     cpu_softirq t + cpu_steal t"

definition getCpuUsagePercent :: "readings \<Rightarrow> system_monitor \<Rightarrow> double \<times> system_monitor" where
  "getCpuUsagePercent rd m =
     (case rd_stat rd of
        None \<Rightarrow> (0, m)
      | Some t \<Rightarrow>
        (let diff_idle = cur_idle t - prev_idle m;
             diff_total = cur_total t - prev_total m;
             m' = \<lparr>prev_idle = cur_idle t, prev_total = cur_total t\<rparr>
         in (if diff_total = 0 then 0
             else dbl_mul (dbl_sub (dbl_of_int 1) (dbl_div (dbl_of_int diff_idle) (dbl_of_int diff_total)))
                    dbl_100,
             m')))"

definition getUptimeSeconds :: "readings \<Rightarrow> uint64" where
  "getUptimeSeconds rd = (case rd_sysinfo rd of None \<Rightarrow> 0 | Some info \<Rightarrow> si_uptime info)"

text \<open>The constructor takes a first measurement.\<close>

definition monitor_init :: "readings \<Rightarrow> system_monitor" where
  "monitor_init rd = snd (getCpuUsagePercent rd \<lparr>prev_idle = 0, prev_total = 0\<rparr>)"

text \<open>\<open>getStatus\<close>: \<open>operator[]\<close> on a fresh value, four times; it does not throw.\<close>

definition getStatus :: "readings \<Rightarrow> system_monitor \<Rightarrow> (exn + json) \<times> system_monitor" where
  "getStatus rd m =
     (case getCpuUsagePercent rd m of
        (cpu, m') \<Rightarrow>
          (rbind (json_set JNull ''cpu'' (JFloat cpu)) (\<lambda>s.
           rbind (json_set s ''memory'' (JFloat (getMemoryUsagePercent rd))) (\<lambda>s.
           rbind (json_set s ''temp'' (JFloat (getTemperature rd))) (\<lambda>s.
           json_set s ''uptime'' (JInt (getUptimeSeconds rd))))), m'))"

end
