(* ===== verification/ClientController.thy ===== *)
theory ClientController
  imports QtServing AuthManager SystemMonitor InternalClient
begin

text \<open>
  \<open>ClientServer/src/ClientController.cpp\<close>: the ClientServer as a whole. The state is that of its
  members; the callbacks are the functions they are bound to. \<open>cc_env\<close> collects what the members
  take from outside.
\<close>

record 's client_controller =
  cc_running :: bool
  cc_qt :: "'s qt_server"
  cc_auth :: user_db
  cc_internal :: internal_client
  cc_monitor :: system_monitor

record 's cc_env =
  env_ops :: "'s ssl_ops"
  env_sha256 :: "bytes \<Rightarrow> bytes"
  env_sql :: sql_env
  env_urandom :: "bytes option"

definition set_qt :: "'s qt_server \<Rightarrow> 's client_controller \<Rightarrow> 's client_controller" where
  "set_qt q cc = cc\<lparr>cc_qt := q\<rparr>"

text \<open>\<open>qt_server_.sendMessage\<close>, its result unused.\<close>

definition cc_send ::
    "'s cc_env \<Rightarrow> fd \<Rightarrow> message_type \<Rightarrow> json \<Rightarrow> 's client_controller \<Rightarrow> exn + 's client_controller" where
  "cc_send env fd t body cc =
     rbind (qt_sendMessage (env_ops env) fd t body (cc_qt cc)) (\<lambda>(r, q). Inr (set_qt q cc))"

section \<open>Messages of the Qt clients\<close>

definition on_login ::
    "'s cc_env \<Rightarrow> fd \<Rightarrow> json \<Rightarrow> 's client_controller \<Rightarrow> exn + 's client_controller" where
  "on_login env fd body cc =
     rbind (value_string body ''id'' []) (\<lambda>username.
     rbind (value_string body ''pw'' []) (\<lambda>password.
       let result = loginUser (env_sha256 env) (env_sql env) username password (cc_auth cc) in
       rbind (value_bool result ''success'' False) (\<lambda>success.
         if success then
           rbind (value_string result ''state'' ''user'') (\<lambda>state.
           rbind (cc_send env fd SUCCESS result (set_qt (setClientRole fd state (cc_qt cc)) cc)) (\<lambda>cc1.
             cc_send env fd CAMERA (getCameraList (cc_internal cc1)) cc1))
         else cc_send env fd FAIL result cc)))"

text \<open>The reply type of \<open>registerUser\<close> and \<open>approveUser\<close>.\<close>

definition reply_result ::
    "'s cc_env \<Rightarrow> fd \<Rightarrow> json \<Rightarrow> 's client_controller \<Rightarrow> exn + 's client_controller" where
  "reply_result env fd result cc =
     rbind (value_bool result ''success'' False) (\<lambda>success.
       cc_send env fd (if success then SUCCESS else FAIL) result cc)"

definition on_assign ::
    "'s cc_env \<Rightarrow> fd \<Rightarrow> json \<Rightarrow> 's client_controller \<Rightarrow> exn + 's client_controller" where
  "on_assign env fd body cc =
     rbind (value_string body ''action'' []) (\<lambda>action.
       if action = ''register'' then
         rbind (value_string body ''id'' []) (\<lambda>username.
         rbind (value_string body ''email'' []) (\<lambda>email.
         rbind (value_string body ''pw'' []) (\<lambda>password.
           case registerUser (env_sha256 env) (env_sql env) (env_urandom env) username email password (cc_auth cc) of
             (result, db) \<Rightarrow> reply_result env fd result (cc\<lparr>cc_auth := db\<rparr>))))
       else if action = ''list_pending'' then
         cc_send env fd ASSIGN (listPendingUsers (env_sql env) (cc_auth cc)) cc
       else if action = ''approve'' then
         rbind (value_string body ''target_id'' []) (\<lambda>target.
           case approveUser (env_sql env) target (cc_auth cc) of
             (result, db) \<Rightarrow> reply_result env fd result (cc\<lparr>cc_auth := db\<rparr>))
       else cc_send env fd FAIL (error_body ''Unknown action'') cc)"

definition onQtMessage ::
    "'s cc_env \<Rightarrow> fd \<Rightarrow> message_type \<Rightarrow> json \<Rightarrow> 's client_controller \<Rightarrow> exn + 's client_controller" where
  "onQtMessage env fd t body cc =
     (case t of
        LOGIN \<Rightarrow> on_login env fd body cc
      | ASSIGN \<Rightarrow> on_assign env fd body cc
      | DEVICE \<Rightarrow>
          rbind (sendDeviceCommand body (cc_internal cc)) (\<lambda>ic. Inr (cc\<lparr>cc_internal := ic\<rparr>))
      | CAMERA \<Rightarrow> cc_send env fd CAMERA (getCameraList (cc_internal cc)) cc
      | AI \<Rightarrow>
          rbind (json_dump body) (\<lambda>log.
          rbind (qt_broadcast (env_ops env) AI body (cc_qt cc)) (\<lambda>q. Inr (set_qt q cc)))
      | _ \<Rightarrow> cc_send env fd ACK (json_object [(''message'', JString ''received'')]) cc)"

text \<open>
  One round of the handler thread of a client: it stops, goes on, terminates the process by an
  exception nothing catches, or never returns.
\<close>

datatype 's handled =
    Stops "'s client_controller" | GoesOn "'s client_controller" | Terminates exn | Stuck

definition client_round :: "'s cc_env \<Rightarrow> fd \<Rightarrow> 's client_controller \<Rightarrow> 's handled" where
  "client_round env fd cc =
     (case handler_round (env_ops env) fd (cc_qt cc) of
        (Break, q) \<Rightarrow> Stops (set_qt q cc)
      | (Next, q) \<Rightarrow> GoesOn (set_qt q cc)
      | (Dispatch t body, q) \<Rightarrow>
          (case onQtMessage env fd t body (set_qt q cc) of
             Inl e \<Rightarrow> Terminates e
           | Inr cc' \<Rightarrow> GoesOn cc')
      | (Throws e, q) \<Rightarrow> Terminates e
      | (Hangs, q) \<Rightarrow> Stuck)"

section \<open>Events of the DeviceServer\<close>

definition on_push_event ::
    "'s cc_env \<Rightarrow> push_event \<Rightarrow> 's client_controller \<Rightarrow> exn + 's client_controller" where
  "on_push_event env ev cc =
     rbind (case ev of
              AiEvent event \<Rightarrow> qt_broadcast (env_ops env) AI event (cc_qt cc)
            | ImageEvent meta jpeg \<Rightarrow> broadcastImage (env_ops env) meta jpeg (cc_qt cc)
            | MetaEvent sensor_data \<Rightarrow> qt_broadcast (env_ops env) META sensor_data (cc_qt cc))
       (\<lambda>q. Inr (set_qt q cc))"

section \<open>The main loop\<close>

text \<open>One turn, every 5 seconds.\<close>

definition main_round ::
    "'s cc_env \<Rightarrow> readings \<Rightarrow> 's client_controller \<Rightarrow> exn + 's client_controller" where
  "main_round env rd cc =
     rbind (broadcastToRole (env_ops env) CAMERA (getCameraList (cc_internal cc)) ''user'' (cc_qt cc)) (\<lambda>q1.
       let device_status = getDeviceStatus (cc_internal cc) in
       rbind (json_set JNull ''devices'' device_status) (\<lambda>user_avail.
       case getStatus rd (cc_monitor cc) of
         (status, mon) \<Rightarrow>
           rbind status (\<lambda>server.
           rbind (json_set JNull ''server'' server) (\<lambda>a.
           rbind (json_set a ''devices'' device_status) (\<lambda>admin_avail.
           rbind (broadcastByRole (env_ops env) AVAILABLE user_avail admin_avail q1) (\<lambda>q2.
             Inr (cc\<lparr>cc_qt := q2, cc_monitor := mon\<rparr>)))))))"

definition cc_stop :: "'s client_controller \<Rightarrow> 's client_controller" where
  "cc_stop cc =
     (if \<not> cc_running cc then cc
      else cc\<lparr>cc_running := False, cc_internal := ic_stop (cc_internal cc), cc_qt := qt_stop (cc_qt cc)\<rparr>)"

text \<open>
  The start of \<open>run\<close>: whether it goes on to the main loop. \<open>db\<close> is what the file holds.
\<close>

definition cc_start ::
    "'s cc_env \<Rightarrow> ctx_env \<Rightarrow> (nat \<Rightarrow> bytes option) \<Rightarrow> bool \<Rightarrow> bool \<Rightarrow> fd \<Rightarrow> bool \<Rightarrow> bool \<Rightarrow>
     's client_controller \<Rightarrow> bool \<times> 's client_controller" where
  "cc_start env cenv urandom opened created server_fd bound listening cc =
     (let cc0 = cc\<lparr>cc_running := True\<rparr> in
      case auth_init (env_sha256 env) (env_sql env) urandom opened created (cc_auth cc0) of
        (False, db) \<Rightarrow> (False, cc0\<lparr>cc_auth := db\<rparr>)
      | (True, db) \<Rightarrow>
          (let q1 = snd (initTLS cenv ''Server/server.crt'' ''Server/server.key'' ''Server/ca.crt'' (cc_qt cc0));
               q2 = qt_start server_fd bound listening q1
           in (True, cc0\<lparr>cc_auth := db, cc_internal := ic_start (cc_internal cc0), cc_qt := q2\<rparr>)))"

end
