(* ===== verification/Roles.thy ===== *)
theory Roles
  imports ClientController
begin

text \<open>
  The ClientServer as a whole: the steps of its threads, each taken at once, are the relation
  \<open>served\<close>. What the operations keep, and where the roles of the connections come from.
\<close>

section \<open>The steps\<close>

text \<open>
  A request of a client, the end of its handler, a new client, a packet of the DeviceServer, an
  event pushed on, and a turn of the main loop. SHA-256 and OpenSSL are the same throughout;
  what SQLite and \<open>/dev/urandom\<close> return is up to each step, time stamps being UTF-8.
\<close>

definition env_fits :: "(bytes \<Rightarrow> bytes) \<Rightarrow> 's ssl_ops \<Rightarrow> 's cc_env \<Rightarrow> bool" where
  "env_fits sha ops env = (env_sha256 env = sha \<and> env_ops env = ops \<and> utf8_ok (sql_now (env_sql env)))"

inductive served :: "(bytes \<Rightarrow> bytes) \<Rightarrow> 's ssl_ops \<Rightarrow> 's client_controller \<Rightarrow> 's client_controller \<Rightarrow> bool"
  for sha :: "bytes \<Rightarrow> bytes" and ops :: "'s ssl_ops" where
  request: "env_fits sha ops env \<Longrightarrow> client_round env fd cc = GoesOn cc' \<Longrightarrow> served sha ops cc cc'"
| leaves: "env_fits sha ops env \<Longrightarrow> client_round env fd cc = Stops cc' \<Longrightarrow>
    served sha ops cc (set_qt (qt_handler_end fd (cc_qt cc')) cc')"
| joins: "accept_client fd (cc_qt cc) = Some q \<Longrightarrow> served sha ops cc (set_qt (snd (qt_handler_start ops fd q)) cc)"
| incoming: "handleIncoming ret fd (cc_internal cc) = Inr (b, ev, ic) \<Longrightarrow> served sha ops cc (cc\<lparr>cc_internal := ic\<rparr>)"
| pushed: "env_fits sha ops env \<Longrightarrow> on_push_event env ev cc = Inr cc' \<Longrightarrow> served sha ops cc cc'"
| turn: "env_fits sha ops env \<Longrightarrow> main_round env rd cc = Inr cc' \<Longrightarrow> served sha ops cc cc'"

section \<open>What the operations keep\<close>

text \<open>A send of any kind leaves accounts, caches, roles and client list alone.\<close>

definition cc_same :: "'s client_controller \<Rightarrow> 's client_controller \<Rightarrow> bool" where
  "cc_same cc cc' =
     (qs_client_roles (cc_qt cc') = qs_client_roles (cc_qt cc) \<and> cc_auth cc' = cc_auth cc \<and>
      cc_internal cc' = cc_internal cc)"

lemma cc_same_refl [simp]: "cc_same cc cc"
  by (simp add: cc_same_def)

lemma cc_same_trans: "cc_same a b \<Longrightarrow> cc_same b c \<Longrightarrow> cc_same a c"
  by (simp add: cc_same_def)

lemma set_qt_simps [simp]:
  "cc_qt (set_qt q cc) = q" "cc_auth (set_qt q cc) = cc_auth cc" "cc_internal (set_qt q cc) = cc_internal cc"
  by (simp_all add: set_qt_def)

lemma cc_same_set_qt: "cc_same cc (set_qt q cc) \<longleftrightarrow> qs_client_roles q = qs_client_roles (cc_qt cc)"
  by (simp add: cc_same_def)

lemma qt_kept_roles: "qt_kept q' = qt_kept q \<Longrightarrow> qs_client_roles q' = qs_client_roles q"
  by (simp add: qt_kept_def)

lemma cc_send_same: "cc_send env fd t body cc = Inr cc' \<Longrightarrow> cc_same cc cc'"
  by (auto simp: cc_send_def rbind_Inr_iff cc_same_set_qt dest!: qt_send_keeps(1) qt_kept_roles)

lemma reply_result_same: "reply_result env fd result cc = Inr cc' \<Longrightarrow> cc_same cc cc'"
  by (auto simp: reply_result_def rbind_Inr_iff dest: cc_send_same)

lemma broadcasts_keep:
  "qt_broadcast ops t body q = Inr q' \<Longrightarrow> qs_client_roles q' = qs_client_roles q"
  "broadcastToRole ops t body r q = Inr q' \<Longrightarrow> qs_client_roles q' = qs_client_roles q"
  "broadcastByRole ops t a b q = Inr q' \<Longrightarrow> qs_client_roles q' = qs_client_roles q"
  "broadcastImage ops meta jpeg q = Inr q' \<Longrightarrow> qs_client_roles q' = qs_client_roles q"
  unfolding qt_broadcast_def broadcastToRole_def broadcastByRole_def broadcastImage_def
  by (auto dest!: to_all.each_keeps to_role.each_keeps by_role.each_keeps image_to_roles.each_keeps qt_kept_roles)

lemma on_push_same: "on_push_event env ev cc = Inr cc' \<Longrightarrow> cc_same cc cc'"
  by (auto simp: on_push_event_def rbind_Inr_iff cc_same_set_qt broadcasts_keep split: push_event.splits)

lemma main_round_same: "main_round env rd cc = Inr cc' \<Longrightarrow> cc_same cc cc'"
  by (cases "getStatus rd (cc_monitor cc)") (auto simp: main_round_def Let_def rbind_Inr_iff cc_same_def broadcasts_keep)

text \<open>The rounds of a handler before the request is dispatched touch no role.\<close>

lemma sendRaw_roles [simp]: "qs_client_roles (snd (sendRaw fd t data q)) = qs_client_roles q"
  by (simp add: sendRaw_def split: prod.split)

lemma parse_and_dispatch_roles:
  "parse_and_dispatch ops fd t body q = (r, q') \<Longrightarrow> qs_client_roles q' = qs_client_roles q"
  by (auto simp: parse_and_dispatch_def split: sum.splits prod.splits if_splits
      dest!: qt_send_keeps(1) qt_kept_roles)

lemma tls_round_roles: "tls_round ops fd t buf q = (r, q') \<Longrightarrow> qs_client_roles q' = qs_client_roles q"
  by (auto simp: tls_round_def Let_def split: option.splits prod.splits if_splits
      dest!: parse_and_dispatch_roles)

lemma plain_round_roles: "plain_round ops fd t buf q = (r, q') \<Longrightarrow> qs_client_roles q' = qs_client_roles q"
  by (auto simp: plain_round_def dump_empty_object split: if_splits dest!: parse_and_dispatch_roles)

lemma handler_round_roles: "handler_round ops fd q = (r, q') \<Longrightarrow> qs_client_roles q' = qs_client_roles q"
  by (auto simp: handler_round_def Let_def split: option.splits prod.splits if_splits
      dest!: tls_round_roles plain_round_roles)

section \<open>Where roles come from\<close>

text \<open>\<open>fd\<close> presented the password of the account \<open>r\<close>, which is approved.\<close>

definition proves :: "(bytes \<Rightarrow> bytes) \<Rightarrow> user_db \<Rightarrow> json \<Rightarrow> user_row \<Rightarrow> bool" where
  "proves sha db body r =
     (\<exists>username password. value_string body ''id'' [] = Inr username \<and> value_string body ''pw'' [] = Inr password \<and>
       r \<in> set (db_users db) \<and> usr_username r = c_str username \<and> usr_role r \<noteq> ''pending'' \<and>
       usr_password r = hashPassword sha password (usr_salt r))"

lemma on_login_role:
  assumes "on_login env fd body cc = Inr cc'"
  obtains "cc_same cc cc'"
  | r where "proves (env_sha256 env) (cc_auth cc) body r" "cc_same (set_qt (setClientRole fd (usr_role r) (cc_qt cc)) cc) cc'"
proof -
  from assms obtain username password where v: "value_string body ''id'' [] = Inr username"
    "value_string body ''pw'' [] = Inr password" by (auto simp: on_login_def rbind_Inr_iff)
  show thesis
  proof (cases rule: login_outcome [of "env_sha256 env" "env_sql env" username password "cc_auth cc"])
    case (refused msg)
    with assms v that(1) show thesis
      by (auto simp: on_login_def json_simps dest: cc_send_same)
  next
    case (accepted r)
    then have "proves (env_sha256 env) (cc_auth cc) body r" using v by (auto simp: proves_def)
    moreover have "cc_same (set_qt (setClientRole fd (usr_role r) (cc_qt cc)) cc) cc'"
      using assms v accepted
      by (auto simp: on_login_def json_simps rbind_Inr_iff dest!: cc_send_same intro: cc_same_trans)
    ultimately show thesis by (rule that(2))
  qed
qed

lemma auth_reachable_one:
  "auth_reachable sha256 db (snd (registerUser sha256 env urandom u e p db))"
  "auth_reachable sha256 db (snd (approveUser env u db))"
  by (rule auth_reachable.step [OF auth_reachable.refl], rule auth_step.intros)+

lemma on_assign_same:
  assumes "on_assign env fd body cc = Inr cc'"
  shows "qs_client_roles (cc_qt cc') = qs_client_roles (cc_qt cc) \<and> cc_internal cc' = cc_internal cc \<and>
    auth_reachable (env_sha256 env) (cc_auth cc) (cc_auth cc')"
proof -
  obtain action where action: "value_string body ''action'' [] = Inr action"
    using assms by (auto simp: on_assign_def rbind_Inr_iff)
  consider "action = ''register''" | "action = ''approve''" | "action \<noteq> ''register''" "action \<noteq> ''approve''" by blast
  then show ?thesis
  proof cases
    case 1
    with assms action show ?thesis
      by (auto simp: on_assign_def rbind_Inr_iff cc_same_def case_prod_unfold auth_reachable_one
          dest!: reply_result_same)
  next
    case 2
    with assms action show ?thesis
      by (auto simp: on_assign_def rbind_Inr_iff cc_same_def case_prod_unfold auth_reachable_one
          dest!: reply_result_same)
  next
    case 3
    with assms action have "cc_same cc cc'"
      by (auto simp: on_assign_def dest: cc_send_same split: if_splits)
    then show ?thesis by (simp add: cc_same_def auth_reachable.refl)
  qed
qed

text \<open>
  What a request does to roles and accounts: a login may set the role of its sender, an \<open>ASSIGN\<close> may
  change the accounts, and nothing else changes either.
\<close>

lemma onQtMessage_effect:
  assumes "onQtMessage env fd t body cc = Inr cc'"
  obtains (accounts) "qs_client_roles (cc_qt cc') = qs_client_roles (cc_qt cc)"
      "auth_reachable (env_sha256 env) (cc_auth cc) (cc_auth cc')"
  | (login) r where "t = LOGIN" "proves (env_sha256 env) (cc_auth cc) body r" "cc_auth cc' = cc_auth cc"
      "qs_client_roles (cc_qt cc') = om_assign fd (usr_role r) (qs_client_roles (cc_qt cc))"
proof (cases "t = LOGIN \<or> t = ASSIGN")
  case True
  then show thesis
  proof
    assume t: "t = LOGIN"
    with assms have "on_login env fd body cc = Inr cc'" by (simp add: onQtMessage_def)
    then show thesis
      by (cases rule: on_login_role)
        (use accounts login t auth_reachable.refl [of "env_sha256 env" "cc_auth cc"] in \<open>auto simp: cc_same_def setClientRole_def\<close>)
  next
    assume "t = ASSIGN"
    with assms on_assign_same [of env fd body cc cc'] accounts show thesis by (simp add: onQtMessage_def)
  qed
next
  case False
  then have "cc_same (cc\<lparr>cc_internal := cc_internal cc'\<rparr>) cc'"
    using assms broadcasts_keep(1) [of "env_ops env" AI body "cc_qt cc"]
    by (cases t) (auto simp: onQtMessage_def rbind_Inr_iff cc_same_def dest!: cc_send_same)
  then show thesis
    using accounts auth_reachable.refl [of "env_sha256 env" "cc_auth cc"] by (simp add: cc_same_def)
qed

text \<open>The same for a whole round of a handler.\<close>

lemma client_round_goes_on:
  assumes "client_round env fd cc = GoesOn cc'"
  obtains (quiet) "cc_same cc cc'"
  | (request) t body cc1 where "onQtMessage env fd t body cc1 = Inr cc'" "cc_same cc cc1" "json_good body"
proof -
  obtain r q where h: "handler_round (env_ops env) fd (cc_qt cc) = (r, q)" by force
  have same: "cc_same cc (set_qt q cc)" using handler_round_roles [OF h] by (simp add: cc_same_set_qt)
  show thesis
    using assms h same handler_round_cases(3) [OF h] quiet request [of _ _ "set_qt q cc"]
    by (cases r) (auto simp: client_round_def split: sum.splits)
qed

lemma client_round_stops: "client_round env fd cc = Stops cc' \<Longrightarrow> cc_same cc cc'"
  by (auto simp: client_round_def cc_same_set_qt split: prod.splits round.splits sum.splits
      dest: handler_round_roles)

section \<open>Every role is backed by an account\<close>

definition roles_backed :: "'s client_controller \<Rightarrow> bool" where
  "roles_backed cc =
     (om_wf (qs_client_roles (cc_qt cc)) \<and>
      (\<forall>fd role. om_find fd (qs_client_roles (cc_qt cc)) = Some role \<longrightarrow>
        role \<noteq> ''pending'' \<and> (\<exists>name. name \<in> set (accounts_with role (cc_auth cc)))))"

lemma roles_backed_same: "cc_same cc cc' \<Longrightarrow> roles_backed cc \<Longrightarrow> roles_backed cc'"
  by (simp add: cc_same_def roles_backed_def)

lemma roles_backed_accounts:
  "roles_backed cc \<Longrightarrow> auth_reachable sha (cc_auth cc) (cc_auth cc') \<Longrightarrow>
   qs_client_roles (cc_qt cc') = qs_client_roles (cc_qt cc) \<Longrightarrow> roles_backed cc'"
  unfolding roles_backed_def using accounts_stay by fastforce

lemma roles_backed_request:
  assumes "onQtMessage env fd t body cc = Inr cc'" "roles_backed cc"
  shows "roles_backed cc'"
  using assms(1)
proof (cases rule: onQtMessage_effect)
  case accounts
  with assms(2) show ?thesis by (blast intro: roles_backed_accounts)
next
  case (login r)
  then have "usr_username r \<in> set (accounts_with (usr_role r) (cc_auth cc))" "usr_role r \<noteq> ''pending''"
    by (auto simp: proves_def accounts_with_iff)
  with assms(2) login show ?thesis
    by (auto simp: roles_backed_def om_find_assign om_wf_assign)
qed

lemma handler_end_roles: "qs_client_roles (qt_handler_end fd q) = om_erase fd (qs_client_roles q)"
  by (simp add: qt_handler_end_def handler_finish_def set_pc_def qt_handler_unlist_def Let_def handler_unlist_def
      handler_close_def)

lemma joins_roles:
  "accept_client fd q = Some q1 \<Longrightarrow> qs_client_roles (snd (qt_handler_start ops fd q1)) = qs_client_roles q"
  by (auto simp: accept_client_def start_handler_def list_client_def qt_handler_start_def Let_def
      handler_give_up_def set_pc_def split: option.splits)

lemma served_effect:
  assumes "served sha ops cc cc'"
  shows "(\<exists>cc1. cc_same cc1 cc' \<and> (roles_backed cc \<longrightarrow> roles_backed cc1) \<and>
    auth_reachable sha (cc_auth cc) (cc_auth cc1))"
  using assms
proof cases
  case (request env fd)
  from request(2) show ?thesis
  proof (cases rule: client_round_goes_on)
    case quiet
    then show ?thesis using auth_reachable.refl by blast
  next
    case (request t body cc1)
    have "auth_reachable sha (cc_auth cc1) (cc_auth cc')"
      using request(1) \<open>env_fits sha ops env\<close>
      by (cases rule: onQtMessage_effect) (auto simp: env_fits_def auth_reachable.refl)
    moreover have "roles_backed cc \<Longrightarrow> roles_backed cc'"
      using roles_backed_request [OF request(1)] roles_backed_same [OF request(2)] by blast
    ultimately show ?thesis using request(2) by (auto simp: cc_same_def intro!: exI [of _ cc'])
  qed
next
  case (leaves env fd cc1)
  then have same: "cc_same cc cc1" using client_round_stops by blast
  have "roles_backed cc \<Longrightarrow> roles_backed cc'"
    using same leaves(1) by (auto simp: roles_backed_def cc_same_def handler_end_roles om_find_erase om_wf_erase)
  with same leaves(1) show ?thesis
    by (intro exI [of _ cc']) (auto simp: cc_same_def auth_reachable.refl)
next
  case (joins fd q)
  then show ?thesis
    by (intro exI [of _ cc]) (auto simp: cc_same_def joins_roles auth_reachable.refl)
next
  case (incoming ret fd b ev ic)
  then show ?thesis
    by (intro exI [of _ cc']) (auto simp: roles_backed_def auth_reachable.refl)
next
  case (pushed env ev)
  then show ?thesis using on_push_same auth_reachable.refl by blast
next
  case (turn env rd)
  then show ?thesis using main_round_same auth_reachable.refl by blast
qed

lemma auth_reachable_trans: "auth_reachable sha b c \<Longrightarrow> auth_reachable sha a b \<Longrightarrow> auth_reachable sha a c"
  by (induction rule: auth_reachable.induct) (auto intro: auth_reachable.step)

lemma served_all:
  assumes "rtranclp (served sha ops) cc0 cc" "roles_backed cc0"
  shows "roles_backed cc \<and> auth_reachable sha (cc_auth cc0) (cc_auth cc)"
  using assms(1)
proof (induction rule: rtranclp_induct)
  case base
  from assms(2) show ?case by (simp add: auth_reachable.refl)
next
  case (step cc cc')
  from served_effect [OF step(2)] obtain cc1 where "cc_same cc1 cc'" "roles_backed cc \<longrightarrow> roles_backed cc1"
    "auth_reachable sha (cc_auth cc) (cc_auth cc1)" by blast
  with step(3) show ?case
    by (auto simp: cc_same_def intro: roles_backed_same auth_reachable_trans)
qed

end
