(* ===== verification/ClientServing.thy ===== *)
theory ClientServing
  imports Roles
begin

text \<open>
  The ClientServer as its clients see it: who may do what, and which exceptions can end the process.
  Every request is either answered or has a body of the wrong shape, and what is stored or cached
  can always be written again, over all sequences of the steps of \<open>Roles\<close>.
\<close>

section \<open>Requests are answered\<close>

lemma cc_send_good:
  assumes "json_good body"
  obtains cc' where "cc_send env fd t body cc = Inr cc'" "cc_same cc cc'"
proof -
  obtain s where "json_dump body = Inr s" using json_good_dump [OF assms] ..
  then obtain r q where "qt_sendMessage (env_ops env) fd t body (cc_qt cc) = Inr (r, q)"
    using qt_sendMessage_returns by blast
  then have "cc_send env fd t body cc = Inr (set_qt q cc)" by (simp add: cc_send_def)
  with cc_send_same [OF this] that show thesis by blast
qed

lemma messages_utf8:
  "utf8_ok msg_all_fields" "utf8_ok msg_db_error" "utf8_ok msg_in_use" "utf8_ok msg_register_failed"
  "utf8_ok msg_registered" "utf8_ok msg_enter_id_pw" "utf8_ok msg_no_such_id" "utf8_ok msg_wrong_password"
  "utf8_ok msg_pending" "utf8_ok msg_approve_failed" "utf8_ok msg_not_pending" "utf8_ok msg_approved_suffix"
  by (simp_all add: msg_all_fields_def msg_db_error_def msg_in_use_def msg_register_failed_def msg_registered_def
      msg_enter_id_pw_def msg_no_such_id_def msg_wrong_password_def msg_pending_def msg_approve_failed_def
      msg_not_pending_def msg_approved_suffix_def utf8_follow_def)

lemma replies_good:
  "utf8_ok msg \<Longrightarrow> json_good (failure msg)" "utf8_ok msg \<Longrightarrow> json_good (success_message msg)"
  "utf8_ok role \<Longrightarrow> utf8_ok name \<Longrightarrow> json_good (login_reply role name)"
  unfolding failure_def success_message_def login_reply_def
  by (rule json_object_good; simp add: json_good_def utf8_ok_ascii)+

text \<open>The three requests of a newcomer.\<close>

definition register_body :: "string \<Rightarrow> string \<Rightarrow> string \<Rightarrow> json" where
  "register_body username email password =
     json_object [(''action'', JString ''register''), (''id'', JString username), (''email'', JString email),
       (''pw'', JString password)]"

definition approve_body :: "string \<Rightarrow> json" where
  "approve_body username = json_object [(''action'', JString ''approve''), (''target_id'', JString username)]"

definition login_body :: "string \<Rightarrow> string \<Rightarrow> json" where
  "login_body username password = json_object [(''id'', JString username), (''pw'', JString password)]"

lemma request_bodies [json_simps]:
  "value_string (register_body u e p) ''action'' d = Inr ''register''" "value_string (register_body u e p) ''id'' d = Inr u"
  "value_string (register_body u e p) ''email'' d = Inr e" "value_string (register_body u e p) ''pw'' d = Inr p"
  "value_string (approve_body u) ''action'' d = Inr ''approve''" "value_string (approve_body u) ''target_id'' d = Inr u"
  "value_string (login_body u p) ''id'' d = Inr u" "value_string (login_body u p) ''pw'' d = Inr p"
  by (simp_all add: register_body_def approve_body_def login_body_def json_object_def json_value_def om_emplace_def)

text \<open>The replies can be written whenever the texts in them are UTF-8.\<close>

lemma reply_result_good:
  assumes "result = failure m \<or> result = success_message m" "utf8_ok m"
  obtains cc' where "reply_result env fd result cc = Inr cc'" "cc_same cc cc'"
proof -
  have "json_good result" using assms replies_good(1,2) by auto
  then obtain c1 c2 where "cc_send env fd SUCCESS result cc = Inr c1" "cc_send env fd FAIL result cc = Inr c2"
      "cc_same cc c1" "cc_same cc c2"
    by (metis cc_send_good)
  with assms(1) that show thesis by (auto simp: reply_result_def json_simps)
qed

lemma register_reply:
  "\<exists>m. utf8_ok m \<and> (fst (registerUser sha env rnd u e p db) = failure m \<or> fst (registerUser sha env rnd u e p db) = success_message m)"
  using messages_utf8 by (auto simp: registerUser_def Let_def split: prod.split insert_result.split)

lemma approve_reply:
  "utf8_ok u \<Longrightarrow>
   \<exists>m. utf8_ok m \<and> (fst (approveUser env u db) = failure m \<or> fst (approveUser env u db) = success_message m)"
  using messages_utf8 utf8_ok_append [of u msg_approved_suffix]
  by (auto simp: approveUser_def split: prod.split)

lemma on_register_good:
  assumes "value_string body ''action'' [] = Inr ''register''" "value_string body ''id'' [] = Inr u"
    "value_string body ''email'' [] = Inr e" "value_string body ''pw'' [] = Inr p"
  obtains cc' where "on_assign env fd body cc = Inr cc'"
    "cc_same (cc\<lparr>cc_auth := snd (registerUser (env_sha256 env) (env_sql env) (env_urandom env) u e p (cc_auth cc))\<rparr>) cc'"
proof -
  obtain result db where r: "registerUser (env_sha256 env) (env_sql env) (env_urandom env) u e p (cc_auth cc) = (result, db)"
    by force
  with register_reply [of "env_sha256 env" "env_sql env" "env_urandom env" u e p "cc_auth cc"]
  obtain m where "result = failure m \<or> result = success_message m" "utf8_ok m" by auto
  then obtain cc' where "reply_result env fd result (cc\<lparr>cc_auth := db\<rparr>) = Inr cc'" "cc_same (cc\<lparr>cc_auth := db\<rparr>) cc'"
    by (rule reply_result_good)
  with assms r that show thesis by (simp add: on_assign_def)
qed

lemma on_approve_good:
  assumes "value_string body ''action'' [] = Inr ''approve''" "value_string body ''target_id'' [] = Inr u" "utf8_ok u"
  obtains cc' where "on_assign env fd body cc = Inr cc'"
    "cc_same (cc\<lparr>cc_auth := snd (approveUser (env_sql env) u (cc_auth cc))\<rparr>) cc'"
proof -
  obtain result db where r: "approveUser (env_sql env) u (cc_auth cc) = (result, db)" by force
  with approve_reply [OF assms(3), of "env_sql env" "cc_auth cc"]
  obtain m where "result = failure m \<or> result = success_message m" "utf8_ok m" by auto
  then obtain cc' where "reply_result env fd result (cc\<lparr>cc_auth := db\<rparr>) = Inr cc'" "cc_same (cc\<lparr>cc_auth := db\<rparr>) cc'"
    by (rule reply_result_good)
  with assms r that show thesis by (simp add: on_assign_def)
qed

lemma on_login_good:
  assumes "value_string body ''id'' [] = Inr u" "value_string body ''pw'' [] = Inr p"
    and "loginUser (env_sha256 env) (env_sql env) u p (cc_auth cc) = login_reply role u"
    and "utf8_ok role" "utf8_ok u" "json_good (getCameraList (cc_internal cc))"
  obtains cc' where "on_login env fd body cc = Inr cc'"
    "cc_same (set_qt (setClientRole fd role (cc_qt cc)) cc) cc'"
proof -
  let ?cc = "set_qt (setClientRole fd role (cc_qt cc)) cc"
  obtain cc1 where 1: "cc_send env fd SUCCESS (login_reply role u) ?cc = Inr cc1" "cc_same ?cc cc1"
    using cc_send_good [OF replies_good(3) [OF assms(4,5)]] by blast
  with assms(6) have "json_good (getCameraList (cc_internal cc1))" by (simp add: cc_same_def)
  then obtain cc2 where 2: "cc_send env fd CAMERA (getCameraList (cc_internal cc1)) cc1 = Inr cc2" "cc_same cc1 cc2"
    by (rule cc_send_good)
  show thesis
    using that [of cc2] 1 2 assms(1-3) cc_same_trans [OF 1(2) 2(2)] by (simp add: on_login_def json_simps)
qed

section \<open>What is stored can be written\<close>

lemma follow_ok_c_str:
  "follow_ok rs cs \<Longrightarrow> \<forall>r \<in> set rs. 0x80 \<le> fst r \<Longrightarrow>
   follow_ok rs (c_str cs) \<and> drop (length rs) (c_str cs) = c_str (drop (length rs) cs)"
  by (induction rs cs rule: follow_ok.induct) auto

lemma utf8_ok_c_str: "utf8_ok s \<Longrightarrow> utf8_ok (c_str s)"
proof (induction s rule: utf8_ok.induct)
  case (2 c cs)
  show ?case
  proof (cases "of_char c < (0x80 :: nat)")
    case True
    with 2 show ?thesis by simp
  next
    case False
    then have "c \<noteq> CHR 0x00" by auto
    from False 2(3) obtain rs where rs: "utf8_follow (of_char c) = Some rs" "follow_ok rs cs"
      "utf8_ok (drop (length rs) cs)" by (auto split: option.splits)
    from follow_ok_c_str [OF rs(2) utf8_follow_high [OF rs(1)]] 2(2) [OF False rs(1) rs(3)] False rs(1) \<open>c \<noteq> CHR 0x00\<close>
    show ?thesis by simp
  qed
qed simp

text \<open>The texts in the table, and the caches, are UTF-8.\<close>

definition row_utf8 :: "user_row \<Rightarrow> bool" where
  "row_utf8 r = (utf8_ok (usr_username r) \<and> utf8_ok (usr_email r) \<and> utf8_ok (usr_created r) \<and> utf8_ok (usr_role r))"

definition cc_good :: "'s client_controller \<Rightarrow> bool" where
  "cc_good cc =
     ((\<forall>r \<in> set (db_users (cc_auth cc)). row_utf8 r) \<and>
      json_good (getCameraList (cc_internal cc)) \<and> json_good (getDeviceStatus (cc_internal cc)))"

lemma cc_good_same: "cc_same cc cc' \<Longrightarrow> cc_good cc' \<longleftrightarrow> cc_good cc"
  by (simp add: cc_same_def cc_good_def)

lemma register_keeps_utf8:
  assumes "\<forall>r \<in> set (db_users db). row_utf8 r" "utf8_ok u" "utf8_ok e" "utf8_ok (sql_now env)"
  shows "\<forall>r \<in> set (db_users (snd (registerUser sha env rnd u e p db))). row_utf8 r"
  using register_db [of sha env rnd u e p db] assms
  by (auto simp: sql_insert_user_def row_utf8_def utf8_ok_c_str utf8_ok_ascii split: if_splits)

lemma approve_keeps_utf8:
  "\<forall>r \<in> set (db_users db). row_utf8 r \<Longrightarrow> \<forall>r \<in> set (db_users (snd (approveUser env u db))). row_utf8 r"
  using approve_db [of env u db] by (auto simp: sql_approve_rows approve_row_def row_utf8_def utf8_ok_ascii)

section \<open>Which exceptions end the process\<close>

text \<open>A request either is answered, leaving everything well-formed, or its body has the wrong shape.\<close>

definition outcome_ok :: "message_type \<Rightarrow> exn + 's client_controller \<Rightarrow> bool" where
  "outcome_ok t r =
     (case r of
        Inr cc \<Rightarrow> cc_good cc
      | Inl e \<Rightarrow> t \<in> {LOGIN, ASSIGN} \<and> e \<in> {TypeError 302, TypeError 306})"

lemma outcome_ok_bind:
  assumes "t \<in> {LOGIN, ASSIGN}" "\<And>s. value_string body k [] = Inr s \<Longrightarrow> outcome_ok t (f s)"
  shows "outcome_ok t (rbind (value_string body k []) f)"
  using assms value_string_result(2) [of body k "[]"]
  by (cases "value_string body k []") (auto simp: outcome_ok_def)

lemma outcome_ok_send:
  assumes "json_good body" "cc_good cc"
  shows "outcome_ok t' (cc_send env fd t body cc)"
  using cc_send_good [OF assms(1), of env fd t cc] assms(2) cc_good_same
  by (metis (no_types, lifting) outcome_ok_def sum.simps(6))

lemma outcome_ok_same: "r = Inr cc' \<Longrightarrow> cc_same cc cc' \<Longrightarrow> cc_good cc \<Longrightarrow> outcome_ok t r"
  by (simp add: outcome_ok_def cc_good_same)

lemma error_body_good: "utf8_ok msg \<Longrightarrow> json_good (error_body msg)"
  unfolding error_body_def by (rule json_object_good) (simp add: json_good_def utf8_ok_ascii)

lemma pending_list_good:
  assumes "\<forall>r \<in> set (db_users db). row_utf8 r"
  shows "json_good (listPendingUsers env db)"
proof -
  have "json_good (pending_entry r)" if "r \<in> set (sql_select_pending env db)" for r
    unfolding pending_entry_def using that assms
    by (intro json_object_good) (auto simp: json_good_def utf8_ok_ascii sql_select_pending_def row_utf8_def split: if_splits)
  then have "json_good (JArray (map pending_entry (sql_select_pending env db)))"
    by (auto simp: json_good_def)
  then show ?thesis
    by (auto simp: listPendingUsers_def replies_good messages_utf8 utf8_ok_ascii intro!: json_object_good)
       (simp_all add: json_good_def)
qed

lemma on_login_outcome:
  assumes "cc_good cc" "json_good body"
  shows "outcome_ok LOGIN (on_login env fd body cc)"
proof (cases "\<exists>u p. value_string body ''id'' [] = Inr u \<and> value_string body ''pw'' [] = Inr p")
  case False
  then show ?thesis
    unfolding on_login_def by (auto intro!: outcome_ok_bind)
next
  case True
  then obtain u p where v: "value_string body ''id'' [] = Inr u" "value_string body ''pw'' [] = Inr p" by blast
  have u: "utf8_ok u" by (rule value_string_result(1) [OF assms(2) _ v(1)]) simp
  show ?thesis
  proof (cases rule: login_outcome [of "env_sha256 env" "env_sql env" u p "cc_auth cc"])
    case (refused msg)
    then have "json_good (failure msg)" using messages_utf8 replies_good(1) by auto
    with v refused(1) assms(1) show ?thesis by (simp add: on_login_def json_simps outcome_ok_send)
  next
    case (accepted r)
    with assms(1) have "utf8_ok (usr_role r)" "json_good (getCameraList (cc_internal cc))"
      by (auto simp: cc_good_def row_utf8_def)
    then obtain cc' where cc': "on_login env fd body cc = Inr cc'"
      "cc_same (set_qt (setClientRole fd (usr_role r) (cc_qt cc)) cc) cc'"
      using on_login_good [OF v accepted(9) _ u] by metis
    have "cc_good (set_qt (setClientRole fd (usr_role r) (cc_qt cc)) cc)"
      using assms(1) by (simp add: cc_good_def)
    with cc' show ?thesis by (rule outcome_ok_same)
  qed
qed

text \<open>The text fields of a request are UTF-8.\<close>

lemma request_text: "json_good body \<Longrightarrow> value_string body k [] = Inr s \<Longrightarrow> utf8_ok s"
  by (rule value_string_result(1) [of body "[]"]) simp_all

lemma on_register_outcome:
  assumes "cc_good cc" "json_good body" "utf8_ok (sql_now (env_sql env))"
    and action: "value_string body ''action'' [] = Inr ''register''"
  shows "outcome_ok ASSIGN (on_assign env fd body cc)"
proof (cases "\<exists>u e p. value_string body ''id'' [] = Inr u \<and> value_string body ''email'' [] = Inr e \<and>
    value_string body ''pw'' [] = Inr p")
  case False
  with action show ?thesis unfolding on_assign_def by (auto intro!: outcome_ok_bind)
next
  case True
  then obtain u e p where v: "value_string body ''id'' [] = Inr u" "value_string body ''email'' [] = Inr e"
    "value_string body ''pw'' [] = Inr p" by blast
  let ?db = "snd (registerUser (env_sha256 env) (env_sql env) (env_urandom env) u e p (cc_auth cc))"
  obtain cc' where cc': "on_assign env fd body cc = Inr cc'" "cc_same (cc\<lparr>cc_auth := ?db\<rparr>) cc'"
    by (rule on_register_good [OF action v])
  have "cc_good (cc\<lparr>cc_auth := ?db\<rparr>)"
    using assms(1) register_keeps_utf8 [OF _ request_text [OF assms(2) v(1)] request_text [OF assms(2) v(2)] assms(3)]
    by (auto simp: cc_good_def)
  with cc' show ?thesis by (rule outcome_ok_same)
qed

lemma on_approve_outcome:
  assumes "cc_good cc" "json_good body"
    and action: "value_string body ''action'' [] = Inr ''approve''"
  shows "outcome_ok ASSIGN (on_assign env fd body cc)"
proof (cases "value_string body ''target_id'' []")
  case (Inl e)
  with action value_string_result(2) [of body "''target_id''" "[]" e] show ?thesis
    by (simp add: on_assign_def outcome_ok_def)
next
  case (Inr u)
  let ?db = "snd (approveUser (env_sql env) u (cc_auth cc))"
  obtain cc' where cc': "on_assign env fd body cc = Inr cc'" "cc_same (cc\<lparr>cc_auth := ?db\<rparr>) cc'"
    by (rule on_approve_good [OF action Inr request_text [OF assms(2) Inr]])
  have "cc_good (cc\<lparr>cc_auth := ?db\<rparr>)" using assms(1) approve_keeps_utf8 by (auto simp: cc_good_def)
  with cc' show ?thesis by (rule outcome_ok_same)
qed

lemma on_assign_outcome:
  assumes "cc_good cc" "json_good body" "utf8_ok (sql_now (env_sql env))"
  shows "outcome_ok ASSIGN (on_assign env fd body cc)"
proof (cases "value_string body ''action'' []")
  case (Inl e)
  with value_string_result(2) [of body "''action''" "[]" e] show ?thesis
    by (simp add: on_assign_def outcome_ok_def)
next
  case (Inr action)
  have "json_good (listPendingUsers (env_sql env) (cc_auth cc))"
    using assms(1) by (intro pending_list_good) (simp add: cc_good_def)
  moreover have "json_good (error_body ''Unknown action'')" by (rule error_body_good) (simp add: utf8_ok_ascii)
  ultimately show ?thesis
    using Inr assms on_register_outcome [OF assms, of fd] on_approve_outcome [OF assms(1,2), of env fd]
    by (cases "action = ''register''"; cases "action = ''approve''") (simp_all add: on_assign_def outcome_ok_send)
qed

text \<open>The broadcasts return when their values can be written.\<close>

lemma qt_send_good: "json_good body \<Longrightarrow> \<exists>r q'. qt_sendMessage ops fd t body q = Inr (r, q')"
  using json_good_dump [of body] qt_sendMessage_returns [of body] by blast

lemma qt_image_good: "json_good meta \<Longrightarrow> \<exists>r q'. qt_sendImageMessage ops fd meta jpeg q = Inr (r, q')"
  using json_good_dump [of meta] by (auto simp: qt_sendImageMessage_def split: option.split prod.split)

lemma qt_broadcast_returns: "json_good body \<Longrightarrow> \<exists>q'. qt_broadcast ops t body q = Inr q'"
  unfolding qt_broadcast_def by (rule send_each_returns) (simp add: qt_send_good)

lemma broadcastToRole_returns: "json_good body \<Longrightarrow> \<exists>q'. broadcastToRole ops t body r q = Inr q'"
  unfolding broadcastToRole_def
  by (rule send_each_returns) (simp add: qt_send_good split: option.split, blast)

lemma broadcastByRole_returns:
  "json_good a \<Longrightarrow> json_good b \<Longrightarrow> \<exists>q'. broadcastByRole ops t a b q = Inr q'"
  unfolding broadcastByRole_def
  by (rule send_each_returns) (simp add: qt_send_good split: option.split, blast)

lemma broadcastImage_returns: "json_good meta \<Longrightarrow> \<exists>q'. broadcastImage ops meta jpeg q = Inr q'"
  unfolding broadcastImage_def
  by (rule send_each_returns) (simp add: qt_image_good split: option.split, blast)

lemma onQtMessage_outcome:
  assumes "cc_good cc" "json_good body" "utf8_ok (sql_now (env_sql env))"
  shows "outcome_ok t (onQtMessage env fd t body cc)"
proof -
  obtain s where s: "json_dump body = Inr s" using json_good_dump [OF assms(2)] ..
  have cams: "json_good (getCameraList (cc_internal cc))" using assms(1) by (simp add: cc_good_def)
  have ack: "json_good (json_object [(''message'', JString ''received'')])"
    by (rule json_object_good) (simp add: json_good_def utf8_ok_ascii)
  obtain q where q: "qt_broadcast (env_ops env) AI body (cc_qt cc) = Inr q" using qt_broadcast_returns [OF assms(2)] ..
  show ?thesis
    using on_login_outcome [OF assms(1,2)] on_assign_outcome [OF assms] outcome_ok_send [OF cams assms(1)]
      outcome_ok_send [OF ack assms(1)] s q assms(1)
    by (cases t) (auto simp: onQtMessage_def outcome_ok_def sendDeviceCommand_def ic_sendMessage_def cc_good_def
        getCameraList_def getDeviceStatus_def split: prod.split)
qed

lemma client_round_throws:
  assumes "cc_good cc" "utf8_ok (sql_now (env_sql env))" "client_round env fd cc = Terminates e"
  shows "e \<in> {OutOfRange 406, TypeError 302, TypeError 306}"
proof -
  obtain r q where h: "handler_round (env_ops env) fd (cc_qt cc) = (r, q)" by force
  show ?thesis
  proof (cases r)
    case (Dispatch t body)
    have "cc_good (set_qt q cc)" using assms(1) by (simp add: cc_good_def)
    moreover have "json_good body" using handler_round_cases(3) [OF h Dispatch] by simp
    ultimately have "outcome_ok t (onQtMessage env fd t body (set_qt q cc))"
      using assms(2) by (rule onQtMessage_outcome)
    with assms(3) h Dispatch show ?thesis
      by (auto simp: client_round_def outcome_ok_def split: sum.splits)
  qed (use assms(3) h handler_round_cases(2) [OF h] in \<open>auto simp: client_round_def\<close>)
qed

text \<open>The status values are objects of numbers.\<close>

lemma getStatus_good: "\<exists>j. fst (getStatus rd m) = Inr j \<and> json_good j"
  by (simp add: getStatus_def json_good_def om_wf_Cons utf8_ok_ascii split: prod.split)

lemma main_round_returns:
  assumes "cc_good cc"
  shows "\<exists>cc'. main_round env rd cc = Inr cc'"
proof -
  have good: "json_good (getCameraList (cc_internal cc))" "json_good (getDeviceStatus (cc_internal cc))"
    using assms by (simp_all add: cc_good_def)
  obtain status mon where st: "getStatus rd (cc_monitor cc) = (Inr status, mon)" "json_good status"
    using getStatus_good [of rd "cc_monitor cc"] by (metis prod.collapse)
  have avail: "json_good (JObject [(''devices'', getDeviceStatus (cc_internal cc))])"
      "json_good (JObject [(''devices'', getDeviceStatus (cc_internal cc)), (''server'', status)])"
    using good st by (simp_all add: json_good_def om_wf_Cons utf8_ok_ascii)
  obtain q1 where q1: "broadcastToRole (env_ops env) CAMERA (getCameraList (cc_internal cc)) ''user'' (cc_qt cc) = Inr q1"
    using broadcastToRole_returns [OF good(1)] ..
  obtain q2 where "broadcastByRole (env_ops env) AVAILABLE (JObject [(''devices'', getDeviceStatus (cc_internal cc))])
      (JObject [(''devices'', getDeviceStatus (cc_internal cc)), (''server'', status)]) q1 = Inr q2"
    using broadcastByRole_returns [OF avail] ..
  with q1 st show ?thesis by (simp add: main_round_def)
qed

lemma client_round_keeps_good:
  assumes "client_round env fd cc = GoesOn cc'" "cc_good cc" "utf8_ok (sql_now (env_sql env))"
  shows "cc_good cc'"
  using assms(1)
proof (cases rule: client_round_goes_on)
  case quiet
  with assms(2) show ?thesis by (simp add: cc_good_same)
next
  case (request t body cc1)
  have "cc_good cc1" using cc_good_same [OF request(2)] assms(2) by simp
  from onQtMessage_outcome [OF this request(3) assms(3), of t fd] request(1) show ?thesis
    by (simp add: outcome_ok_def)
qed

lemma served_keeps_good:
  assumes "served sha ops cc cc'" "cc_good cc"
  shows "cc_good cc'"
  using assms(1)
proof cases
  case (request env fd)
  then show ?thesis using client_round_keeps_good assms(2) by (auto simp: env_fits_def)
next
  case (leaves env fd cc1)
  from client_round_stops [OF leaves(3)] have "cc_good cc1" using assms(2) by (simp add: cc_good_same)
  with leaves(1) show ?thesis by (simp add: cc_good_def)
next
  case (incoming ret fd b ev ic)
  with incoming_caches [OF incoming(2)] assms(2) show ?thesis by (simp add: cc_good_def)
next
  case (pushed env ev)
  with assms(2) show ?thesis by (simp add: cc_good_same [OF on_push_same])
next
  case (turn env rd)
  with assms(2) show ?thesis by (simp add: cc_good_same [OF main_round_same])
qed (use assms(2) in \<open>simp add: cc_good_def\<close>)

lemma served_all_good:
  assumes "rtranclp (served sha ops) cc0 cc" "cc_good cc0"
  shows "cc_good cc"
  using assms(1) by (induction rule: rtranclp_induct) (use assms(2) served_keeps_good in \<open>blast+\<close>)

section \<open>A ClientServer with one account\<close>

definition sample_env :: "link cc_env" where
  "sample_env = \<lparr>env_ops = link_ops, env_sha256 = sample_sha, env_sql = sample_sql, env_urandom = None\<rparr>"

definition sample_account :: user_db where
  "sample_account =
     \<lparr>db_users = [\<lparr>usr_id = 1, usr_username = ''kim'', usr_email = ''kim@x.kr'',
        usr_password = hashPassword sample_sha ''pw'' ''s'', usr_salt = ''s'', usr_role = ''user'', usr_created = ''now''\<rparr>],
      db_sequence = 1\<rparr>"

text \<open>Every client is about to send \<open>rx\<close>; no one has logged in.\<close>

definition sample_cc :: "bytes \<Rightarrow> link client_controller" where
  "sample_cc rx =
     \<lparr>cc_running = True, cc_qt = (sample_reading rx None)\<lparr>qs_client_roles := []\<rparr>, cc_auth = sample_account,
      cc_internal = internal_client_init (\<lambda>_. sample_sock), cc_monitor = \<lparr>prev_idle = 0, prev_total = 0\<rparr>\<rparr>"

lemma sample_cc_simps:
  "rx_ok (qs_net (cc_qt (sample_cc rx)) fd)" "sk_rx (qs_net (cc_qt (sample_cc rx)) fd) = rx"
  "qs_tls_ctx (cc_qt (sample_cc rx)) = None" "qs_client_roles (cc_qt (sample_cc rx)) = []"
  "cc_auth (sample_cc rx) = sample_account" "cc_good (sample_cc rx)"
  by (simp_all add: sample_cc_def sample_reading_simps cc_good_def sample_account_def row_utf8_def utf8_ok_ascii
      getCameraList_def getDeviceStatus_def internal_client_init_def json_good_def sample_reading_def
      rx_ok_def sample_sock_def)

lemma sample_env_fits: "env_fits sample_sha link_ops sample_env"
  by (simp add: env_fits_def sample_env_def sample_sql_def utf8_ok_ascii)

text \<open>A login as it is on the wire.\<close>

definition login_text :: string where
  "login_text = ''{'' @ [CHR 0x22] @ ''id'' @ [CHR 0x22] @ '':'' @ [CHR 0x22] @ ''kim'' @ [CHR 0x22] @ '',''
     @ [CHR 0x22] @ ''pw'' @ [CHR 0x22] @ '':'' @ [CHR 0x22] @ ''pw'' @ [CHR 0x22] @ ''}''"

lemma login_body_dump: "json_dump (login_body ''kim'' ''pw'') = Inr login_text"
  by (simp add: login_body_def json_object_def om_emplace_def login_text_def dump_string_def dump_escaped_text
      escape_text_def escape_byte_def escape_codepoint_def utf8_follow_def)

lemma login_body_props:
  "json_wf (login_body u p)" "json_floats_ok (login_body u p)" "json_norm (login_body u p) = login_body u p"
  by (simp_all add: login_body_def json_object_def om_emplace_def om_wf_Cons)

lemma sample_login:
  obtains cc' where "client_round sample_env 4 (sample_cc (packet_bytes (\<lambda>w. w) LOGIN login_text)) = GoesOn cc'"
    "om_find 4 (qs_client_roles (cc_qt cc')) = Some ''user''"
proof -
  let ?cc = "sample_cc (packet_bytes (\<lambda>w. w) LOGIN login_text)"
  obtain q where q: "handler_round link_ops 4 (cc_qt ?cc) = (Dispatch LOGIN (login_body ''kim'' ''pw''), q)"
    using handler_round_request [of "cc_qt ?cc" 4 LOGIN login_text "[]" "login_body ''kim'' ''pw''" login_text link_ops]
      login_body_dump by (auto simp: sample_cc_simps login_body_props type_wf_def max_body_def login_text_def)
  have "loginUser sample_sha sample_sql ''kim'' ''pw'' sample_account = login_reply ''user'' ''kim''"
    by (simp add: loginUser_def sql_select_user_def sample_account_def sample_sql_def login_reply_def)
  then obtain cc' where "on_login sample_env 4 (login_body ''kim'' ''pw'') (set_qt q ?cc) = Inr cc'"
      "cc_same (set_qt (setClientRole 4 ''user'' q) ?cc) cc'"
    using sample_cc_simps(6) [of "packet_bytes (\<lambda>w. w) LOGIN login_text"]
      on_login_good [OF request_bodies(7,8), of sample_env "''kim''" "''pw''" "set_qt q ?cc" "''user''" 4]
    by (auto simp: sample_env_def sample_cc_simps utf8_ok_ascii cc_good_def set_qt_def)
  with q that show thesis
    by (auto simp: client_round_def onQtMessage_def sample_env_def cc_same_def setClientRole_def om_find_assign)
qed

section \<open>Properties\<close>


text \<open>
  C22: whatever happens at the ClientServer, started without clients, no connection ever has the
  role \<open>admin\<close> unless the table of accounts held an administrator at the start; and every role
  is that of some approved account.
\<close>

theorem admin_needs_an_account:
  assumes "rtranclp (served sha ops) cc0 cc" "qs_client_roles (cc_qt cc0) = []"
    and "om_find fd (qs_client_roles (cc_qt cc)) = Some role"
  shows "role \<noteq> ''pending'' \<and> accounts_with role (cc_auth cc) \<noteq> [] \<and>
    (role = ''admin'' \<longrightarrow> accounts_with role (cc_auth cc0) \<noteq> [])"
proof -
  have "roles_backed cc0" using assms(2) by (simp add: roles_backed_def)
  from served_all [OF assms(1) this] have inv: "roles_backed cc"
    and reach: "auth_reachable sha (cc_auth cc0) (cc_auth cc)" by blast+
  from inv assms(3) have "role \<noteq> ''pending''" "accounts_with role (cc_auth cc) \<noteq> []"
    by (force simp: roles_backed_def)+
  with admins_stay [OF reach, of role] show ?thesis by auto
qed


lemma admin_needs_an_account_witness:
  "\<exists>cc. rtranclp (served sample_sha link_ops) (sample_cc (packet_bytes (\<lambda>w. w) LOGIN login_text)) cc \<and>
     accounts_with ''user'' (cc_auth cc) \<noteq> []"
proof -
  obtain cc' where cc': "client_round sample_env 4 (sample_cc (packet_bytes (\<lambda>w. w) LOGIN login_text)) = GoesOn cc'"
    "om_find 4 (qs_client_roles (cc_qt cc')) = Some ''user''" by (rule sample_login)
  have "rtranclp (served sample_sha link_ops) (sample_cc (packet_bytes (\<lambda>w. w) LOGIN login_text)) cc'"
    by (rule r_into_rtranclp, rule served.request [OF sample_env_fits cc'(1)])
  with admin_needs_an_account [OF this sample_cc_simps(4) cc'(2)] show ?thesis by blast
qed

text \<open>
  C23: nobody needs an administrator: any client, logged in or not, registers a free name, approves it
  itself and logs in with it; after the three requests it has the role \<open>user\<close>.
\<close>

theorem anyone_becomes_user:
  assumes "name_free username email (cc_auth cc)" "username \<noteq> []" "email \<noteq> []" "password \<noteq> []"
    and "sql_prepare_ok (env_sql env)" "sql_step_ok (env_sql env)"
    and "utf8_ok username" "json_good (getCameraList (cc_internal cc))"
  shows "\<exists>cc1 cc2 cc3.
    onQtMessage env fd ASSIGN (register_body username email password) cc = Inr cc1 \<and>
    onQtMessage env fd ASSIGN (approve_body username) cc1 = Inr cc2 \<and>
    onQtMessage env fd LOGIN (login_body username password) cc2 = Inr cc3 \<and>
    client_role fd (cc_qt cc3) = Some ''user''"
proof -
  let ?sha = "env_sha256 env" and ?sql = "env_sql env" and ?rnd = "env_urandom env"
  let ?r = "new_row ?sha ?sql ?rnd username email password (cc_auth cc)"
  note reg = register_free [OF assms(1-6), of ?sha ?rnd]
  obtain cc1 where 1: "onQtMessage env fd ASSIGN (register_body username email password) cc = Inr cc1"
    "cc_auth cc1 = \<lparr>db_users = db_users (cc_auth cc) @ [?r], db_sequence = Suc (db_sequence (cc_auth cc))\<rparr>"
    "cc_internal cc1 = cc_internal cc"
    by (rule on_register_good [where env = env and fd = fd and cc = cc, OF request_bodies(1-4) [of username email password]])
      (simp add: cc_same_def reg onQtMessage_def)
  have app: "approveUser ?sql username (cc_auth cc1) = (success_message (username @ msg_approved_suffix),
      \<lparr>db_users = db_users (cc_auth cc) @ [?r\<lparr>usr_role := ''user''\<rparr>], db_sequence = Suc (db_sequence (cc_auth cc))\<rparr>)"
    unfolding 1(2) by (rule approve_newest [OF assms(1,5,6) new_row_pending])
  obtain cc2 where 2: "onQtMessage env fd ASSIGN (approve_body username) cc1 = Inr cc2"
    "cc_auth cc2 = \<lparr>db_users = db_users (cc_auth cc) @ [?r\<lparr>usr_role := ''user''\<rparr>],
       db_sequence = Suc (db_sequence (cc_auth cc))\<rparr>" "cc_internal cc2 = cc_internal cc1"
    by (rule on_approve_good [where env = env and fd = fd and cc = cc1, OF request_bodies(5,6) assms(7)])
      (simp add: cc_same_def app onQtMessage_def)
  have login: "loginUser ?sha ?sql username password (cc_auth cc2) = login_reply ''user'' username"
    using login_newest [OF assms(1,2,4-6), of "?r\<lparr>usr_role := ''user''\<rparr>" ?sha "Suc (db_sequence (cc_auth cc))"]
    by (simp add: 2(2) new_row_def)
  obtain cc3 where 3: "onQtMessage env fd LOGIN (login_body username password) cc2 = Inr cc3"
    "cc_same (set_qt (setClientRole fd ''user'' (cc_qt cc2)) cc2) cc3"
    by (rule on_login_good [where fd = fd, OF request_bodies(7,8) login _ assms(7)])
      (use assms(8) 1 2 in \<open>simp_all add: utf8_ok_ascii onQtMessage_def\<close>)
  then have "client_role fd (cc_qt cc3) = Some ''user''"
    by (simp add: client_role_def cc_same_def setClientRole_def om_find_assign)
  with 1(1) 2(1) 3(1) show ?thesis by blast
qed

lemma anyone_becomes_user_witness:
  "\<exists>cc1 cc2 cc3. onQtMessage sample_env 9 ASSIGN (register_body ''lee'' ''lee@x.kr'' ''pw'') (sample_cc []) = Inr cc1 \<and>
     onQtMessage sample_env 9 ASSIGN (approve_body ''lee'') cc1 = Inr cc2 \<and>
     onQtMessage sample_env 9 LOGIN (login_body ''lee'' ''pw'') cc2 = Inr cc3 \<and>
     client_role 9 (cc_qt cc3) = Some ''user''"
  by (rule anyone_becomes_user)
    (use sample_cc_simps(6) in \<open>simp_all add: name_free_def sample_cc_simps sample_account_def sample_env_def sample_sql_def
      utf8_ok_ascii cc_good_def\<close>)

text \<open>
  C24: whatever clients and the DeviceServer send, the accounts and the caches stay values that can be
  written, so the main loop never throws.
\<close>

theorem main_loop_never_throws:
  assumes "rtranclp (served sha ops) cc0 cc" "cc_good cc0"
  shows "\<exists>cc'. main_round env rd cc = Inr cc'"
  by (rule main_round_returns [OF served_all_good [OF assms]])

lemma main_loop_never_throws_witness:
  "\<exists>cc'. main_round sample_env \<lparr>rd_stat = None, rd_sysinfo = None, rd_thermal = None\<rparr> (sample_cc []) = Inr cc'"
  by (rule main_loop_never_throws [OF rtranclp.rtrancl_refl sample_cc_simps(6)])

text \<open>
  C25: the requests of clients can end the process in three ways only: a number too large for a
  double, and, in a \<open>LOGIN\<close> or \<open>ASSIGN\<close>, a body that is not an object or a field that is not a string.
\<close>

theorem client_exceptions:
  assumes "rtranclp (served sha ops) cc0 cc" "cc_good cc0" "env_fits sha ops env"
    and "client_round env fd cc = Terminates e"
  shows "e \<in> {OutOfRange 406, TypeError 302, TypeError 306}"
  using client_round_throws [OF served_all_good [OF assms(1,2)] _ assms(4)] assms(3)
  by (simp add: env_fits_def)

text \<open>
  This happens: a login or registration request whose text is a JSON value other than an
  object, from any client, terminates the server.
\<close>

lemma wrong_shape_terminates:
  assumes "rx_ok (qs_net (cc_qt cc) fd)" "sk_rx (qs_net (cc_qt cc) fd) = packet_bytes (\<lambda>w. w) t buf @ rest"
    and "t = LOGIN \<or> t = ASSIGN" "length buf \<le> max_body"
    and "json_wf j" "json_floats_ok j" "json_dump j = Inr s" "\<not> is_object (json_norm j)"
    and "if qs_tls_ctx (cc_qt cc) = None then buf = s
         else \<exists>ss ss'. secure_session (env_ops env) fd (cc_qt cc) = Some ss \<and> decrypt (env_ops env) buf ss = Some (s, ss')"
  shows "client_round env fd cc = Terminates (TypeError 306)"
proof -
  have "type_wf t" using assms(3) by (auto simp: type_wf_def)
  from handler_round_request [OF assms(1,2) this assms(4-7,9)]
  obtain q where "handler_round (env_ops env) fd (cc_qt cc) = (Dispatch t (json_norm j), q)" by blast
  with assms(3,8) show ?thesis
    by (auto simp: client_round_def onQtMessage_def on_login_def on_assign_def json_simps)
qed

lemma wrong_shape_terminates_witness:
  "client_round sample_env 4 (sample_cc (packet_bytes (\<lambda>w. w) LOGIN ''null'')) = Terminates (TypeError 306)"
  by (rule wrong_shape_terminates [where j = JNull and s = "''null''" and buf = "''null''" and rest = "[]" and t = LOGIN])
    (simp_all add: sample_cc_simps max_body_def)

lemma client_exceptions_witness:
  "\<exists>e. client_round sample_env 4 (sample_cc (packet_bytes (\<lambda>w. w) LOGIN ''1e999'')) = Terminates e \<and>
     e \<in> {OutOfRange 406, TypeError 302, TypeError 306}"
proof -
  let ?cc = "sample_cc (packet_bytes (\<lambda>w. w) LOGIN ''1e999'')"
  obtain net where "handler_round link_ops 4 (cc_qt ?cc) = plain_round link_ops 4 LOGIN ''1e999'' (set_net net (cc_qt ?cc))"
    by (rule handler_round_packet [of "cc_qt ?cc" 4 LOGIN "''1e999''" "[]" link_ops])
      (simp_all add: sample_cc_simps max_body_def type_wf_def)
  then obtain e where e: "client_round sample_env 4 ?cc = Terminates e"
    by (simp add: client_round_def sample_env_def plain_round_def parse_and_dispatch_def json_parse_huge)
  from client_exceptions [OF rtranclp.rtrancl_refl sample_cc_simps(6) sample_env_fits e] e show ?thesis by blast
qed

end
