(* ===== verification/HandlerEnds.thy ===== *)
theory HandlerEnds
  imports ClientServing
begin

text \<open>
  A handler thread does not outlive what its client sent: every round that goes on takes at least a
  header from the stream, and nothing the servers send puts bytes back.
\<close>

section \<open>What a round takes from the stream\<close>

lemma recvExact_takes:
  "recvExact fd n net = (Some bs, net') \<Longrightarrow> length (sk_rx (net' fd)) + n = length (sk_rx (net fd))"
  using recv_loop_Some [of n "[]" "net fd" bs] by (auto simp: recvExact_def split: prod.splits)

lemma recv_header_takes:
  "recv_header fd net = (Some h, net') \<Longrightarrow> length (sk_rx (net' fd)) + header_size = length (sk_rx (net fd))"
  by (auto simp: recv_header_def dest: recvExact_takes split: prod.splits option.splits)

lemma sendExact_rx: "sk_rx (snd (sendExact fd buf net) g) = sk_rx (net g)"
  using send_loop_rx [of buf 0 "net fd"] by (auto simp: sendExact_def split: prod.split)

lemma send_packet_rx: "sk_rx (snd (send_packet to_wire fd t body net) g) = sk_rx (net g)"
  using sendExact_rx by (auto simp: send_packet_def split: prod.split bool.split) (metis snd_conv)+

lemma send_image_packet_rx: "sk_rx (snd (send_image_packet to_wire fd meta jpeg net) g) = sk_rx (net g)"
  using sendExact_rx by (auto simp: send_image_packet_def split: prod.split bool.split) (metis snd_conv)+

text \<open>The bytes that the clients still have in their streams.\<close>

definition unread :: "'s qt_server \<Rightarrow> fd \<Rightarrow> bytes" where
  "unread q = (\<lambda>g. sk_rx (qs_net q g))"

lemma unread_simps [simp]:
  "unread (set_session fd ss q) = unread q"
  "unread (set_net (snd (send_packet to_wire fd t body (qs_net q))) q') = unread q"
  "unread (set_net (snd (send_image_packet to_wire fd meta jpeg (qs_net q))) q') = unread q"
  by (simp_all add: unread_def send_packet_rx send_image_packet_rx)

lemma qt_send_unread:
  assumes "qt_sendMessage ops fd t body q = Inr (r, q')"
  shows "unread q' = unread q"
  using assms by (cases rule: qt_sendMessage_cases) simp_all

lemma qt_image_unread:
  assumes "qt_sendImageMessage ops fd meta jpeg q = Inr (r, q')"
  shows "unread q' = unread q"
  using assms by (cases rule: qt_sendImageMessage_cases) simp_all

text \<open>The broadcasts as senders that keep what is unread.\<close>

interpretation all_unread: sender qs_net unread "\<lambda>fd. qt_sendMessage ops fd t body" "\<lambda>fd k. True" for ops t body
  by unfold_locales (auto dest: qt_send_keeps qt_send_unread)

lemma broadcast_unread: "qt_broadcast ops t body q = Inr q' \<Longrightarrow> unread q' = unread q"
  unfolding qt_broadcast_def by (rule all_unread.each_keeps)

lemma sendRaw_unread: "unread (snd (sendRaw fd t data q)) = unread q"
  by (simp add: sendRaw_def case_prod_unfold)

lemma parse_and_dispatch_unread: "parse_and_dispatch ops fd t body q = (r, q') \<Longrightarrow> unread q' = unread q"
  by (auto simp: parse_and_dispatch_def dest: qt_send_unread split: sum.splits prod.splits if_splits)

lemma tls_round_unread: "tls_round ops fd t buf q = (r, q') \<Longrightarrow> unread q' = unread q"
  by (auto simp: tls_round_def Let_def sendRaw_unread dest!: parse_and_dispatch_unread
      split: option.splits prod.splits if_splits)

lemma plain_round_unread: "plain_round ops fd t buf q = (r, q') \<Longrightarrow> unread q' = unread q"
  by (auto simp: plain_round_def dump_empty_object dest!: parse_and_dispatch_unread split: if_splits)

text \<open>A round that goes on took a header.\<close>

lemma handler_round_takes:
  assumes "handler_round ops fd q = (r, q')" "r \<noteq> Break"
  shows "length (unread q' fd) + header_size \<le> length (unread q fd)"
proof -
  from assms obtain h net1 where h: "recv_header fd (qs_net q) = (Some h, net1)"
    by (auto simp: handler_round_def split: option.splits prod.splits)
  have 1: "length (sk_rx (net1 fd)) + header_size = length (unread q fd)"
    using recv_header_takes [OF h] by (simp add: unread_def)
  obtain buf net2 where b: "(if 0 < unat (ph_body_length h) then recvExact fd (unat (ph_body_length h)) net1
      else (Some [], net1)) = (Some buf, net2)"
    using assms h by (auto simp: handler_round_def Let_def split: if_splits option.splits prod.splits)
  have 2: "length (sk_rx (net2 fd)) \<le> length (sk_rx (net1 fd))"
    using b recvExact_takes [of fd "unat (ph_body_length h)" net1 buf net2] by (auto split: if_splits)
  have sn: "set_net net2 (set_net net1 q) = set_net net2 q" by (simp add: set_net_def)
  from assms h b have "(if qs_tls_ctx q \<noteq> None then tls_round ops fd (ph_type h) buf (set_net net2 q)
      else plain_round ops fd (ph_type h) buf (set_net net2 q)) = (r, q')"
    by (cases "max_body < unat (ph_body_length h)"; cases "qs_tls_ctx q") (simp_all add: handler_round_def Let_def sn)
  then have "unread q' = unread (set_net net2 q)"
    using tls_round_unread plain_round_unread by (metis (full_types))
  with 1 2 show ?thesis by (simp add: unread_def)
qed

text \<open>Neither does the request that the round dispatches.\<close>

lemma cc_send_unread: "cc_send env fd t body cc = Inr cc' \<Longrightarrow> unread (cc_qt cc') = unread (cc_qt cc)"
  by (auto simp: cc_send_def rbind_Inr_iff dest: qt_send_unread)

lemma reply_unread: "reply_result env fd result cc = Inr cc' \<Longrightarrow> unread (cc_qt cc') = unread (cc_qt cc)"
  by (auto simp: reply_result_def rbind_Inr_iff dest: cc_send_unread)

lemma set_role_unread [simp]: "unread (setClientRole fd role q) = unread q"
  by (simp add: unread_def setClientRole_def)

lemma on_login_unread: "on_login env fd body cc = Inr cc' \<Longrightarrow> unread (cc_qt cc') = unread (cc_qt cc)"
  by (auto simp: on_login_def rbind_Inr_iff Let_def dest!: cc_send_unread split: if_splits)

lemma on_assign_unread: "on_assign env fd body cc = Inr cc' \<Longrightarrow> unread (cc_qt cc') = unread (cc_qt cc)"
  by (auto simp: on_assign_def rbind_Inr_iff case_prod_unfold dest!: cc_send_unread reply_unread split: if_splits)

lemma onQtMessage_unread: "onQtMessage env fd t body cc = Inr cc' \<Longrightarrow> unread (cc_qt cc') = unread (cc_qt cc)"
  by (cases t) (auto simp: onQtMessage_def rbind_Inr_iff
      dest: on_login_unread on_assign_unread cc_send_unread broadcast_unread)

lemma client_round_takes:
  assumes "client_round env fd cc = GoesOn cc'"
  shows "length (unread (cc_qt cc') fd) + header_size \<le> length (unread (cc_qt cc) fd)"
proof -
  obtain r q where h: "handler_round (env_ops env) fd (cc_qt cc) = (r, q)" by force
  have "r \<noteq> Break" "unread (cc_qt cc') = unread q"
    using assms h onQtMessage_unread [of env fd _ _ "set_qt q cc" cc']
    by (auto simp: client_round_def split: round.splits sum.splits)
  with handler_round_takes [OF h] show ?thesis by simp
qed

section \<open>The handler ends\<close>

text \<open>
  The rounds of a handler, each with what SQLite and \<open>/dev/urandom\<close> return then; \<open>n\<close> bounds their number.
\<close>

fun serve :: "(nat \<Rightarrow> 's cc_env) \<Rightarrow> fd \<Rightarrow> nat \<Rightarrow> 's client_controller \<Rightarrow> 's handled" where
  "serve envs fd 0 cc = GoesOn cc"
| "serve envs fd (Suc n) cc =
     (case client_round (envs n) fd cc of
        GoesOn cc' \<Rightarrow> serve envs fd n cc'
      | r \<Rightarrow> r)"

lemma client_round_not_stuck:
  assumes "ssl_read_bounded (env_ops env) avail"
  shows "client_round env fd cc \<noteq> Stuck"
proof -
  obtain r q where h: "handler_round (env_ops env) fd (cc_qt cc) = (r, q)" by force
  with handler_round_cases(1) [OF h assms] show ?thesis
    by (auto simp: client_round_def split: round.splits sum.splits)
qed



end
