(* ===== verification/DeviceTable.thy ===== *)
theory DeviceTable
  imports DeviceManager
begin

text \<open>
  The device table as a set: which devices are online is all that the operations decide on and all
  that the callbacks report. Both discoverers are instances of one interface, and every sequence
  of operations on the table is simulated by the same sequence on the set of online ids.
\<close>

section \<open>Discovery\<close>

text \<open>What the two ways to bring a known device back have in common.\<close>

locale registration =
  fixes recover :: "device_info \<Rightarrow> device_info \<Rightarrow> device_info"
  assumes recover_online: "dev_is_online (recover info existing)"
    and recover_id: "dev_id (recover info existing) = dev_id existing"
    and recover_type: "dev_type (recover info existing) = dev_type existing"
begin

text \<open>Whatever was known, the device is registered afterwards, and reported unless it was before.\<close>

lemma found_cases:
  assumes "dev_is_online info"
  obtains (known) "is_device_registered (dev_id info) dm" "device_found recover info dm = (None, dm)"
  | (news) info' where "\<not> is_device_registered (dev_id info) dm" "dev_is_online info'"
      "device_found recover info dm = (Some info', put_device (dev_id info) info' dm)"
      "info' = info \<or> (\<exists>existing. om_find (dev_id info) (dm_devices dm) = Some existing \<and> \<not> dev_is_online existing \<and>
         info' = recover info existing)"
proof (cases "om_find (dev_id info) (dm_devices dm)")
  case None
  with assms news [of info] show thesis by (simp add: is_device_registered_def device_found_def)
next
  case (Some existing)
  with known news [of "recover info existing"] recover_online show thesis
    by (cases "dev_is_online existing") (simp_all add: is_device_registered_def device_found_def Let_def)
qed

lemma registered_put:
  "is_device_registered d (put_device device info dm) = (if d = device then dev_is_online info else is_device_registered d dm)"
  by (simp add: is_device_registered_def put_device_def om_find_assign)

lemma found_reports:
  assumes "dev_is_online info"
  shows "fst (device_found recover info dm) = None \<longleftrightarrow> is_device_registered (dev_id info) dm"
    and "is_device_registered d (snd (device_found recover info dm)) \<longleftrightarrow> d = dev_id info \<or> is_device_registered d dm"
  by (cases rule: found_cases [OF assms, of dm]; auto simp: registered_put)+

end

interpretation subpi: registration recover_subpi
  by unfold_locales (simp_all add: recover_subpi_def)

interpretation hanwha: registration recover_hanwha
  by unfold_locales (simp_all add: recover_hanwha_def)

section \<open>Devices that went offline\<close>

lemma set_offline_registered:
  assumes "set_offline device (removed, dm, net) = (removed', dm', net')"
  shows "removed' = (if is_device_registered device dm then removed @ [device] else removed)"
    "is_device_registered d dm' \<longleftrightarrow> d \<noteq> device \<and> is_device_registered d dm"
  using assms
  by (auto simp: set_offline_def is_device_registered_def put_device_def om_find_assign Let_def
      split: option.splits if_splits)

section \<open>The table refines a set\<close>

text \<open>The operations of the table, each with the ids that the callbacks report.\<close>

datatype table_op = FoundSubPi device_info | FoundCamera device_info | WentOffline "string list"

fun table_step :: "net \<Rightarrow> table_op \<Rightarrow> device_manager \<Rightarrow> string list \<times> device_manager" where
  "table_step net (FoundSubPi info) dm =
     (case subpi_found info dm of (r, dm') \<Rightarrow> (if r = None then [] else [dev_id info], dm'))"
| "table_step net (FoundCamera info) dm =
     (case hanwha_found info dm of (r, dm') \<Rightarrow> (if r = None then [] else [dev_id info], dm'))"
| "table_step net (WentOffline ids) dm =
     (case apply_offline ids dm net of (removed, dm', net') \<Rightarrow> (removed, dm'))"

fun table_run :: "net \<Rightarrow> table_op list \<Rightarrow> device_manager \<Rightarrow> string list list \<times> device_manager" where
  "table_run net [] dm = ([], dm)"
| "table_run net (x # xs) dm =
     (case table_step net x dm of (out, dm1) \<Rightarrow>
        (case table_run net xs dm1 of (outs, dm2) \<Rightarrow> (out # outs, dm2)))"

text \<open>The same on a set of ids.\<close>

fun gone :: "string list \<Rightarrow> string set \<Rightarrow> string list" where
  "gone [] S = []"
| "gone (d # ds) S = (if d \<in> S then d # gone ds (S - {d}) else gone ds S)"

fun set_step :: "table_op \<Rightarrow> string set \<Rightarrow> string list \<times> string set" where
  "set_step (FoundSubPi info) S = (if dev_id info \<in> S then [] else [dev_id info], insert (dev_id info) S)"
| "set_step (FoundCamera info) S = (if dev_id info \<in> S then [] else [dev_id info], insert (dev_id info) S)"
| "set_step (WentOffline ids) S = (gone ids S, S - set ids)"

fun set_run :: "table_op list \<Rightarrow> string set \<Rightarrow> string list list \<times> string set" where
  "set_run [] S = ([], S)"
| "set_run (x # xs) S = (case set_step x S of (out, S1) \<Rightarrow> (case set_run xs S1 of (outs, S2) \<Rightarrow> (out # outs, S2)))"

definition online :: "device_manager \<Rightarrow> string set" where
  "online dm = {d. is_device_registered d dm}"

fun op_ok :: "table_op \<Rightarrow> bool" where
  "op_ok (FoundSubPi info) = dev_is_online info"
| "op_ok (FoundCamera info) = dev_is_online info"
| "op_ok (WentOffline ids) = True"

lemma offline_simulated:
  "fold set_offline ids (removed, dm, net) = (removed', dm', net') \<Longrightarrow>
   removed' = removed @ gone ids (online dm) \<and> online dm' = online dm - set ids"
proof (induction ids arbitrary: removed dm net)
  case (Cons d ids)
  obtain removed1 dm1 net1 where s: "set_offline d (removed, dm, net) = (removed1, dm1, net1)"
    by (metis prod.exhaust)
  have on: "online dm1 = online dm - {d}" using set_offline_registered(2) [OF s] by (auto simp: online_def)
  have "removed' = removed1 @ gone ids (online dm1) \<and> online dm' = online dm1 - set ids"
    using Cons.IH [of removed1 dm1 net1] Cons.prems s by simp
  moreover have "d \<notin> online dm \<Longrightarrow> online dm - {d} = online dm" by blast
  ultimately show ?case
    using on set_offline_registered(1) [OF s] by (auto simp: online_def)
qed simp

lemma step_simulated:
  "op_ok x \<Longrightarrow> table_step net x dm = (out, dm') \<Longrightarrow> set_step x (online dm) = (out, online dm')"
proof (cases x)
  case (FoundSubPi info)
  assume "op_ok x" "table_step net x dm = (out, dm')"
  with FoundSubPi subpi.found_reports [where info = info and dm = dm] show ?thesis
    by (cases "subpi_found info dm") (auto simp: online_def subpi_found_def)
next
  case (FoundCamera info)
  assume "op_ok x" "table_step net x dm = (out, dm')"
  with FoundCamera hanwha.found_reports [where info = info and dm = dm] show ?thesis
    by (cases "hanwha_found info dm") (auto simp: online_def hanwha_found_def)
next
  case (WentOffline ids)
  assume "op_ok x" "table_step net x dm = (out, dm')"
  with WentOffline offline_simulated [of ids "[]" dm net] show ?thesis
    by (auto simp: apply_offline_def split: prod.splits)
qed

text \<open>
  C27: the device table implements the set of the devices that are online: a sequence of discoveries
  and of monitor cycles reports, for each, exactly the ids that the same sequence on the set adds
  or removes, and ends with that set online.
\<close>

theorem table_refines_set:
  assumes "\<forall>x \<in> set xs. op_ok x"
  shows "set_run xs (online dm) = (fst (table_run net xs dm), online (snd (table_run net xs dm)))"
  using assms
proof (induction xs arbitrary: dm)
  case (Cons x xs)
  obtain out dm1 where s: "table_step net x dm = (out, dm1)" by force
  from step_simulated [OF _ s] Cons s show ?case by (simp split: prod.split)
qed simp

definition sample_device :: device_info where
  "sample_device = (default_device_info SUB_PI)\<lparr>dev_id := ''SubPi_10.0.0.7'', dev_ip := ''10.0.0.7'', dev_is_online := True\<rparr>"

lemma table_refines_set_witness:
  "fst (table_run (\<lambda>_. sample_sock) [FoundSubPi sample_device, FoundSubPi sample_device, WentOffline [''SubPi_10.0.0.7'']] dm_init)
     = [[''SubPi_10.0.0.7''], [], [''SubPi_10.0.0.7'']]"
proof -
  have "online dm_init = {}" by (simp add: online_def is_device_registered_def dm_init_def)
  with table_refines_set [of "[FoundSubPi sample_device, FoundSubPi sample_device, WentOffline [''SubPi_10.0.0.7'']]"
      dm_init "\<lambda>_. sample_sock"]
  show ?thesis by (simp add: sample_device_def)
qed

end
