(* ===== verification/Relays.thy ===== *)
theory Relays
  imports DeviceServing DeviceTable
begin

text \<open>
  The relay paths of the RTSP server and the device table, which the callbacks of
  \<open>DeviceController\<close> keep in step: a path exists exactly for a Sub-Pi that is online, with its port.
\<close>

section \<open>One path\<close>

lemma relay_path_inj [simp]: "relay_path a = relay_path b \<longleftrightarrow> a = b"
  by (simp add: relay_path_def)

lemma remove_relay:
  assumes "rs_mounts rs = Some m" "om_wf m"
  obtains m' where "rs_mounts (removeRelayPath d rs) = Some m'" "om_wf m'"
    "\<forall>x. om_find (relay_path x) m' = (if x = d then None else om_find (relay_path x) m)"
  using assms by (auto simp: removeRelayPath_def om_find_erase om_wf_erase)

lemma add_relay:
  assumes "rs_mounts rs = Some m" "om_wf m"
  obtains m' where "rs_mounts (addRelayPath info rs) = Some m'" "om_wf m'"
    "\<forall>x. om_find (relay_path x) m' = (if x = dev_id info \<and> dev_type info = SUB_PI
       then Some (pipeline_text (dev_udp_listen_port info)) else om_find (relay_path x) m)"
proof (cases "dev_type info = SUB_PI")
  case True
  obtain m1 where "rs_mounts (removeRelayPath (dev_id info) rs) = Some m1" "om_wf m1"
    "\<forall>x. om_find (relay_path x) m1 = (if x = dev_id info then None else om_find (relay_path x) m)"
    by (rule remove_relay [OF assms, of "dev_id info"])
  with True assms(1) that show thesis
    by (auto simp: addRelayPath_def Let_def om_find_assign om_wf_assign)
next
  case False
  with assms that show thesis by (auto simp: addRelayPath_def)
qed

section \<open>Paths and devices\<close>

text \<open>The path that a device is to have.\<close>

definition relay_of :: "device_manager \<Rightarrow> string \<Rightarrow> string option" where
  "relay_of dm d =
     (case om_find d (dm_devices dm) of
        Some info \<Rightarrow> if dev_type info = SUB_PI \<and> dev_is_online info
          then Some (pipeline_text (dev_udp_listen_port info)) else None
      | None \<Rightarrow> None)"

definition keys_ok :: "device_manager \<Rightarrow> bool" where
  "keys_ok dm = (\<forall>d info. om_find d (dm_devices dm) = Some info \<longrightarrow> dev_id info = d)"

definition relays_ok :: "device_controller \<Rightarrow> bool" where
  "relays_ok dc =
     (keys_ok (dc_manager dc) \<and>
      (\<exists>m. rs_mounts (dc_rtsp dc) = Some m \<and> om_wf m \<and> (\<forall>d. om_find (relay_path d) m = relay_of (dc_manager dc) d)))"

lemma relays_okI:
  "keys_ok (dc_manager dc) \<Longrightarrow> rs_mounts (dc_rtsp dc) = Some m \<Longrightarrow> om_wf m \<Longrightarrow>
   (\<And>d. om_find (relay_path d) m = relay_of (dc_manager dc) d) \<Longrightarrow> relays_ok dc"
  by (simp add: relays_ok_def)

lemma relays_okE:
  assumes "relays_ok dc"
  obtains m where "keys_ok (dc_manager dc)" "rs_mounts (dc_rtsp dc) = Some m" "om_wf m"
    "\<forall>d. om_find (relay_path d) m = relay_of (dc_manager dc) d"
  using assms by (auto simp: relays_ok_def)

lemma relays_ok_same:
  "dm_devices (dc_manager dc') = dm_devices (dc_manager dc) \<Longrightarrow> dc_rtsp dc' = dc_rtsp dc \<Longrightarrow>
   relays_ok dc' \<longleftrightarrow> relays_ok dc"
  by (simp add: relays_ok_def keys_ok_def relay_of_def)

lemma changed_relays: "on_device_changed dc = Inr dc' \<Longrightarrow> relays_ok dc \<Longrightarrow> relays_ok dc'"
  using relays_ok_same [of dc' dc] on_device_changed_keeps [of dc dc'] by simp

lemma relay_of_registered: "\<not> is_device_registered d dm \<Longrightarrow> relay_of dm d = None"
  by (auto simp: relay_of_def is_device_registered_def split: option.splits)

lemma relay_of_put:
  "relay_of (put_device device info dm) d =
     (if d = device then (if dev_type info = SUB_PI \<and> dev_is_online info
        then Some (pipeline_text (dev_udp_listen_port info)) else None)
      else relay_of dm d)"
  by (simp add: relay_of_def put_device_def om_find_assign)

context registration
begin

lemma found_relays:
  assumes "dc_found (device_found recover) info dc = Inr dc'" "relays_ok dc" "dev_is_online info"
  shows "relays_ok dc'"
  using assms(3)
proof (cases rule: found_cases [where dm = "dc_manager dc"])
  case known
  with assms(1) have "dc' = dc" by (simp add: dc_found_def)
  with assms(2) show ?thesis by simp
next
  case (news info')
  let ?dm = "put_device (dev_id info) info' (dc_manager dc)"
  let ?dc = "on_device_registered info' (dc\<lparr>dc_manager := ?dm\<rparr>)"
  have id: "dev_id info' = dev_id info" using news(4) assms(2) recover_id by (auto simp: relays_ok_def keys_ok_def)
  have keys: "keys_ok ?dm" using assms(2) id by (simp add: relays_ok_def keys_ok_def put_device_def om_find_assign)
  obtain m where mk: "keys_ok (dc_manager dc)" and m: "rs_mounts (dc_rtsp dc) = Some m" "om_wf m"
    "\<forall>d. om_find (relay_path d) m = relay_of (dc_manager dc) d" using assms(2) by (rule relays_okE)
  obtain m' where m': "rs_mounts (addRelayPath info' (dc_rtsp dc)) = Some m'" "om_wf m'"
    "\<forall>x. om_find (relay_path x) m' = (if x = dev_id info' \<and> dev_type info' = SUB_PI
       then Some (pipeline_text (dev_udp_listen_port info')) else om_find (relay_path x) m)"
    by (rule add_relay [OF m(1,2), of info'])
  have "om_find (relay_path d) m' = relay_of ?dm d" for d
    using m'(3) m(3) id news(2) relay_of_registered [OF news(1)] by (simp add: relay_of_put)
  with keys m'(1,2) have "relays_ok ?dc"
    by (intro relays_okI [of _ m']) (simp_all add: on_device_registered_def)
  moreover have "on_device_changed ?dc = Inr dc'" using assms(1) news(3) by (simp add: dc_found_def)
  ultimately show ?thesis by (rule changed_relays [rotated])
qed

end

section \<open>Devices that go offline\<close>

lemma set_offline_relays:
  assumes "set_offline device (removed, dm, net) = (removed', dm', net')"
  shows "relay_of dm' d = (if d = device then None else relay_of dm d)" "keys_ok dm \<Longrightarrow> keys_ok dm'"
  using assms
  by (auto simp: set_offline_def relay_of_def keys_ok_def put_device_def om_find_assign Let_def
      split: option.splits if_splits)

lemma offline_relays:
  "fold set_offline ids (removed, dm, net) = (removed', dm', net') \<Longrightarrow>
   relay_of dm' d = (if d \<in> set ids then None else relay_of dm d) \<and> (keys_ok dm \<longrightarrow> keys_ok dm')"
proof (induction ids arbitrary: removed dm net)
  case (Cons x ids)
  obtain removed1 dm1 net1 where s: "set_offline x (removed, dm, net) = (removed1, dm1, net1)"
    by (metis prod.exhaust)
  from Cons.IH [of removed1 dm1 net1] Cons.prems s set_offline_relays [OF s] show ?case by auto
qed simp

lemma set_gone: "set (gone ids S) = set ids \<inter> S"
  by (induction ids arbitrary: S) auto

lemma removed_relays:
  assumes "rs_mounts (dc_rtsp dc) = Some m" "om_wf m"
  shows "\<exists>m'. rs_mounts (dc_rtsp (fold on_device_removed ids dc)) = Some m' \<and> om_wf m' \<and>
    (\<forall>d. om_find (relay_path d) m' = (if d \<in> set ids then None else om_find (relay_path d) m))"
  using assms
proof (induction ids arbitrary: dc m)
  case (Cons x ids)
  obtain m1 where m1: "rs_mounts (dc_rtsp (on_device_removed x dc)) = Some m1" "om_wf m1"
    "\<forall>d. om_find (relay_path d) m1 = (if d = x then None else om_find (relay_path d) m)"
    by (rule remove_relay [OF Cons.prems, of x]) (simp add: on_device_removed_def that)
  from Cons.IH [OF m1(1,2)] obtain m' where "rs_mounts (dc_rtsp (fold on_device_removed ids (on_device_removed x dc))) = Some m'"
    "om_wf m'" "\<forall>d. om_find (relay_path d) m' = (if d \<in> set ids then None else om_find (relay_path d) m1)" by blast
  with m1(3) show ?case by (intro exI [of _ m']) simp
qed simp

lemma removed_manager: "dc_manager (fold on_device_removed ids dc) = dc_manager dc"
  by (induction ids arbitrary: dc) (simp_all add: on_device_removed_def)

lemma monitor_relays:
  assumes "monitor_cycle env dc = Inr dc'" "relays_ok dc"
  shows "relays_ok dc'"
proof -
  let ?off = "health_check env 0 (check_targets (dc_manager dc)) []"
  obtain removed dm net where a: "apply_offline ?off (dc_manager dc) (sp_net (dc_subpi dc)) = (removed, dm, net)"
    by (metis prod.exhaust)
  note sim = offline_simulated [OF a [unfolded apply_offline_def]]
    offline_relays [OF a [unfolded apply_offline_def]]
  let ?dc = "fold on_device_removed removed (dc\<lparr>dc_manager := dm, dc_subpi := (dc_subpi dc)\<lparr>sp_net := net\<rparr>\<rparr>)"
  obtain m where m: "keys_ok (dc_manager dc)" "rs_mounts (dc_rtsp dc) = Some m" "om_wf m"
    "\<forall>d. om_find (relay_path d) m = relay_of (dc_manager dc) d" using assms(2) by (rule relays_okE)
  have rem: "set removed = {d \<in> set ?off. is_device_registered d (dc_manager dc)}"
    using conjunct1 [OF sim(1)] by (auto simp: set_gone online_def)
  have "rs_mounts (dc_rtsp (dc\<lparr>dc_manager := dm, dc_subpi := (dc_subpi dc)\<lparr>sp_net := net\<rparr>\<rparr>)) = Some m" using m(2) by simp
  from removed_relays [OF this m(3), of removed]
  obtain m' where m': "rs_mounts (dc_rtsp ?dc) = Some m'" "om_wf m'"
    "\<forall>d. om_find (relay_path d) m' = (if d \<in> set removed then None else om_find (relay_path d) m)"
    by blast
  have "om_find (relay_path d) m' = relay_of dm d" for d
    using m'(3) m(4) sim(2) [of d] relay_of_registered [of d "dc_manager dc"] by (simp add: rem)
  with m'(1,2) m(1) sim(2) have ok: "relays_ok ?dc"
    by (intro relays_okI [of _ m']) (simp_all add: removed_manager)
  from assms(1) a obtain d1 where "d1 = dc \<or> d1 = ?dc \<or> on_device_changed ?dc = Inr d1"
    and d1: "on_device_changed d1 = Inr dc'"
    by (cases "?off = []"; cases "removed = []") (auto simp: monitor_cycle_def rbind_Inr_iff)
  then have "relays_ok d1" using assms(2) ok changed_relays by blast
  with d1 show ?thesis by (rule changed_relays)
qed

section \<open>Over all steps\<close>

lemma same_relays: "dc_same dc dc' \<Longrightarrow> relays_ok dc \<Longrightarrow> relays_ok dc'"
  using relays_ok_same [of dc' dc] by (simp add: dc_same_def)

lemma subpi_info_online: "dev_is_online (subpi_info ip port fd)"
  by (simp add: subpi_info_def)

interpretation relay_cameras: camera_invariant relays_ok
proof (unfold_locales, goal_cases)
  case (1 info dc dc')
  from hanwha.found_relays [OF 1(4) [unfolded hanwha_found_def [abs_def]] 1(5,2)] show ?case .
next
  case (2 dc sc)
  then show ?case using relays_ok_same [of "dc\<lparr>dc_onvif := sc\<rparr>" dc] by simp
qed

lemma dev_step_relays: "dev_step dc dc' \<Longrightarrow> relays_ok dc \<Longrightarrow> relays_ok dc'"
proof (induction rule: dev_step.induct)
  case (beacon sender_ip datagram sock connected dc dc')
  from beacon(2) show ?case
  proof (cases rule: dc_beacon_cases)
    case ignored
    with beacon(3) show ?thesis by (blast intro: same_relays)
  next
    case (taken d sp)
    from subpi.found_relays [OF taken(1) [unfolded subpi_found_def [abs_def]] beacon(3) subpi_info_online]
    have "relays_ok d" .
    with taken(2) relays_ok_same [of dc' d] show ?thesis by simp
  qed
next
  case (probe cam_ip shell datagram dc dc')
  then show ?case using relay_cameras.probe_keeps by blast
next
  case (arp table shell running dc dc')
  then show ?case using relay_cameras.arp_keeps by blast
next
  case (packet ret device fd errors dc go_on errors' dc')
  with relays_ok_same [of dc' dc] listener_devices [OF packet(1)] show ?case by simp
next
  case (monitor env dc dc')
  then show ?case by (rule monitor_relays)
qed (blast intro: same_relays internal_same dest: welcome_same request_same)+

lemma dev_steps_relays: "rtranclp dev_step dc0 dc \<Longrightarrow> relays_ok dc0 \<Longrightarrow> relays_ok dc"
  by (induction rule: rtranclp_induct) (auto intro: dev_step_relays)



text \<open>
  A device found before \<open>rtsp_server_.start\<close>, which \<open>run\<close> calls after discovery was started, is entered
  without a relay path; and as it is registered, no later beacon of it gives it one.
\<close>

lemma early_device_has_no_relay:
  assumes "dc_found subpi_found info dc = Inr dc1" "\<not> is_device_registered (dev_id info) (dc_manager dc)"
    and "om_find (dev_id info) (dm_devices (dc_manager dc)) = None"
    and "dev_is_online info" "rs_mounts (dc_rtsp dc) = None" "\<not> rs_running (dc_rtsp dc)"
  shows "rs_mounts (dc_rtsp (dc_start_rtsp dc1)) = Some []"
    "is_device_registered (dev_id info) (dc_manager (dc_start_rtsp dc1))"
    "dev_id info' = dev_id info \<Longrightarrow> dc_found subpi_found info' (dc_start_rtsp dc1) = Inr (dc_start_rtsp dc1)"
proof -
  let ?dc = "on_device_registered info (dc\<lparr>dc_manager := put_device (dev_id info) info (dc_manager dc)\<rparr>)"
  have "on_device_changed ?dc = Inr dc1"
    using assms(1,3) by (simp add: dc_found_def subpi_found_def device_found_def)
  from on_device_changed_keeps [OF this] assms(5)
  have d: "dc_manager dc1 = put_device (dev_id info) info (dc_manager dc)" "dc_rtsp dc1 = dc_rtsp dc"
    by (simp_all add: on_device_registered_def addRelayPath_def)
  then show "rs_mounts (dc_rtsp (dc_start_rtsp dc1)) = Some []"
    using assms(5,6) by (simp add: dc_start_rtsp_def rtsp_start_def)
  have f: "om_find (dev_id info) (dm_devices (dc_manager (dc_start_rtsp dc1))) = Some info"
    by (simp add: d dc_start_rtsp_def put_device_def om_find_assign)
  then show "is_device_registered (dev_id info) (dc_manager (dc_start_rtsp dc1))"
    using assms(4) by (simp add: is_device_registered_def)
  show "dev_id info' = dev_id info \<Longrightarrow> dc_found subpi_found info' (dc_start_rtsp dc1) = Inr (dc_start_rtsp dc1)"
    using f assms(4) by (simp add: dc_found_def subpi_found_def device_found_def)
qed

end
