(* ===== verification/SubPiPorts.thy ===== *)
theory SubPiPorts
  imports Relays
begin

text \<open>
  The UDP ports that Sub-Pis stream to: \<open>next_port_\<close> of \<open>SubPiManager\<close> against the device table of
  \<open>DeviceManager\<close>, over all steps of the DeviceServer.
\<close>

definition port_of :: "device_manager \<Rightarrow> string \<Rightarrow> int option" where
  "port_of dm d =
     (case om_find d (dm_devices dm) of
        Some info \<Rightarrow> if dev_type info = SUB_PI then Some (dev_udp_listen_port info) else None
      | None \<Rightarrow> None)"

definition ports_below :: "int \<Rightarrow> device_manager \<Rightarrow> bool" where
  "ports_below n dm =
     ((\<forall>d p. port_of dm d = Some p \<longrightarrow> 15001 \<le> p \<and> p < n)
      \<and> (\<forall>d e p. port_of dm d = Some p \<longrightarrow> port_of dm e = Some p \<longrightarrow> d = e))"

definition ports_ok :: "device_controller \<Rightarrow> bool" where
  "ports_ok dc = (15001 \<le> sp_next_port (dc_subpi dc) \<and> ports_below (sp_next_port (dc_subpi dc)) (dc_manager dc))"

lemma port_of_put:
  "port_of (put_device device info dm) d =
     (if d = device then (if dev_type info = SUB_PI then Some (dev_udp_listen_port info) else None)
      else port_of dm d)"
  by (simp add: port_of_def put_device_def om_find_assign)

lemma ports_below_fresh:
  assumes "ports_below n dm" "15001 \<le> n" "port_of dm' device = Some n \<or> port_of dm' device = None"
    "\<And>d. d \<noteq> device \<Longrightarrow> port_of dm' d = port_of dm d"
  shows "ports_below (n + 1) dm'"
proof -
  have "15001 \<le> p \<and> p < n + 1" if "port_of dm' d = Some p" for d p
  proof (cases "d = device")
    case True
    with that assms(2,3) show ?thesis by auto
  next
    case False
    with that assms(4) have "port_of dm d = Some p" by simp
    with assms(1) show ?thesis by (force simp: ports_below_def)
  qed
  moreover have "d = e" if "port_of dm' d = Some p" "port_of dm' e = Some p" for d e p
  proof (rule ccontr)
    have old: "p < n" if "port_of dm x = Some p" for x using assms(1) that by (simp add: ports_below_def)
    assume "d \<noteq> e"
    with that assms(3,4) old have "port_of dm d = Some p \<and> port_of dm e = Some p"
      by (metis option.distinct(1) option.inject less_irrefl)
    with assms(1) \<open>d \<noteq> e\<close> show False by (auto simp: ports_below_def)
  qed
  ultimately show ?thesis unfolding ports_below_def by blast
qed

lemma ports_below_same:
  assumes "ports_below n dm" "\<And>d. port_of dm' d = port_of dm d"
  shows "ports_below n dm'"
  using assms by (simp add: ports_below_def)

lemma set_offline_port:
  "set_offline device (removed, dm, net) = (removed', dm', net') \<Longrightarrow> port_of dm' d = port_of dm d"
  by (auto simp: set_offline_def port_of_def put_device_def om_find_assign Let_def split: option.splits if_splits)

lemma offline_ports:
  "fold set_offline ids (removed, dm, net) = (removed', dm', net') \<Longrightarrow> port_of dm' d = port_of dm d"
proof (induction ids arbitrary: removed dm net)
  case (Cons x ids)
  obtain removed1 dm1 net1 where s: "set_offline x (removed, dm, net) = (removed1, dm1, net1)"
    by (metis prod.exhaust)
  from Cons.IH [of removed1 dm1 net1] Cons.prems s set_offline_port [OF s] show ?case by simp
qed simp

text \<open>What discovery does to the table, and that the callbacks leave it and the counter alone.\<close>

lemma dc_found_keeps:
  assumes "dc_found found info dc = Inr dc'"
  shows "dc_manager dc' = snd (found info (dc_manager dc)) \<and> dc_subpi dc' = dc_subpi dc"
  using assms on_device_changed_keeps
  by (auto simp: dc_found_def on_device_registered_def split: prod.splits option.splits)

lemma subpi_found_ports:
  assumes "ports_below n dm" "15001 \<le> n" "dev_type info = SUB_PI" "dev_udp_listen_port info = n"
  shows "ports_below (n + 1) (snd (subpi_found info dm))"
proof (cases "snd (subpi_found info dm) = dm")
  case True
  with assms(1) show ?thesis unfolding ports_below_def by force
next
  case False
  then have "port_of (snd (subpi_found info dm)) (dev_id info) \<in> {Some n, None}"
    "\<And>d. d \<noteq> dev_id info \<Longrightarrow> port_of (snd (subpi_found info dm)) d = port_of dm d"
    using assms(3,4)
    by (auto simp: subpi_found_def device_found_def port_of_put recover_subpi_def Let_def split: option.splits)
  with assms(1,2) show ?thesis by (intro ports_below_fresh [of n dm _ "dev_id info"]) auto
qed

lemma hanwha_found_ports:
  assumes "dev_type info = HANWHA"
  shows "port_of (snd (hanwha_found info dm)) d = port_of dm d"
  using assms
  by (auto simp: hanwha_found_def device_found_def recover_hanwha_def port_of_def put_device_def
      om_find_assign Let_def split: option.splits)

lemma monitor_ports:
  assumes "monitor_cycle env dc = Inr dc'"
  shows "port_of (dc_manager dc') d = port_of (dc_manager dc) d \<and>
    sp_next_port (dc_subpi dc') = sp_next_port (dc_subpi dc)"
proof -
  let ?off = "health_check env 0 (check_targets (dc_manager dc)) []"
  obtain removed dm net where a: "apply_offline ?off (dc_manager dc) (sp_net (dc_subpi dc)) = (removed, dm, net)"
    by (metis prod.exhaust)
  let ?dc = "fold on_device_removed removed (dc\<lparr>dc_manager := dm, dc_subpi := (dc_subpi dc)\<lparr>sp_net := net\<rparr>\<rparr>)"
  have sub: "dc_subpi (fold on_device_removed ids d) = dc_subpi d" for ids d
    by (induction ids arbitrary: d) (simp_all add: on_device_removed_def)
  have "port_of (dc_manager ?dc) d = port_of (dc_manager dc) d"
    "sp_next_port (dc_subpi ?dc) = sp_next_port (dc_subpi dc)"
    using offline_ports [OF a [unfolded apply_offline_def]] by (simp_all add: removed_manager sub)
  moreover from assms a obtain d1 where "d1 = dc \<or> d1 = ?dc \<or> on_device_changed ?dc = Inr d1"
    and "on_device_changed d1 = Inr dc'"
    by (cases "?off = []"; cases "removed = []") (auto simp: monitor_cycle_def rbind_Inr_iff)
  ultimately show ?thesis using on_device_changed_keeps [of ?dc d1] on_device_changed_keeps [of d1 dc'] by auto
qed

lemma same_ports: "dc_same dc dc' \<Longrightarrow> ports_ok dc \<Longrightarrow> ports_ok dc'"
  by (simp add: dc_same_def ports_ok_def)

interpretation port_cameras: camera_invariant ports_ok
proof (unfold_locales, goal_cases)
  case (1 info dc dc')
  from dc_found_keeps [OF 1(4)] hanwha_found_ports [OF 1(3)] 1(5) show ?case
    by (simp add: ports_ok_def ports_below_def)
qed (simp add: ports_ok_def)

lemma dev_step_ports: "dev_step dc dc' \<Longrightarrow> ports_ok dc \<Longrightarrow> ports_ok dc'"
proof (induction rule: dev_step.induct)
  case (beacon sender_ip datagram sock connected dc dc')
  from beacon(2) show ?case
  proof (cases rule: dc_beacon_cases)
    case ignored
    with beacon(3) show ?thesis by (blast intro: same_ports)
  next
    case (taken d sp)
    have i: "dev_type (subpi_info ip p fd) = SUB_PI" "dev_udp_listen_port (subpi_info ip p fd) = p" for ip p fd
      by (simp_all add: subpi_info_def default_device_info_def)
    from subpi_found_ports [OF _ _ i, of "sp_next_port (dc_subpi dc)" "dc_manager dc"] beacon(3) taken
      dc_found_keeps [OF taken(1)] show ?thesis by (simp add: ports_ok_def)
  qed
next
  case (probe cam_ip shell datagram dc dc')
  then show ?case using port_cameras.probe_keeps by blast
next
  case (arp table shell running dc dc')
  then show ?case using port_cameras.arp_keeps by blast
next
  case (packet ret device fd errors dc go_on errors' dc')
  with listener_devices [OF packet(1)] show ?case by (simp add: ports_ok_def ports_below_def port_of_def)
next
  case (monitor env dc dc')
  with monitor_ports [OF monitor(1)] show ?case by (simp add: ports_ok_def ports_below_def)
qed (blast intro: same_ports internal_same dest: welcome_same request_same)+



end
