(* ===== verification/CameraQueries.thy ===== *)
theory CameraQueries
  imports OnvifScanner
begin

text \<open>
  Which cameras the scanner thread queries and reports. The callback is any that keeps an
  invariant of its state as long as it is not called for one address.
\<close>

lemma fail_count_assign [simp]:
  "fail_count ip (sc\<lparr>on_fail_count := om_assign d n m\<rparr>) =
     (if ip = d then n else fail_count ip (sc\<lparr>on_fail_count := m\<rparr>))"
  by (simp add: fail_count_def om_find_assign)

lemma fail_count_same [simp]: "fail_count ip (sc\<lparr>on_fail_count := on_fail_count sc\<rparr>) = fail_count ip sc"
  by (simp add: fail_count_def)

lemma camera_info_ip [simp]: "dev_ip (camera_info ip i url) = ip"
  by (simp add: camera_info_def)

section \<open>URLs\<close>

lemma take_line_Nil [simp]: "take_line n [] = []"
  by (cases n) simp_all

lemma channel_urls_length: "length (channel_urls shell sc ip chs) \<le> length chs"
  by (induction chs) (auto simp: Let_def split: option.split)

lemma getRtspUrls_length: "length (getRtspUrls shell sc ip) \<le> 4"
  using channel_urls_length [of shell sc ip "[0, 1, 2, 3]"] by (simp add: getRtspUrls_def)

section \<open>Reports\<close>

definition spares :: "(device_info \<Rightarrow> 'w \<Rightarrow> exn + 'w) \<Rightarrow> string \<Rightarrow> ('w \<Rightarrow> bool) \<Rightarrow> bool" where
  "spares found ip P = (\<forall>info w w'. dev_ip info \<noteq> ip \<longrightarrow> found info w = Inr w' \<longrightarrow> P w \<longrightarrow> P w')"

lemma report_cameras_spares:
  "report_cameras found cam i urls w = Inr w' \<Longrightarrow> spares found ip P \<Longrightarrow> cam \<noteq> ip \<Longrightarrow> P w \<Longrightarrow> P w'"
proof (induction urls arbitrary: i w)
  case (Cons url urls)
  from Cons.prems obtain w1 where f: "found (camera_info cam i url) w = Inr w1"
    and rest: "report_cameras found cam (Suc i) urls w1 = Inr w'" by (auto simp: rbind_Inr_iff)
  have "P w1" using Cons.prems(2) [unfolded spares_def, rule_format, OF _ f] Cons.prems(3,4) by simp
  from Cons.IH [OF rest Cons.prems(2,3) this] show ?case .
qed simp

text \<open>What holds of the scanner and the callbacks' state once a query of \<open>ip\<close> failed.\<close>

definition blocked :: "string \<Rightarrow> ('w \<Rightarrow> bool) \<Rightarrow> onvif_scanner \<times> 'w \<Rightarrow> bool" where
  "blocked ip P st = (1 \<le> fail_count ip (fst st) \<and> P (snd st))"

lemma try_camera_blocked:
  assumes "try_camera shell is_registered found cam st = Inr st'" "spares found ip P" "blocked ip P st"
  shows "blocked ip P st'"
proof (cases "cam = ip")
  case True
  with assms(1,3) show ?thesis
    by (cases st) (auto simp: try_camera_def blocked_def Let_def split: if_splits)
next
  case False
  with assms show ?thesis
    by (cases st) (auto simp: try_camera_def blocked_def Let_def rbind_Inr_iff
        split: if_splits dest: report_cameras_spares)
qed

lemma probe_answers_blocked:
  "probe_answers shell is_registered found answers st = Inr st' \<Longrightarrow> spares found ip P \<Longrightarrow>
   blocked ip P st \<Longrightarrow> blocked ip P st'"
proof (induction answers arbitrary: st)
  case (Cons a answers)
  obtain datagram cam where a: "a = (datagram, cam)" by force
  with Cons.prems(1) obtain st1 where p: "probe_answer shell is_registered found datagram cam st = Inr st1"
    and rest: "probe_answers shell is_registered found answers st1 = Inr st'" by (auto simp: rbind_Inr_iff)
  have "blocked ip P st1"
    using p try_camera_blocked [OF _ Cons.prems(2,3)] Cons.prems(3) by (auto simp: probe_answer_def split: if_splits)
  from Cons.IH [OF rest Cons.prems(2) this] show ?case .
qed simp

lemma arp_scan_blocked:
  "arp_scan shell is_registered found ips st = Inr st' \<Longrightarrow> spares found ip P \<Longrightarrow>
   blocked ip P st \<Longrightarrow> blocked ip P st'"
proof (induction ips arbitrary: st)
  case (Cons cam ips)
  then obtain st1 where "try_camera shell is_registered found cam st = Inr st1"
    "arp_scan shell is_registered found ips st1 = Inr st'" by (auto simp: rbind_Inr_iff)
  with Cons.IH Cons.prems(2,3) try_camera_blocked show ?case by blast
qed simp

lemma scan_turns_blocked:
  "scan_turns shell is_registered found inps st = Inr (sent, st') \<Longrightarrow> spares found ip P \<Longrightarrow>
   blocked ip P st \<Longrightarrow> blocked ip P st' \<and> sent = replicate (length inps) ONVIF_PROBE_MSG"
proof (induction inps arbitrary: st sent)
  case (Cons inp inps)
  from Cons.prems(1) obtain st0 st1 sent1 where
    a: "probe_answers shell is_registered found (si_answers inp) st = Inr st0"
    and b: "arpFallbackScan shell is_registered found (si_arp inp) (si_running inp) st0 = Inr st1"
    and c: "scan_turns shell is_registered found inps st1 = Inr (sent1, st')" "sent = ONVIF_PROBE_MSG # sent1"
    by (auto simp: scan_turn_def rbind_Inr_iff)
  have "blocked ip P st1"
    using arp_scan_blocked [OF b [unfolded arpFallbackScan_def] Cons.prems(2)
        probe_answers_blocked [OF a Cons.prems(2,3)]] .
  from Cons.IH [OF c(1) Cons.prems(2) this] c(2) show ?case by simp
qed simp

text \<open>
  C40: a camera whose first query fails is lost for the life of the process. Nothing that arrives
  later, by probe answer or in the ARP table, in whatever turn of the scanner thread, makes it
  reported to the device manager, also when it would answer by then (\<open>shell\<close> is arbitrary). The
  record is a callback that collects what is reported.
\<close>

theorem failed_camera_never_reported:
  assumes "try_camera shell0 is_registered (\<lambda>info log. Inr (log @ [info])) ip (sc0, log0) = Inr (sc1, log0)"
    and "\<not> is_registered (camera_id ip 0) log0"
    and "runScan shell is_registered (\<lambda>info log. Inr (log @ [info])) sockfd inps (sc1, log0) = Inr (sent, sc2, log)"
  shows "\<forall>info \<in> set log. dev_ip info = ip \<longrightarrow> info \<in> set log0"
proof -
  let ?found = "\<lambda>info log. Inr (log @ [info]) :: exn + device_info list"
  let ?P = "\<lambda>log. \<forall>info \<in> set log. dev_ip info = ip \<longrightarrow> info \<in> set log0"
  have grows: "report_cameras ?found ip i urls w = Inr w' \<Longrightarrow> length w' = length w + length urls" for i urls w w'
    by (induction urls arbitrary: i w) auto
  have "1 \<le> fail_count ip sc1"
    using assms(1,2) grows [of 0 _ log0 log0]
    by (auto simp: try_camera_def Let_def rbind_Inr_iff split: if_splits)
  then have "blocked ip ?P (sc1, log0)" by (simp add: blocked_def)
  moreover have "spares ?found ip ?P" by (auto simp: spares_def)
  ultimately have "blocked ip ?P (sc2, log)"
    using assms(3) scan_turns_blocked [of shell is_registered ?found inps "(sc1, log0)" sent "(sc2, log)" ip ?P]
    by (auto simp: runScan_def split: if_splits)
  then show ?thesis by (simp add: blocked_def)
qed

text \<open>A camera that is asked once too early, and answers ever after.\<close>

definition silent_shell :: "string \<Rightarrow> string option" where
  "silent_shell cmd = Some []"

definition ready_shell :: "string \<Rightarrow> string option" where
  "ready_shell cmd = Some ''rtsp://10.0.0.9:554/0/profile5''"

theorem failed_camera_never_reported_witness:
  "\<exists>sc1 sc2 sent log. try_camera silent_shell (\<lambda>_ _. False) (\<lambda>info log. Inr (log @ [info])) ''10.0.0.9'' (onvif_init, []) = Inr (sc1, [])
     \<and> runScan ready_shell (\<lambda>_ _. False) (\<lambda>info log. Inr (log @ [info])) 3
        [\<lparr>si_answers = [(''ProbeMatch'', ''10.0.0.9'')], si_arp = None, si_running = 9\<rparr>] (sc1, []) = Inr (sent, sc2, log)
     \<and> (\<forall>info \<in> set log. dev_ip info \<noteq> ''10.0.0.9'')"
proof -
  let ?found = "\<lambda>info log. Inr (log @ [info]) :: exn + device_info list"
  define sc1 where "sc1 = onvif_init\<lparr>on_fail_count := [(''10.0.0.9'', 1)]\<rparr>"
  have a: "try_camera silent_shell (\<lambda>_ _. False) ?found ''10.0.0.9'' (onvif_init, []) = Inr (sc1, [])"
    by (simp add: try_camera_def sc1_def onvif_init_def fail_count_def getRtspUrls_def silent_shell_def
        strip_eols_def fgets_text_def url_failed_def getSingleRtspUrl_def strip_one_newline_def Let_def)
  have b: "\<exists>sc2 sent log. runScan ready_shell (\<lambda>_ _. False) ?found 3
      [\<lparr>si_answers = [(''ProbeMatch'', ''10.0.0.9'')], si_arp = None, si_running = 9\<rparr>] (sc1, []) = Inr (sent, sc2, log)"
    by (simp add: runScan_def scan_turn_def probe_answer_def try_camera_def sc1_def fail_count_def
        arpFallbackScan_def getHanwhaIpsFromArp_def Let_def)
  then obtain sc2 sent log where r: "runScan ready_shell (\<lambda>_ _. False) ?found 3
      [\<lparr>si_answers = [(''ProbeMatch'', ''10.0.0.9'')], si_arp = None, si_running = 9\<rparr>] (sc1, []) = Inr (sent, sc2, log)"
    by blast
  from failed_camera_never_reported [OF a _ r] a r show ?thesis by fastforce
qed

end
