(* ===== verification/SessionOwners.thy ===== *)
theory SessionOwners
  imports Tls
begin

text \<open>
  Who frees the \<open>SSL\<close> objects of \<open>crypt/tls.hpp\<close>. \<open>Session\<close> objects live at addresses; a program
  constructs, moves, assigns and destroys them in any order the language allows. The connection
  state is the number of the \<open>SSL\<close> object here, so that two owners of one object can be told.
\<close>

section \<open>Programs of sessions\<close>

record owners =
  slots :: "nat \<rightharpoonup> nat session"
  freed :: "nat list"
  next_ssl :: nat

datatype session_op =
    Construct nat bool
  | MoveConstruct nat nat
  | Assign nat nat
  | Destroy nat

definition no_owners :: owners where
  "no_owners = \<lparr>slots = Map.empty, freed = [], next_ssl = 0\<rparr>"

text \<open>
  \<open>None\<close> where the language does not allow the step: a constructor runs where no object lives, the
  rest on living objects. The flag of \<open>Construct\<close> says whether \<open>SSL_new\<close> and \<open>BIO_new\<close> succeeded.
\<close>

fun own_step :: "session_op \<Rightarrow> owners \<Rightarrow> owners option" where
  "own_step (Construct p made) st =
     (if slots st p \<noteq> None then None
      else if made then Some (st\<lparr>slots := (slots st)(p \<mapsto> Some (next_ssl st)), next_ssl := Suc (next_ssl st)\<rparr>)
      else Some (st\<lparr>slots := (slots st)(p \<mapsto> None)\<rparr>))"
| "own_step (MoveConstruct p q) st =
     (if slots st p \<noteq> None then None
      else (case slots st q of
              None \<Rightarrow> None
            | Some other \<Rightarrow>
              (case move_session other of
                 (this, other') \<Rightarrow> Some (st\<lparr>slots := (slots st)(p \<mapsto> this, q \<mapsto> other')\<rparr>))))"
| "own_step (Assign p q) st =
     (case (slots st p, slots st q) of
        (Some this, Some other) \<Rightarrow>
          (case assign_session (p = q) this other of
             (fs, this', other') \<Rightarrow>
               Some (st\<lparr>slots := (slots st)(q \<mapsto> other', p \<mapsto> this'), freed := freed st @ fs\<rparr>))
      | _ \<Rightarrow> None)"
| "own_step (Destroy p) st =
     (case slots st p of
        None \<Rightarrow> None
      | Some ss \<Rightarrow> Some (st\<lparr>slots := (slots st)(p := None), freed := freed st @ fst (cleanup ss)\<rparr>))"

fun own_run :: "session_op list \<Rightarrow> owners \<Rightarrow> owners option" where
  "own_run [] st = Some st"
| "own_run (x # xs) st = Option.bind (own_step x st) (own_run xs)"

section \<open>One owner each\<close>

definition owns :: "owners \<Rightarrow> nat \<Rightarrow> nat \<Rightarrow> bool" where
  "owns st p k = (slots st p = Some (Some k))"

text \<open>Every object made so far is held by exactly one session or was freed exactly once.\<close>

definition owned_once :: "owners \<Rightarrow> bool" where
  "owned_once st =
     (distinct (freed st)
      \<and> (\<forall>k. k < next_ssl st \<longleftrightarrow> k \<in> set (freed st) \<or> (\<exists>p. owns st p k))
      \<and> (\<forall>p k. owns st p k \<longrightarrow> k \<notin> set (freed st))
      \<and> (\<forall>p q k. owns st p k \<longrightarrow> owns st q k \<longrightarrow> p = q))"

lemma owned_onceI:
  assumes "distinct (freed st)"
    and "\<And>k. k < next_ssl st \<Longrightarrow> k \<in> set (freed st) \<or> (\<exists>p. owns st p k)"
    and "\<And>k. k \<in> set (freed st) \<Longrightarrow> k < next_ssl st"
    and "\<And>p k. owns st p k \<Longrightarrow> k < next_ssl st \<and> k \<notin> set (freed st)"
    and "\<And>p q k. owns st p k \<Longrightarrow> owns st q k \<Longrightarrow> p = q"
  shows "owned_once st"
  using assms unfolding owned_once_def by blast

lemma owned_onceD:
  assumes "owned_once st"
  shows "distinct (freed st)"
    and "k < next_ssl st \<Longrightarrow> k \<in> set (freed st) \<or> (\<exists>p. owns st p k)"
    and "k \<in> set (freed st) \<Longrightarrow> k < next_ssl st"
    and "owns st p k \<Longrightarrow> k < next_ssl st"
    and "owns st p k \<Longrightarrow> k \<notin> set (freed st)"
    and "owns st p k \<Longrightarrow> owns st q k \<Longrightarrow> p = q"
  using assms unfolding owned_once_def by blast+

text \<open>Nothing changes for the objects when a session is renamed, which is what a move does.\<close>

lemma owned_once_rename:
  assumes "owned_once st" "freed st' = freed st" "next_ssl st' = next_ssl st"
    and "\<And>r k. owns st' r k \<longleftrightarrow> owns st (f r) k" "inj f" "\<And>r k. owns st r k \<Longrightarrow> r \<in> range f"
  shows "owned_once st'"
proof (rule owned_onceI)
  show "k \<in> set (freed st') \<or> (\<exists>p. owns st' p k)" if "k < next_ssl st'" for k
    using owned_onceD(2) [OF assms(1), of k] that assms(2,3,4,6) by fastforce
  show "p = q" if "owns st' p k" "owns st' q k" for p q k
    using owned_onceD(6) [OF assms(1)] that assms(4) injD [OF assms(5)] by blast
qed (use assms(2,3,4) owned_onceD [OF assms(1)] in auto)

text \<open>What a destructor or an assignment does to the session it overwrites.\<close>

lemma owned_once_drop:
  assumes "owned_once st" "slots st p = Some ss" and that: "\<forall>k. new \<noteq> Some (Some k)"
  shows "owned_once (st\<lparr>slots := (slots st)(p := new), freed := freed st @ fst (cleanup ss)\<rparr>)"
proof (cases ss)
  case None
  have "owns (st\<lparr>slots := (slots st)(p := new), freed := freed st @ fst (cleanup ss)\<rparr>) = owns st"
    using assms(2) that None by (auto simp: owns_def fun_eq_iff)
  with assms(1) None show ?thesis by (simp add: owned_once_def cleanup_def)
next
  case (Some j)
  let ?st' = "st\<lparr>slots := (slots st)(p := new), freed := freed st @ fst (cleanup ss)\<rparr>"
  have j: "owns st p j" using assms(2) Some by (simp add: owns_def)
  have o: "owns ?st' r k \<longleftrightarrow> r \<noteq> p \<and> owns st r k" for r k
    using that by (auto simp: owns_def)
  have f: "freed ?st' = freed st @ [j]" using Some by (simp add: cleanup_def)
  show ?thesis
  proof (rule owned_onceI)
    show "k \<in> set (freed ?st') \<or> (\<exists>r. owns ?st' r k)" if "k < next_ssl ?st'" for k
      using owned_onceD(2) [OF assms(1), of k] that j
      by (auto simp: f o) (metis assms(2) Some option.inject owns_def)
    show "owns ?st' r k \<Longrightarrow> k < next_ssl ?st' \<and> k \<notin> set (freed ?st')" for r k
      using owned_onceD(4,5) [OF assms(1)] owned_onceD(6) [OF assms(1) j] by (auto simp: f o)
  qed (use owned_onceD [OF assms(1)] j in \<open>auto simp: f o\<close>)
qed

text \<open>The steps one by one.\<close>

lemma owned_once_construct:
  assumes "owned_once st" "slots st p = None"
  shows "owned_once (st\<lparr>slots := (slots st)(p \<mapsto> Some (next_ssl st)), next_ssl := Suc (next_ssl st)\<rparr>)"
    (is "owned_once ?st'")
proof -
  have o: "owns ?st' r k \<longleftrightarrow> (if r = p then k = next_ssl st else owns st r k)" for r k
    by (auto simp: owns_def)
  have np: "\<not> owns st p k" for k using assms(2) by (simp add: owns_def)
  show ?thesis
  proof (rule owned_onceI)
    show "k \<in> set (freed ?st') \<or> (\<exists>r. owns ?st' r k)" if "k < next_ssl ?st'" for k
    proof (cases "k = next_ssl st")
      case True
      then have "owns ?st' p k" by (simp add: o)
      then show ?thesis by blast
    next
      case False
      with that owned_onceD(2) [OF assms(1), of k] consider "k \<in> set (freed st)" | r where "owns st r k"
        by (auto simp: less_Suc_eq)
      then show ?thesis using o np by cases (simp, metis)
    qed
    show "owns ?st' r k \<Longrightarrow> k < next_ssl ?st' \<and> k \<notin> set (freed ?st')" for r k
      using owned_onceD(3,4,5) [OF assms(1)] unfolding o by (auto split: if_splits dest: less_SucI)
    show "owns ?st' r k \<Longrightarrow> owns ?st' q k \<Longrightarrow> r = q" for r q k
      using owned_onceD(4,6) [OF assms(1)] unfolding o by (auto split: if_splits)
  qed (use owned_onceD [OF assms(1)] in \<open>auto intro: less_SucI\<close>)
qed

lemma owned_once_move:
  assumes "owned_once st" "slots st q = Some ss" "slots st p = None \<or> slots st p = Some None" "p \<noteq> q"
  shows "owned_once (st\<lparr>slots := (slots st)(p \<mapsto> ss, q \<mapsto> None)\<rparr>)"
  by (rule owned_once_rename [OF assms(1), where f = "id(p := q, q := p)"])
    (use assms(2-4) in \<open>auto simp: owns_def inj_on_def\<close>)

lemma owned_once_assign:
  assumes "owned_once st" "slots st p = Some this" "slots st q = Some other" "p \<noteq> q"
  shows "owned_once (st\<lparr>slots := (slots st)(q \<mapsto> None, p \<mapsto> other), freed := freed st @ fst (cleanup this)\<rparr>)"
    (is "owned_once ?st'")
proof -
  let ?mid = "st\<lparr>slots := (slots st)(p := Some None), freed := freed st @ fst (cleanup this)\<rparr>"
  have "owned_once ?mid" by (rule owned_once_drop [OF assms(1,2)]) simp
  from owned_once_move [OF this, of q other p] assms(3,4)
  have "owned_once (?mid\<lparr>slots := (slots ?mid)(p \<mapsto> other, q \<mapsto> None)\<rparr>)" by simp
  moreover have "?mid\<lparr>slots := (slots ?mid)(p \<mapsto> other, q \<mapsto> None)\<rparr> = ?st'"
    using assms(4) by (simp add: fun_upd_twist)
  ultimately show ?thesis by simp
qed

lemma owned_once_step:
  assumes "owned_once st" "own_step x st = Some st'"
  shows "owned_once st'"
proof (cases x)
  case (Construct p made)
  show ?thesis
  proof (cases made)
    case True
    with Construct assms owned_once_construct [OF assms(1), of p] show ?thesis by (auto split: if_splits)
  next
    case False
    with assms(2) Construct have "owns st' = owns st" "freed st' = freed st" "next_ssl st' = next_ssl st"
      by (auto simp: owns_def fun_eq_iff split: if_splits)
    with assms(1) show ?thesis by (simp add: owned_once_def)
  qed
next
  case (MoveConstruct p q)
  with assms(2) obtain ss where "slots st q = Some ss" "slots st p = None"
    "st' = st\<lparr>slots := (slots st)(p \<mapsto> ss, q \<mapsto> None)\<rparr>"
    by (auto simp: move_session_def split: if_splits option.splits)
  with owned_once_move [OF assms(1), of q ss p] show ?thesis by (cases "p = q") auto
next
  case (Assign p q)
  with assms(2) obtain this other where "slots st p = Some this" "slots st q = Some other"
    by (auto split: option.splits)
  with Assign assms owned_once_assign [OF assms(1), of p this q other] show ?thesis
    by (cases "p = q") (auto simp: assign_session_def fun_upd_idem)
next
  case (Destroy p)
  with assms(2) obtain ss where "slots st p = Some ss"
    and st': "st' = st\<lparr>slots := (slots st)(p := None), freed := freed st @ fst (cleanup ss)\<rparr>"
    by (auto split: option.splits)
  from owned_once_drop [OF assms(1) this(1), of None] show ?thesis by (simp add: st')
qed

lemma owned_once_run: "owned_once st \<Longrightarrow> own_run xs st = Some st' \<Longrightarrow> owned_once st'"
  by (induction xs arbitrary: st) (auto simp: Option.bind_eq_Some_conv intro: owned_once_step)

lemma owned_once_init: "owned_once no_owners"
  by (simp add: owned_once_def no_owners_def owns_def)


definition one_program :: "session_op list" where
  "one_program = [Construct 0 True, MoveConstruct 1 0, Construct 2 True, Construct 3 False,
     Assign 1 2, Assign 1 1, Destroy 2, Destroy 3, Destroy 1, Destroy 0]"


end
