(* ===== verification/Dtls.thy ===== *)
theory Dtls
  imports Tls
begin

text \<open>
  \<open>crypt/dtls.hpp\<close>: the datagram twin of \<open>crypt/tls.hpp\<close>. The calls on a connection are the record
  of \<open>ssl_ops\<close>; what DTLS adds to them is a second record. The buffers are pointers
  with a length, so the null pointer and lengths below one are arguments here.
\<close>

section \<open>Contexts\<close>

text \<open>The key is not matched against the certificate, and what loading returns is only logged.\<close>

definition ServerContext_dtls ::
    "ctx_env \<Rightarrow> string option \<Rightarrow> string option \<Rightarrow> string option \<Rightarrow> ssl_ctx option" where
  "ServerContext_dtls env certfile keyfile cafile =
     (if \<not> env_ctx_new env then None
      else Some \<lparr>ctx_cert = load_file (env_cert_ok env) certfile,
                 ctx_key = load_file (env_key_ok env) keyfile,
                 ctx_ca = load_file (env_ca_ok env) cafile,
                 ctx_verify_peer = (cafile \<noteq> None),
                 ctx_fail_if_no_peer_cert = (cafile \<noteq> None)\<rparr>)"

definition ClientContext_dtls ::
    "ctx_env \<Rightarrow> string option \<Rightarrow> string option \<Rightarrow> string option \<Rightarrow> ssl_ctx option" where
  "ClientContext_dtls env certfile keyfile cafile =
     (if \<not> env_ctx_new env then None
      else Some \<lparr>ctx_cert = load_file (env_cert_ok env) certfile,
                 ctx_key = load_file (env_key_ok env) keyfile,
                 ctx_ca = load_file (env_ca_ok env) cafile,
                 ctx_verify_peer = (cafile \<noteq> None),
                 ctx_fail_if_no_peer_cert = False\<rparr>)"

section \<open>Sessions\<close>

record 's dtls_ops =
  SSL_new_ctx :: "bool \<Rightarrow> 's option"
  DTLS_set_link_mtu :: "nat \<Rightarrow> 's \<Rightarrow> 's"
  SSL_current_cipher :: "'s \<Rightarrow> string option"

definition link_mtu :: nat where
  "link_mtu = 1200"

text \<open>The context may be null here, and the BIOs are not looked at.\<close>

definition new_dtls_session :: "'s ssl_ops \<Rightarrow> 's dtls_ops \<Rightarrow> bool \<Rightarrow> bool \<Rightarrow> 's session" where
  "new_dtls_session ops dops ctx isServer =
     (case SSL_new_ctx dops ctx of
        None \<Rightarrow> None
      | Some s \<Rightarrow>
        (let s1 = DTLS_set_link_mtu dops link_mtu s
         in Some (if isServer then SSL_set_accept_state ops s1 else SSL_set_connect_state ops s1)))"

definition cleanup_dtls :: "'s session \<Rightarrow> 's list \<times> 's session" where
  "cleanup_dtls ss = (case ss of None \<Rightarrow> ([], None) | Some s \<Rightarrow> ([s], None))"

definition move_dtls :: "'s session \<Rightarrow> 's session \<times> 's session" where
  "move_dtls other = (other, None)"

definition assign_dtls ::
    "bool \<Rightarrow> 's session \<Rightarrow> 's session \<Rightarrow> 's list \<times> 's session \<times> 's session" where
  "assign_dtls same this other =
     (if same then ([], this, other) else (fst (cleanup_dtls this), other, None))"

definition isHandshakeDone_dtls :: "'s ssl_ops \<Rightarrow> 's session \<Rightarrow> bool" where
  "isHandshakeDone_dtls ops ss = (case ss of None \<Rightarrow> False | Some s \<Rightarrow> SSL_is_init_finished ops s)"

definition getNegotiatedCipher :: "'s ssl_ops \<Rightarrow> 's dtls_ops \<Rightarrow> 's session \<Rightarrow> string" where
  "getNegotiatedCipher ops dops ss =
     (if \<not> isHandshakeDone_dtls ops ss then ''Not Negotiated Yet''
      else (case SSL_current_cipher dops (the ss) of None \<Rightarrow> ''Unknown'' | Some c \<Rightarrow> c))"

definition flushWriteBio_dtls :: "'s ssl_ops \<Rightarrow> 's \<Rightarrow> bytes \<times> 's" where
  "flushWriteBio_dtls ops s =
     (let pending = BIO_pending ops s
      in if 0 < pending then
           (case BIO_read ops pending s of
              ((n, bs), s') \<Rightarrow> if 0 < n then (take (nat n) bs, s') else ([], s'))
         else ([], s))"

definition Handshake_dtls :: "'s ssl_ops \<Rightarrow> bytes \<Rightarrow> 's session \<Rightarrow> bytes \<times> 's session" where
  "Handshake_dtls ops incoming ss =
     (case ss of
        None \<Rightarrow> ([], None)
      | Some s \<Rightarrow>
        (let s1 = (if incoming \<noteq> [] then snd (BIO_write ops incoming s) else s);
             s2 = (if SSL_is_init_finished ops s1 then s1 else snd (SSL_do_handshake ops s1))
         in map_prod id Some (flushWriteBio_dtls ops s2)))"

text \<open>A failed \<open>SSL_write\<close> is logged, and whatever is pending is still returned.\<close>

definition encrypt_dtls ::
    "'s ssl_ops \<Rightarrow> bytes option \<Rightarrow> int \<Rightarrow> 's session \<Rightarrow> bytes \<times> 's session" where
  "encrypt_dtls ops buffer len ss =
     (case ss of
        None \<Rightarrow> ([], None)
      | Some s \<Rightarrow>
        (case buffer of
           None \<Rightarrow> ([], Some s)
         | Some bs \<Rightarrow>
           (if \<not> SSL_is_init_finished ops s \<or> len \<le> 0 then ([], Some s)
            else (let s1 = snd (SSL_write ops (take (nat len) bs) s)
                  in map_prod id Some (flushWriteBio_dtls ops s1)))))"

partial_function (option) read_loop_dtls :: "'s ssl_ops \<Rightarrow> bytes \<Rightarrow> 's \<Rightarrow> (bytes \<times> 's) option" where
  [code]: "read_loop_dtls ops plain s =
     (case SSL_read ops BufferSize s of
        ((n, bs), s') \<Rightarrow>
          if 0 < n then read_loop_dtls ops (plain @ take (nat n) bs) s' else Some (plain, s'))"

definition decrypt_dtls ::
    "'s ssl_ops \<Rightarrow> bytes option \<Rightarrow> int \<Rightarrow> 's session \<Rightarrow> (bytes \<times> 's session) option" where
  "decrypt_dtls ops buffer len ss =
     (case ss of
        None \<Rightarrow> Some ([], None)
      | Some s \<Rightarrow>
        (case buffer of
           None \<Rightarrow> Some ([], Some s)
         | Some bs \<Rightarrow>
           (if len \<le> 0 then Some ([], Some s)
            else
              (let s1 = snd (BIO_write ops (take (nat len) bs) s);
                   s2 = (if SSL_is_init_finished ops s1 then s1 else snd (SSL_do_handshake ops s1))
               in if \<not> SSL_is_init_finished ops s2 then Some ([], Some s2)
                  else map_option (map_prod id Some) (read_loop_dtls ops [] s2)))))"

section \<open>The two engines\<close>

lemma flush_dtls_eq: "flushWriteBio_dtls ops = flushWriteBio ops"
  by (rule ext) (simp add: flushWriteBio_dtls_def flushWriteBio_def)

lemma read_loop_dtls_eq:
  assumes "ssl_read_bounded ops avail"
  shows "read_loop_dtls ops plain s = read_loop ops plain s"
proof (induction "avail s" arbitrary: plain s rule: less_induct)
  case less
  obtain n bs s' where r: "SSL_read ops BufferSize s = ((n, bs), s')" by (metis prod.exhaust)
  show ?case
  proof (cases "0 < n")
    case True
    with r assms have "avail s' < avail s" by (auto simp: ssl_read_bounded_def)
    from less [OF this] r True show ?thesis
      by (subst read_loop.simps, subst read_loop_dtls.simps) simp
  next
    case False
    with r show ?thesis by (subst read_loop.simps, subst read_loop_dtls.simps) simp
  qed
qed

lemma handshake_dtls_eq: "Handshake_dtls ops [] ss = Handshake ops ss"
  by (simp add: Handshake_dtls_def Handshake_def flush_dtls_eq Let_def split: option.split)

lemma encrypt_dtls_eq:
  assumes "bs \<noteq> []"
    and "\<And>s. ss = Some s \<Longrightarrow> SSL_is_init_finished ops s \<Longrightarrow> 0 < fst (SSL_write ops bs s)"
  shows "encrypt_dtls ops (Some bs) (int (length bs)) ss = encrypt ops bs ss"
  using assms
  by (cases ss) (force simp: encrypt_dtls_def encrypt_def flush_dtls_eq Let_def split: prod.split)+

lemma decrypt_dtls_eq:
  assumes "bs \<noteq> []" "ssl_read_bounded ops avail"
    and "\<And>s. ss = Some s \<Longrightarrow> 0 < fst (BIO_write ops bs s)"
  shows "decrypt_dtls ops (Some bs) (int (length bs)) ss = decrypt ops bs ss"
  using assms(1,3) read_loop_dtls_eq [OF assms(2)]
  by (cases ss) (force simp: decrypt_dtls_def decrypt_def Let_def split: prod.split)+

text \<open>The null pointer and lengths below one change nothing.\<close>

lemma dtls_bad_buffer:
  assumes "buffer = None \<or> len \<le> 0"
  shows "encrypt_dtls ops buffer len ss = ([], ss)"
    and "decrypt_dtls ops buffer len ss = Some ([], ss)"
  using assms by (auto simp: encrypt_dtls_def decrypt_dtls_def split: option.split)



end
