(* ===== verification/CameraText.thy ===== *)
theory CameraText
  imports DeviceServing
begin

text \<open>
  What happens when \<open>utf8_shell\<close>, asked for in \<open>dev_step\<close>, does not hold: a host that answers a probe
  and whose URL is not UTF-8. The URL is put into the table as it was printed, and the list with it
  cannot be written.
\<close>

lemma channel_urls_profile:
  "channel_urls shell (sc\<lparr>on_fail_count := m\<rparr>) ip chs = channel_urls shell sc ip chs"
  by (induction chs) (simp_all add: getSingleRtspUrl_def Let_def split: option.split)

lemma getRtspUrls_profile: "getRtspUrls shell (sc\<lparr>on_fail_count := m\<rparr>) ip = getRtspUrls shell sc ip"
  unfolding getRtspUrls_def by (rule channel_urls_profile)

section \<open>Lists that cannot be written\<close>

text \<open>A camera whose URL is not UTF-8 spoils the list it is in, for every ClientServer.\<close>

lemma bad_camera_list:
  assumes "om_find d (dm_devices (dc_manager dc)) = Some info" "dev_type info = HANWHA"
    and "\<not> utf8_ok (dev_source_url info)"
  shows "\<exists>cams. buildCameraListJson dc = Inr cams \<and> json_dump cams = Inl (TypeError 316)"
proof -
  let ?cams = "JArray (map (camera_value (getLocalIp (dc_ifaddrs dc))) (getDeviceList (dc_manager dc)))"
  have "info \<in> set (getDeviceList (dc_manager dc))"
    using om_find_Some_mem [OF assms(1)] by (force simp: getDeviceList_def)
  moreover have "\<not> json_utf8 (camera_value (getLocalIp (dc_ifaddrs dc)) info)"
    using assms(2,3) by (simp add: camera_value_def camera_source_url_def)
  ultimately have "\<not> json_utf8 ?cams" by auto
  then show ?thesis using provider_values(1) [of dc] dump_throws_iff [of ?cams] by blast
qed

lemma bad_list_not_sent:
  assumes "json_dump j = Inl e"
  shows "is_sendMessage fd t j s = Inl e"
    and "cn_client_fds s \<noteq> [] \<Longrightarrow> is_broadcast t j s = Inl e"
  using assms by (cases "cn_client_fds s"; simp add: is_sendMessage_def is_broadcast_def)+

lemma bad_camera_push:
  assumes "om_find d (dm_devices (dc_manager dc)) = Some info" "dev_type info = HANWHA"
    and "\<not> utf8_ok (dev_source_url info)" and "dc_providers_set dc"
  shows "cn_client_fds (dc_internal dc) \<noteq> [] \<Longrightarrow> on_device_changed dc = Inl (TypeError 316)"
    and "dc_welcome fd dc = Inl (TypeError 316)"
  using bad_camera_list [OF assms(1-3)] assms(4)
  by (auto simp: on_device_changed_def when_provided_def broadcastCameraList_def bad_list_not_sent
      dc_welcome_def welcome_send_def)

section \<open>A probe answer\<close>

text \<open>
  C30: one host on the network ends the DeviceServer. It answers the probe, and the text that it gives
  for its stream is not UTF-8: the list of cameras with it makes \<open>dump\<close> throw \<open>type_error\<close> 316, in the
  scanner thread, where nothing catches it, if a ClientServer is connected, and otherwise in the
  handler of the first one that connects.
\<close>

theorem camera_text_terminates:
  assumes "str_contains ''ProbeMatch'' (c_str (take 4095 datagram))"
    and "om_find (camera_id ip 0) (dm_devices (dc_manager dc)) = None" "fail_count ip (dc_onvif dc) = 0"
    and "getRtspUrls shell (dc_onvif dc) ip = [url]" "\<not> utf8_ok url" "dc_providers_set dc"
    and "dc_good dc"
  shows "(if cn_client_fds (dc_internal dc) = []
          then \<exists>dc'. dc_probe_answer shell datagram ip dc = Inr dc' \<and>
                 (\<forall>fd. dc_welcome fd dc' = Inl (TypeError 316))
          else dc_probe_answer shell datagram ip dc = Inl (TypeError 316))"
proof -
  let ?info = "camera_info ip 0 url"
  let ?dc = "on_device_registered ?info (dc\<lparr>dc_manager := put_device (camera_id ip 0) ?info (dc_manager dc)\<rparr>)"
  let ?sc = "(dc_onvif dc)\<lparr>on_fail_count := om_assign ip 0 (on_fail_count (dc_onvif dc))\<rparr>"
  have i: "dev_id ?info = camera_id ip 0" "dev_type ?info = HANWHA" "dev_source_url ?info = url"
    by (simp_all add: camera_info_def default_device_info_def)
  have "dc_found hanwha_found ?info dc = on_device_changed ?dc"
    using assms(2) i by (simp add: dc_found_def hanwha_found_def device_found_def)
  moreover have "\<not> is_device_registered (camera_id ip 0) (dc_manager dc)"
    using assms(2) by (simp add: is_device_registered_def)
  ultimately have probe: "dc_probe_answer shell datagram ip dc =
      rbind (on_device_changed ?dc) (\<lambda>d. Inr (d\<lparr>dc_onvif := ?sc\<rparr>))"
    using assms(1,3,4) getRtspUrls_profile [where shell = shell and sc = "dc_onvif dc"]
    by (cases "on_device_changed ?dc")
      (simp_all add: dc_probe_answer_def probe_answer_def try_camera_def Let_def)
  have bad: "om_find (camera_id ip 0) (dm_devices (dc_manager d)) = Some ?info"
    if "dc_manager d = dc_manager ?dc" for d
    using that by (simp add: on_device_registered_def put_device_def om_find_assign)
  have p: "dc_providers_set ?dc" "dc_internal ?dc = dc_internal dc"
    using assms(6) by (simp_all add: on_device_registered_def)
  show ?thesis
  proof (cases "cn_client_fds (dc_internal dc) = []")
    case True
    obtain cams where "buildCameraListJson ?dc = Inr cams" using provider_values(1) by blast
    moreover have "statuses_ok (dc_manager ?dc)"
      using assms(7) by (auto simp: dc_good_def dm_good_def statuses_ok_def on_device_registered_def put_device_def)
    then obtain status where "dc_device_status ?dc = Inr status" using provider_values(2) by blast
    ultimately have "on_device_changed ?dc = Inr ?dc"
      using True p by (simp add: on_device_changed_eq is_broadcast_def)
    then have "dc_probe_answer shell datagram ip dc = Inr (?dc\<lparr>dc_onvif := ?sc\<rparr>)" using probe by simp
    moreover have "dc_welcome fd (?dc\<lparr>dc_onvif := ?sc\<rparr>) = Inl (TypeError 316)" for fd
      using bad_camera_push(2) [OF bad i(2), of "?dc\<lparr>dc_onvif := ?sc\<rparr>"] i(3) assms(5) p by simp
    ultimately show ?thesis using True by simp
  next
    case False
    then show ?thesis
      using bad_camera_push(1) [OF bad i(2), of ?dc] i(3) assms(5) p probe by simp
  qed
qed

text \<open>The URL is one byte that begins nothing.\<close>

definition latin1_shell :: "string \<Rightarrow> string option" where
  "latin1_shell cmd = (if cmd = channel_command ''10.0.0.9'' 5 0 then Some [CHR 0xE9] else Some [])"

theorem camera_text_terminates_witness:
  "\<exists>dc. dc_probe_answer latin1_shell ''ProbeMatch'' ''10.0.0.9'' (sample_dc\<lparr>dc_providers_set := True\<rparr>) = Inr dc \<and>
     (\<forall>fd. dc_welcome fd dc = Inl (TypeError 316))"
proof -
  let ?dc = "sample_dc\<lparr>dc_providers_set := True\<rparr>"
  have p: "str_contains ''ProbeMatch'' (c_str (take 4095 ''ProbeMatch''))" by code_simp
  have g: "dc_good ?dc" using sample_dc_good by (simp add: dc_good_def)
  have d: "om_find (camera_id ''10.0.0.9'' 0) (dm_devices (dc_manager ?dc)) = None"
    "fail_count ''10.0.0.9'' (dc_onvif ?dc) = 0" "cn_client_fds (dc_internal ?dc) = []" "dc_providers_set ?dc"
    by (simp_all add: sample_dc_def dm_init_def fail_count_def onvif_init_def)
  have u: "getRtspUrls latin1_shell (dc_onvif ?dc) ''10.0.0.9'' = [[CHR 0xE9]]"
    unfolding sample_dc_def by code_simp
  have n: "\<not> utf8_ok [CHR 0xE9]" by code_simp
  show ?thesis using camera_text_terminates [OF p d(1,2) u n d(4) g] d(3) by simp
qed
end
