(* ===== verification/Locks.thy ===== *)
theory Locks
  imports Prelude
begin

text \<open>
  Threads that share mutexes, seen from the operations at which one of them can wait for another:
  taking a mutex, joining a thread, and sending to a peer that may have stopped reading. Both
  servers are programs of such operations (\<open>ClientLocks\<close>, \<open>DeviceLocks\<close>). Here are their scheduler, the
  discipline that excludes deadlock, and the two ways in which a thread waits for ever.
\<close>

section \<open>Programs and scheduler\<close>

text \<open>
  \<open>Await\<close> is \<open>std::thread::join\<close>, \<open>Spawn\<close> the construction of the thread, \<open>Io\<close> anything that ends by
  itself: computation, and calls that return when a peer or \<open>shutdown\<close> ends the connection.
\<close>

datatype 'm lock_op = Take 'm | Give 'm | Await nat | Spawn nat | SendTo nat | Io

text \<open>A \<open>std::lock_guard\<close> and its block.\<close>

definition guarded :: "'m \<Rightarrow> 'm lock_op list \<Rightarrow> 'm lock_op list" where
  "guarded m xs = Take m # xs @ [Give m]"

record 'm threads =
  th_progs :: "'m lock_op list list"
  th_started :: "nat set"
  th_owner :: "'m \<Rightarrow> nat option"

text \<open>Thread \<open>0\<close> is the main thread; the others run once they have been started.\<close>

definition start_threads :: "'m lock_op list list \<Rightarrow> 'm threads" where
  "start_threads ps = \<lparr>th_progs = ps, th_started = {0}, th_owner = (\<lambda>m. None)\<rparr>"

text \<open>
  What thread \<open>i\<close> does with its next operation; \<open>None\<close> where it waits. A mutex is not recursive: its
  owner waits for it as well. A thread that was not started is not joinable, and not waited for.
\<close>

fun do_op :: "(nat \<Rightarrow> bool) \<Rightarrow> nat \<Rightarrow> 'm lock_op \<Rightarrow> 'm threads \<Rightarrow> 'm threads option" where
  "do_op reads i (Take m) st =
     (if th_owner st m = None then Some (st\<lparr>th_owner := (th_owner st)(m := Some i)\<rparr>) else None)"
| "do_op reads i (Give m) st = Some (st\<lparr>th_owner := (th_owner st)(m := None)\<rparr>)"
| "do_op reads i (Await j) st =
     (if j \<in> th_started st \<and> j < length (th_progs st) \<and> th_progs st ! j \<noteq> [] then None else Some st)"
| "do_op reads i (Spawn j) st = Some (st\<lparr>th_started := insert j (th_started st)\<rparr>)"
| "do_op reads i (SendTo fd) st = (if reads fd then Some st else None)"
| "do_op reads i Io st = Some st"

definition advance :: "(nat \<Rightarrow> bool) \<Rightarrow> nat \<Rightarrow> 'm threads \<Rightarrow> 'm threads option" where
  "advance reads i st =
     (if i < length (th_progs st) \<and> i \<in> th_started st then
        (case th_progs st ! i of
           [] \<Rightarrow> None
         | x # xs \<Rightarrow> map_option (\<lambda>st'. st'\<lparr>th_progs := (th_progs st)[i := xs]\<rparr>) (do_op reads i x st))
      else None)"

inductive lock_step :: "(nat \<Rightarrow> bool) \<Rightarrow> 'm threads \<Rightarrow> 'm threads \<Rightarrow> bool"
  for reads :: "nat \<Rightarrow> bool" where
  turn: "advance reads i st = Some st' \<Longrightarrow> lock_step reads st st'"

inductive lock_run :: "(nat \<Rightarrow> bool) \<Rightarrow> 'm threads \<Rightarrow> 'm threads \<Rightarrow> bool"
  for reads :: "nat \<Rightarrow> bool" and st :: "'m threads" where
  none: "lock_run reads st st"
| more: "lock_run reads st st' \<Longrightarrow> lock_step reads st' st'' \<Longrightarrow> lock_run reads st st''"

lemma lock_run_trans: "lock_run r b c \<Longrightarrow> lock_run r a b \<Longrightarrow> lock_run r a c"
  by (induction rule: lock_run.induct) (auto intro: lock_run.intros)

text \<open>A schedule to try: the numbers of the threads that move.\<close>

fun schedule :: "(nat \<Rightarrow> bool) \<Rightarrow> nat list \<Rightarrow> 'm threads \<Rightarrow> 'm threads option" where
  "schedule reads [] st = Some st"
| "schedule reads (i # is) st = Option.bind (advance reads i st) (schedule reads is)"

lemma schedule_run: "schedule reads is st = Some st' \<Longrightarrow> lock_run reads st st'"
proof (induction "is" arbitrary: st)
  case (Cons i "is")
  then obtain st1 where "advance reads i st = Some st1" "lock_run reads st1 st'"
    by (auto split: bind_splits)
  then show ?case using lock_run_trans lock_run.more [OF lock_run.none lock_step.turn] by metis
qed (simp add: lock_run.none)

definition all_done :: "'m threads \<Rightarrow> bool" where
  "all_done st = (\<forall>i < length (th_progs st). i \<in> th_started st \<longrightarrow> th_progs st ! i = [])"

definition work_left :: "'m threads \<Rightarrow> nat" where
  "work_left st = sum_list (map length (th_progs st))"

text \<open>The cases of a step, with the program of the thread that moved.\<close>

lemma advanceE:
  assumes "advance reads i st = Some st'"
  obtains x xs st1 where "i < length (th_progs st)" "i \<in> th_started st" "th_progs st ! i = x # xs"
    "do_op reads i x st = Some st1" "st' = st1\<lparr>th_progs := (th_progs st)[i := xs]\<rparr>"
    "th_progs st' = (th_progs st)[i := xs]" "th_owner st' = th_owner st1" "th_started st' = th_started st1"
  using assms by (auto simp: advance_def split: if_splits list.splits)

lemma do_op_started: "do_op reads i x st = Some st' \<Longrightarrow> th_started st \<subseteq> th_started st'"
  by (cases x) (auto split: if_splits)

lemma advance_length: "advance reads i st = Some st' \<Longrightarrow> length (th_progs st') = length (th_progs st)"
  by (elim advanceE) simp

lemma sum_list_update_less:
  "i < length xs \<Longrightarrow> y < xs ! i \<Longrightarrow> sum_list (xs[i := y]) < sum_list (xs :: nat list)"
  by (induction xs arbitrary: i) (auto split: nat.splits)

lemma step_work: "lock_step reads st st' \<Longrightarrow> work_left st' < work_left st"
  by (auto simp: work_left_def map_update elim!: lock_step.cases advanceE intro!: sum_list_update_less)

section \<open>The discipline\<close>

text \<open>
  Mutexes are taken in the order of a rank, and given back; a thread is joined only by one of a
  smaller number, which holds at most mutexes of its own: \<open>own m = Some i\<close> for those that no thread
  but \<open>i\<close> uses. \<open>obeys\<close> looks at a program of thread \<open>i\<close> that holds \<open>hs\<close> at the start, \<open>holding\<close> is what
  it holds at the end.
\<close>

fun holding :: "'m set \<Rightarrow> 'm lock_op list \<Rightarrow> 'm set" where
  "holding hs [] = hs"
| "holding hs (x # xs) =
     holding (case x of Take m \<Rightarrow> insert m hs | Give m \<Rightarrow> hs - {m} | _ \<Rightarrow> hs) xs"

fun obeys :: "('m \<Rightarrow> nat) \<Rightarrow> ('m \<Rightarrow> nat option) \<Rightarrow> nat \<Rightarrow> 'm set \<Rightarrow> 'm lock_op list \<Rightarrow> bool" where
  "obeys rank own i hs [] = True"
| "obeys rank own i hs (x # xs) =
     ((case x of
         Take m \<Rightarrow> (\<forall>h \<in> hs. rank h < rank m) \<and> own m \<in> {None, Some i}
       | Give m \<Rightarrow> m \<in> hs
       | Await j \<Rightarrow> i < j \<and> (\<forall>h \<in> hs. own h = Some i)
       | _ \<Rightarrow> True) \<and>
      obeys rank own i (holding hs [x]) xs)"

definition ordered :: "('m \<Rightarrow> nat) \<Rightarrow> ('m \<Rightarrow> nat option) \<Rightarrow> nat \<Rightarrow> 'm set \<Rightarrow> 'm lock_op list \<Rightarrow> bool" where
  "ordered rank own i hs xs = (obeys rank own i hs xs \<and> holding hs xs = {})"

lemma holding_append [simp]: "holding hs (xs @ ys) = holding (holding hs xs) ys"
  by (induction xs arbitrary: hs) auto

lemma obeys_append [simp]:
  "obeys rank own i hs (xs @ ys) = (obeys rank own i hs xs \<and> obeys rank own i (holding hs xs) ys)"
  by (induction xs arbitrary: hs) auto

lemma ordered_simps [simp]:
  "ordered rank own i hs [] = (hs = {})"
  "ordered rank own i hs (Take m # xs) =
     ((\<forall>h \<in> hs. rank h < rank m) \<and> own m \<in> {None, Some i} \<and> ordered rank own i (insert m hs) xs)"
  "ordered rank own i hs (Give m # xs) = (m \<in> hs \<and> ordered rank own i (hs - {m}) xs)"
  "ordered rank own i hs (Await j # xs) =
     (i < j \<and> (\<forall>h \<in> hs. own h = Some i) \<and> ordered rank own i hs xs)"
  "ordered rank own i hs (Spawn j # xs) = ordered rank own i hs xs"
  "ordered rank own i hs (SendTo fd # xs) = ordered rank own i hs xs"
  "ordered rank own i hs (Io # xs) = ordered rank own i hs xs"
  by (auto simp: ordered_def)

text \<open>
  A piece of a program that obeys and holds at its end what it held at its start. Pieces are put
  together, repeated, and put under a guard.
\<close>

definition piece :: "('m \<Rightarrow> nat) \<Rightarrow> ('m \<Rightarrow> nat option) \<Rightarrow> nat \<Rightarrow> 'm set \<Rightarrow> 'm lock_op list \<Rightarrow> bool" where
  "piece rank own i hs xs = (obeys rank own i hs xs \<and> holding hs xs = hs)"

named_theorems pieces

lemma piece_Nil [pieces]: "piece rank own i hs []"
  and piece_SendTo [pieces]: "piece rank own i hs xs \<Longrightarrow> piece rank own i hs (SendTo fd # xs)"
  and piece_Io [pieces]: "piece rank own i hs xs \<Longrightarrow> piece rank own i hs (Io # xs)"
  and piece_Spawn [pieces]: "piece rank own i hs xs \<Longrightarrow> piece rank own i hs (Spawn j # xs)"
  by (simp_all add: piece_def)

lemma piece_append [pieces]:
  "piece rank own i hs xs \<Longrightarrow> piece rank own i hs ys \<Longrightarrow> piece rank own i hs (xs @ ys)"
  by (simp add: piece_def)

lemma piece_concat [pieces]:
  "\<forall>xs \<in> set xss. piece rank own i hs xs \<Longrightarrow> piece rank own i hs (concat xss)"
  by (induction xss) (auto intro: pieces)

lemma piece_guarded [pieces]:
  "piece rank own i (insert m hs) xs \<Longrightarrow> \<forall>h \<in> hs. rank h < rank m \<Longrightarrow> own m \<in> {None, Some i} \<Longrightarrow>
   piece rank own i hs (guarded m xs)"
  by (auto simp: piece_def guarded_def)

lemma piece_replicate [pieces]: "piece rank own i hs [x] \<Longrightarrow> piece rank own i hs (replicate n x)"
  by (induction n) (auto simp: piece_def)

lemma piece_Await [pieces]:
  "i < j \<Longrightarrow> \<forall>h \<in> hs. own h = Some i \<Longrightarrow> piece rank own i hs xs \<Longrightarrow> piece rank own i hs (Await j # xs)"
  by (simp add: piece_def)

lemma piece_awaits [pieces]:
  "\<forall>x \<in> set xs. i < f x \<Longrightarrow> \<forall>h \<in> hs. own h = Some i \<Longrightarrow> piece rank own i hs (map (\<lambda>x. Await (f x)) xs)"
  by (induction xs) (auto simp: piece_def)

text \<open>A piece that is run between two operations of another program.\<close>

lemma interrupted_ordered:
  assumes "ordered rank own i {} xs" and "piece rank own i (holding {} (take k xs)) ys"
  shows "ordered rank own i {} (take k xs @ ys @ drop k xs)"
proof -
  have "ordered rank own i {} (take k xs @ drop k xs)" using assms(1) by simp
  then show ?thesis using assms(2) unfolding ordered_def piece_def obeys_append holding_append by simp
qed

lemma piece_ordered: "piece rank own i {} xs \<Longrightarrow> ordered rank own i {} xs"
  by (simp add: piece_def ordered_def)

definition held :: "'m threads \<Rightarrow> nat \<Rightarrow> 'm set" where
  "held st i = {m. th_owner st m = Some i}"

definition disciplined :: "('m \<Rightarrow> nat) \<Rightarrow> ('m \<Rightarrow> nat option) \<Rightarrow> 'm threads \<Rightarrow> bool" where
  "disciplined rank own st =
     ((\<forall>i < length (th_progs st). ordered rank own i (held st i) (th_progs st ! i)) \<and>
      (\<forall>m i. th_owner st m = Some i \<longrightarrow>
         i < length (th_progs st) \<and> i \<in> th_started st \<and> own m \<in> {None, Some i}))"

lemma disciplined_start:
  "0 < length ps \<Longrightarrow> \<forall>i < length ps. ordered rank own i {} (ps ! i) \<Longrightarrow>
   disciplined rank own (start_threads ps)"
  by (simp add: disciplined_def start_threads_def held_def)

text \<open>A step changes what its own thread holds, if that gives back only what it holds.\<close>

lemma held_step:
  assumes "do_op reads k x st = Some st'" and "\<And>m. x = Give m \<Longrightarrow> m \<in> held st k"
  shows "held st' j = (if j = k then holding (held st k) [x] else held st j)"
  using assms by (cases x) (auto simp: held_def split: if_splits)

lemma held_progs [simp]: "held (st\<lparr>th_progs := ps\<rparr>) = held st"
  by (simp add: held_def fun_eq_iff)

lemma lock_stepE:
  assumes "lock_step reads st st'"
  obtains k x xs st1 where "k < length (th_progs st)" "k \<in> th_started st" "th_progs st ! k = x # xs"
    "do_op reads k x st = Some st1" "th_progs st' = (th_progs st)[k := xs]"
    "th_owner st' = th_owner st1" "th_started st' = th_started st1" "held st' = held st1"
  using assms by (auto elim!: lock_step.cases advanceE)

lemma disciplined_step:
  assumes "lock_step reads st st'" and "disciplined rank own st"
  shows "disciplined rank own st'"
proof -
  from assms(1) obtain i x xs st1 where i: "i < length (th_progs st)" "i \<in> th_started st"
    and x: "th_progs st ! i = x # xs" "do_op reads i x st = Some st1"
    and st': "th_progs st' = (th_progs st)[i := xs]" "th_owner st' = th_owner st1"
      "th_started st' = th_started st1" "held st' = held st1"
    by (elim lock_stepE)
  have o: "ordered rank own i (held st i) (x # xs)"
    using assms(2) i x(1) by (auto simp: disciplined_def)
  have h: "held st' j = (if j = i then holding (held st i) [x] else held st j)" for j
    unfolding st' by (rule held_step [OF x(2)]) (use o in simp)
  have "ordered rank own i (holding (held st i) [x]) xs"
    using o unfolding ordered_def by simp
  moreover have "k < length (th_progs st) \<and> k \<in> th_started st1 \<and> own m \<in> {None, Some k}"
    if "th_owner st1 m = Some k" for m k
  proof -
    have "th_owner st m = Some k \<or> (k = i \<and> x = Take m)"
      using that x(2) by (cases x) (auto split: if_splits)
    then show ?thesis
      using assms(2) i o do_op_started [OF x(2)] by (auto simp: disciplined_def)
  qed
  ultimately show ?thesis
    using assms(2) h i(1) unfolding disciplined_def st'(1-3) by (auto simp: nth_list_update)
qed

lemma disciplined_run:
  "lock_run reads st st' \<Longrightarrow> disciplined rank own st \<Longrightarrow> disciplined rank own st'"
  by (induction rule: lock_run.induct) (auto dest: disciplined_step)

section \<open>No deadlock\<close>

text \<open>The holder of the shared mutex of highest rank can go on.\<close>

lemma holder_moves:
  assumes d: "disciplined rank own st" and reads: "\<forall>fd. reads fd"
    and m: "th_owner st m = Some i" "own m = None"
    and top: "\<forall>m'. th_owner st m' \<noteq> None \<longrightarrow> own m' = None \<longrightarrow> rank m' \<le> rank m"
  shows "advance reads i st \<noteq> None"
proof -
  have i: "i < length (th_progs st)" "i \<in> th_started st"
    using d m(1) by (auto simp: disciplined_def)
  have o: "ordered rank own i (held st i) (th_progs st ! i)" using d i by (simp add: disciplined_def)
  have h: "m \<in> held st i" using m(1) by (simp add: held_def)
  then obtain x xs where x: "th_progs st ! i = x # xs"
    using o by (cases "th_progs st ! i") auto
  have "do_op reads i x st \<noteq> None"
  proof (cases x)
    case (Take m')
    have less: "rank m < rank m'" and mine: "own m' \<in> {None, Some i}" using o x Take h by auto
    have "th_owner st m' = None"
    proof (rule ccontr)
      assume "th_owner st m' \<noteq> None"
      then obtain k where k: "th_owner st m' = Some k" by blast
      show False
      proof (cases "own m'")
        case None
        then show False using top k less by fastforce
      next
        case (Some j)
        have "own m' \<in> {None, Some k}" using d k by (auto simp: disciplined_def)
        then have "k = i" using Some mine by auto
        then have "m' \<in> held st i" using k by (simp add: held_def)
        then show False using o x Take by auto
      qed
    qed
    then show ?thesis using Take by simp
  next
    case (Await j)
    then show ?thesis using o x h m(2) by auto
  qed (use reads in auto)
  then show ?thesis using i x by (simp add: advance_def)
qed

text \<open>Where no shared mutex is held, the unfinished thread with the greatest number can go on.\<close>

lemma last_moves:
  assumes d: "disciplined rank own st" and reads: "\<forall>fd. reads fd"
    and free: "\<forall>m. th_owner st m \<noteq> None \<longrightarrow> own m \<noteq> None"
    and i: "i < length (th_progs st)" "i \<in> th_started st" "th_progs st ! i \<noteq> []"
    and top: "\<forall>j. j < length (th_progs st) \<longrightarrow> j \<in> th_started st \<longrightarrow> th_progs st ! j \<noteq> [] \<longrightarrow> j \<le> i"
  shows "advance reads i st \<noteq> None"
proof -
  obtain x xs where x: "th_progs st ! i = x # xs" using i(3) by (cases "th_progs st ! i") auto
  have o: "ordered rank own i (held st i) (x # xs)"
    using d i(1) unfolding x [symmetric] by (simp add: disciplined_def)
  have "do_op reads i x st \<noteq> None"
  proof (cases x)
    case (Take m)
    have "th_owner st m = None"
    proof (rule ccontr)
      assume "th_owner st m \<noteq> None"
      then obtain k where k: "th_owner st m = Some k" by blast
      then have "k = i" using d free o Take by (fastforce simp: disciplined_def)
      then have "m \<in> held st i" using k by (simp add: held_def)
      then show False using o Take by auto
    qed
    then show ?thesis using Take by simp
  next
    case (Await j)
    then show ?thesis using o top by fastforce
  qed (use reads in auto)
  then show ?thesis using i x by (simp add: advance_def)
qed

lemma no_deadlock:
  assumes d: "disciplined rank own st" and reads: "\<forall>fd. reads fd"
    and bound: "\<forall>m. rank m < N" and todo: "\<not> all_done st"
  shows "\<exists>st'. lock_step reads st st'"
proof -
  have "\<exists>i. advance reads i st \<noteq> None"
  proof (cases "\<exists>m. th_owner st m \<noteq> None \<and> own m = None")
    case True
    then obtain m where "th_owner st m \<noteq> None \<and> own m = None"
      "\<forall>m'. th_owner st m' \<noteq> None \<and> own m' = None \<longrightarrow> rank m' \<le> rank m"
      using Lattices_Big.ex_has_greatest_nat
        [of "\<lambda>m. th_owner st m \<noteq> None \<and> own m = None" _ rank N] bound
      by metis
    then show ?thesis using holder_moves [OF d reads] by blast
  next
    case False
    let ?P = "\<lambda>i. i < length (th_progs st) \<and> i \<in> th_started st \<and> th_progs st ! i \<noteq> []"
    obtain k where "?P k" using todo by (auto simp: all_done_def)
    then obtain i where "?P i" "\<forall>j. ?P j \<longrightarrow> j \<le> i"
      using Nat.ex_has_greatest_nat [of ?P k "length (th_progs st)"] by auto
    moreover have "\<forall>m. th_owner st m \<noteq> None \<longrightarrow> own m \<noteq> None" using False by (metis)
    ultimately have "advance reads i st \<noteq> None" by (intro last_moves [OF d reads]) auto
    then show ?thesis by blast
  qed
  then show ?thesis by (auto intro: lock_step.turn)
qed

text \<open>So every run can be continued until all threads that were started have ended.\<close>

lemma runs_to_the_end:
  assumes "disciplined rank own st" and "\<forall>fd. reads fd" and "\<forall>m. rank m < N"
  shows "\<exists>st'. lock_run reads st st' \<and> all_done st'"
  using assms(1)
proof (induction "work_left st" arbitrary: st rule: less_induct)
  case less
  show ?case
  proof (cases "all_done st")
    case True
    then show ?thesis by (auto intro: lock_run.none)
  next
    case False
    then obtain st1 where st1: "lock_step reads st st1"
      using no_deadlock [OF less.prems assms(2,3)] by blast
    from less.hyps [OF step_work [OF st1] disciplined_step [OF st1 less.prems]]
    obtain st2 where "lock_run reads st1 st2" "all_done st2" by blast
    then show ?thesis using lock_run_trans lock_run.more [OF lock_run.none st1] by blast
  qed
qed

section \<open>Waiting for ever\<close>

text \<open>
  A thread whose program takes a mutex that it will still be holding then. It never gets there, and
  the others, which give back only what they hold, do not free it.
\<close>

fun balanced :: "'m set \<Rightarrow> 'm lock_op list \<Rightarrow> bool" where
  "balanced hs [] = True"
| "balanced hs (x # xs) =
     ((case x of Give m \<Rightarrow> m \<in> hs | _ \<Rightarrow> True) \<and> balanced (holding hs [x]) xs)"

lemma obeys_balanced: "obeys rank own i hs xs \<Longrightarrow> balanced hs xs"
  by (induction xs arbitrary: hs) (auto split: lock_op.splits)

lemma balanced_append [simp]:
  "balanced hs (xs @ ys) = (balanced hs xs \<and> balanced (holding hs xs) ys)"
  by (induction xs arbitrary: hs) auto

definition doomed :: "nat \<Rightarrow> 'm \<Rightarrow> 'm lock_op list \<Rightarrow> 'm threads \<Rightarrow> bool" where
  "doomed i m q st =
     (i < length (th_progs st) \<and>
      (\<exists>p. th_progs st ! i = p @ Take m # q \<and> balanced (held st i) p \<and> m \<in> holding (held st i) p) \<and>
      (\<forall>j < length (th_progs st). j \<noteq> i \<longrightarrow> balanced (held st j) (th_progs st ! j)))"

lemma doomed_step:
  assumes "lock_step reads st st'" and d: "doomed i m q st"
  shows "doomed i m q st'"
proof -
  from assms(1) obtain k x xs st1 where k: "k < length (th_progs st)"
    and x: "th_progs st ! k = x # xs" "do_op reads k x st = Some st1"
    and st': "th_progs st' = (th_progs st)[k := xs]" "held st' = held st1"
    by (elim lock_stepE)
  obtain p where p: "th_progs st ! i = p @ Take m # q" "balanced (held st i) p"
    "m \<in> holding (held st i) p" and i: "i < length (th_progs st)"
    and others: "\<forall>j < length (th_progs st). j \<noteq> i \<longrightarrow> balanced (held st j) (th_progs st ! j)"
    using d by (auto simp: doomed_def)
  have split: "\<exists>p'. p = x # p' \<and> xs = p' @ Take m # q" if "k = i"
  proof (cases p)
    case Nil
    then have "th_owner st m \<noteq> None" using p(3) by (simp add: held_def)
    then show ?thesis using Nil that p(1) x by auto
  qed (use that p(1) x(1) in auto)
  have gives: "m' \<in> held st k" if "x = Give m'" for m'
    using that split p(2) others k x(1) by (cases "k = i") auto
  have h: "held st' j = (if j = k then holding (held st k) [x] else held st j)" for j
    unfolding st' by (rule held_step [OF x(2) gives])
  have kept: "balanced (holding (held st k) [x]) xs" if "k \<noteq> i"
    using that others k x(1) by fastforce
  show ?thesis
  proof (cases "k = i")
    case True
    then obtain p' where "p = x # p'" "xs = p' @ Take m # q" using split by blast
    then show ?thesis
      using True p others i h unfolding doomed_def st'(1) by (auto simp: nth_list_update)
  next
    case False
    then show ?thesis
      using p others i h k kept unfolding doomed_def st'(1) by (auto simp: nth_list_update)
  qed
qed

lemma doomed_run: "lock_run reads st st' \<Longrightarrow> doomed i m q st \<Longrightarrow> doomed i m q st'"
  by (induction rule: lock_run.induct) (auto dest: doomed_step)

text \<open>A send to a peer that does not read, by a thread that holds a mutex.\<close>

text \<open>Nobody else gives back the mutex, which is part of the discipline.\<close>

definition send_blocked :: "(nat \<Rightarrow> bool) \<Rightarrow> nat \<Rightarrow> 'm \<Rightarrow> 'm threads \<Rightarrow> bool" where
  "send_blocked reads i m st =
     (th_owner st m = Some i \<and> i < length (th_progs st) \<and>
      (\<exists>fd xs. th_progs st ! i = SendTo fd # xs \<and> \<not> reads fd))"

lemma send_blocked_step:
  assumes "lock_step reads st st'" and d: "disciplined rank own st" and b: "send_blocked reads i m st"
  shows "send_blocked reads i m st'"
    and "j < length (th_progs st) \<Longrightarrow> Take m \<in> set (th_progs st ! j) \<Longrightarrow> Take m \<in> set (th_progs st' ! j)"
proof -
  from assms(1) obtain k x xs st1 where k: "k < length (th_progs st)" "k \<in> th_started st"
    and x: "th_progs st ! k = x # xs" "do_op reads k x st = Some st1"
    and st': "th_progs st' = (th_progs st)[k := xs]" "th_owner st' = th_owner st1"
    by (elim lock_stepE)
  have ki: "k \<noteq> i" using b x by (auto simp: send_blocked_def)
  have i: "th_owner st m = Some i" using b by (simp add: send_blocked_def)
  have "ordered rank own k (held st k) (x # xs)" using d k(1) x(1) by (auto simp: disciplined_def)
  then have "x \<noteq> Give m" using i ki by (auto simp: held_def)
  then have keep: "th_owner st1 m = Some i" using x(2) i by (cases x) (auto split: if_splits)
  have "x \<noteq> Take m" using x(2) i by auto
  then show "j < length (th_progs st) \<Longrightarrow> Take m \<in> set (th_progs st ! j) \<Longrightarrow> Take m \<in> set (th_progs st' ! j)"
    using k(1) x(1) unfolding st' by (auto simp: nth_list_update)
  show "send_blocked reads i m st'"
    using b ki keep unfolding send_blocked_def st' by auto
qed

lemma send_blocked_run:
  assumes "lock_run reads st st'" and d: "disciplined rank own st" and b: "send_blocked reads i m st"
    and "j < length (th_progs st)" and "Take m \<in> set (th_progs st ! j)"
  shows "Take m \<in> set (th_progs st' ! j)"
proof -
  have "send_blocked reads i m st' \<and> disciplined rank own st' \<and>
    length (th_progs st') = length (th_progs st) \<and> Take m \<in> set (th_progs st' ! j)"
    using assms(1)
  proof (induction rule: lock_run.induct)
    case none
    then show ?case using assms by simp
  next
    case (more st1 st2)
    have "length (th_progs st2) = length (th_progs st1)"
      using more.hyps(2) by (auto elim!: lock_step.cases dest: advance_length)
    then show ?case
      using more.IH assms(4) send_blocked_step [OF more.hyps(2)] disciplined_step [OF more.hyps(2)] by metis
  qed
  then show ?thesis by blast
qed
end
