(* ===== verification/ClientLocks.thy ===== *)
theory ClientLocks
  imports Locks
begin

text \<open>
  The mutexes of the ClientServer and who takes them when: the main thread, the accept loop and the
  handlers of \<open>QtCommServer\<close>, the connection thread of \<open>InternalClient\<close>, and the signal handler of
  \<open>main.cpp\<close>, which the main thread runs in the middle of whatever it was doing.

  A program is the sequence of operations of \<open>Locks\<close> along one path through the code; what decides the
  path (who receives a broadcast, whether a session is up, how far a packet got) is an argument. The
  effects of the operations are the business of the other theories.
\<close>

section \<open>Mutexes and threads\<close>

datatype cs_mutex =
  Stop_m | Fd_m | Cv_m | Cache_m | Db_m | Finished_m | Client_m | Tls_m

type_synonym cs_ops = "cs_mutex lock_op list"

text \<open>Thread \<open>0\<close> is \<open>main\<close>; the handlers come last, in the order of their start.\<close>

definition accept_thread :: nat where "accept_thread = 1"
definition conn_thread :: nat where "conn_thread = 2"
definition handler_thread :: "nat \<Rightarrow> nat" where "handler_thread h = 3 + h"

text \<open>\<open>wait_for\<close> with a predicate: it is tested under the mutex at first and after each of \<open>n\<close> wake-ups.\<close>

definition wait_ops :: "'m \<Rightarrow> nat \<Rightarrow> 'm lock_op list" where
  "wait_ops m n = guarded m [] @ concat (replicate n (Io # guarded m []))"

section \<open>Sending\<close>

text \<open>
  A message or picture to one client: within its session, or after a look at the sessions in the
  clear. The number is that of the \<open>sendExact\<close> made, fewer when one fails.
\<close>

datatype sent = In_session nat | In_clear nat

fun qt_send_ops :: "nat \<Rightarrow> sent \<Rightarrow> cs_ops" where
  "qt_send_ops fd (In_session n) = guarded Tls_m (replicate n (SendTo fd))"
| "qt_send_ops fd (In_clear n) = guarded Tls_m [] @ replicate n (SendTo fd)"

type_synonym recipients = "(nat \<times> sent) list"

definition broadcast_ops :: "recipients \<Rightarrow> cs_ops" where
  "broadcast_ops rs = guarded Client_m (concat (map (\<lambda>(fd, s). qt_send_ops fd s) rs))"

section \<open>Handlers of QtCommServer\<close>

text \<open>
  The paths of \<open>onQtMessage\<close>. \<open>Account_reply\<close> are failed logins and the actions of ASSIGN; they leave
  \<open>AuthManager\<close> before the mutex when a field is empty. A device command is sent to the descriptor of
  the link, if there is one.
\<close>

datatype request_path =
  Login_accepted sent sent
| Account_reply bool sent
| Plain_reply sent
| Device_command nat nat
| Camera_request sent
| Ai_message recipients

fun request_ops :: "nat \<Rightarrow> request_path \<Rightarrow> cs_ops" where
  "request_ops fd (Login_accepted s1 s2) =
     guarded Db_m [Io] @ guarded Client_m [] @ qt_send_ops fd s1 @ guarded Cache_m [] @ qt_send_ops fd s2"
| "request_ops fd (Account_reply locks s) = (if locks then guarded Db_m [Io] else []) @ qt_send_ops fd s"
| "request_ops fd (Plain_reply s) = qt_send_ops fd s"
| "request_ops fd (Device_command link n) = guarded Fd_m (replicate n (SendTo link))"
| "request_ops fd (Camera_request s) = guarded Cache_m [] @ qt_send_ops fd s"
| "request_ops fd (Ai_message rs) = broadcast_ops rs"

text \<open>
  A round: a part of the handshake (answered by \<open>n\<close> sends of \<open>sendRaw\<close>, or by none), a packet without
  a message, one that is not JSON, or a request.
\<close>

datatype round_path = No_message nat | Not_json sent | Request request_path

definition round_ops :: "bool \<Rightarrow> nat \<Rightarrow> round_path \<Rightarrow> cs_ops" where
  "round_ops tls fd r =
     Io # (if tls then guarded Tls_m [Io] else []) @
     (case r of
        No_message n \<Rightarrow> replicate n (SendTo fd)
      | Not_json s \<Rightarrow> qt_send_ops fd s
      | Request q \<Rightarrow> request_ops fd q)"

text \<open>The whole handler, with the early return when the session cannot be made.\<close>

datatype handler_path = No_session | Rounds "round_path list"

fun handler_ops :: "bool \<Rightarrow> nat \<Rightarrow> handler_path \<Rightarrow> cs_ops" where
  "handler_ops tls fd No_session = guarded Tls_m [Io]"
| "handler_ops tls fd (Rounds rs) =
     (if tls then guarded Tls_m [Io] else []) @ concat (map (round_ops tls fd) rs) @
     Io # guarded Client_m [Io] @ guarded Tls_m [Io] @ guarded Finished_m [Io]"

section \<open>Accept loop, connection thread, main thread\<close>

text \<open>A turn of the accept loop joins the finished handlers, then accepts one client or none.\<close>

definition accept_turn_ops :: "nat list \<times> nat option \<Rightarrow> cs_ops" where
  "accept_turn_ops = (\<lambda>(finished, accepted).
     guarded Finished_m [Io] @ map (\<lambda>h. Await (handler_thread h)) finished @ Io #
     (case accepted of None \<Rightarrow> [] | Some h \<Rightarrow> guarded Client_m [Io] @ [Spawn (handler_thread h)]))"

text \<open>
  A push of the DeviceServer is dropped, cached or broadcast; an attempt to connect fails and waits,
  or leads to a connection with its pushes.
\<close>

datatype push_path = Dropped | Cached | Passed_on recipients

fun push_ops :: "push_path \<Rightarrow> cs_ops" where
  "push_ops Dropped = [Io]"
| "push_ops Cached = Io # guarded Cache_m [Io]"
| "push_ops (Passed_on rs) = Io # broadcast_ops rs"

datatype link_path = Refused nat | Linked "push_path list"

fun conn_turn_ops :: "link_path \<Rightarrow> cs_ops" where
  "conn_turn_ops (Refused n) = Io # wait_ops Cv_m n"
| "conn_turn_ops (Linked ps) =
     Io # guarded Fd_m [Io] @ concat (map push_ops ps) @ guarded Fd_m [Io] @ [Io]"

text \<open>A turn of the main loop: cameras to the users, states to both roles, and five seconds of waiting.\<close>

definition main_turn_ops :: "recipients \<times> recipients \<times> nat \<Rightarrow> cs_ops" where
  "main_turn_ops = (\<lambda>(rs1, rs2, n).
     guarded Cache_m [Io] @ broadcast_ops rs1 @ guarded Cache_m [Io] @ Io # broadcast_ops rs2 @
     wait_ops Stop_m n)"

text \<open>One run of the server, by the paths of its threads.\<close>

record cs_run =
  run_tls :: bool
  run_listening :: bool
  run_turns :: "(recipients \<times> recipients \<times> nat) list"
  run_accepts :: "(nat list \<times> nat option) list"
  run_links :: "link_path list"
  run_handlers :: "(nat \<times> handler_path) list"

definition run_ops :: "cs_run \<Rightarrow> cs_ops" where
  "run_ops r =
     Io # Spawn conn_thread # Io # (if run_listening r then [Spawn accept_thread] else []) @
     concat (map main_turn_ops (run_turns r))"

section \<open>Stopping\<close>

text \<open>\<open>InternalClient::stop\<close>, \<open>QtCommServer::stop\<close> and \<open>ClientController::stop\<close>, for the parts that run.\<close>

definition internal_client_stop_ops :: cs_ops where
  "internal_client_stop_ops = guarded Fd_m [Io] @ Io # [Await conn_thread]"

definition qt_stop_ops :: "nat list \<Rightarrow> cs_ops" where
  "qt_stop_ops hs =
     Io # guarded Client_m [Io] @ guarded Tls_m [Io] @ Await accept_thread # map (\<lambda>h. Await (handler_thread h)) hs"

definition stop_ops :: "cs_run \<Rightarrow> cs_ops" where
  "stop_ops r =
     Io # internal_client_stop_ops @
     (if run_listening r then qt_stop_ops [0..<length (run_handlers r)] else []) @ [Io]"

text \<open>\<open>signalHandler\<close> runs on the main thread, after the first \<open>k\<close> operations of what it interrupts.\<close>

definition signal_ops :: "nat \<Rightarrow> cs_run \<Rightarrow> cs_ops" where
  "signal_ops k r = take k (run_ops r) @ Io # stop_ops r @ drop k (run_ops r)"

definition main_ops :: "nat option \<Rightarrow> cs_run \<Rightarrow> cs_ops" where
  "main_ops signal r = (case signal of None \<Rightarrow> run_ops r | Some k \<Rightarrow> signal_ops k r)"

definition cs_programs :: "nat option \<Rightarrow> cs_run \<Rightarrow> cs_ops list" where
  "cs_programs signal r =
     main_ops signal r # concat (map accept_turn_ops (run_accepts r)) #
     concat (map conn_turn_ops (run_links r)) #
     map (\<lambda>(fd, p). handler_ops (run_tls r) fd p) (run_handlers r)"

section \<open>Every thread keeps the order\<close>

fun cs_rank :: "cs_mutex \<Rightarrow> nat" where
  "cs_rank Stop_m = 0"
| "cs_rank Client_m = 2"
| "cs_rank Tls_m = 3"
| "cs_rank m = 1"

text \<open>The mutexes of the two condition variables are used by one thread each.\<close>

fun cs_own :: "cs_mutex \<Rightarrow> nat option" where
  "cs_own Stop_m = Some 0"
| "cs_own Cv_m = Some 2"
| "cs_own m = None"

abbreviation cs_piece :: "nat \<Rightarrow> cs_mutex set \<Rightarrow> cs_ops \<Rightarrow> bool" where
  "cs_piece \<equiv> piece cs_rank cs_own"

lemma cs_rank_less: "cs_rank m < 4"
  by (cases m) auto

lemma wait_ops_piece [pieces]:
  "\<forall>h \<in> hs. rank h < rank m \<Longrightarrow> own m \<in> {None, Some i} \<Longrightarrow> piece rank own i hs (wait_ops m n)"
  by (auto simp: wait_ops_def intro!: pieces)

lemma qt_send_ops_piece [pieces]: "\<forall>h \<in> hs. cs_rank h < 3 \<Longrightarrow> cs_piece i hs (qt_send_ops fd s)"
  by (cases s) (auto intro!: pieces)

lemma broadcast_ops_piece [pieces]: "\<forall>h \<in> hs. cs_rank h < 2 \<Longrightarrow> cs_piece i hs (broadcast_ops rs)"
  unfolding broadcast_ops_def by (intro pieces) (fastforce intro: pieces)+

lemma request_ops_piece [pieces]: "cs_piece i {} (request_ops fd q)"
  by (cases q) (auto intro!: pieces)

lemma round_ops_piece [pieces]: "cs_piece i {} (round_ops tls fd r)"
  by (cases r) (auto simp: round_ops_def intro!: pieces)

lemma handler_ops_piece [pieces]: "cs_piece i {} (handler_ops tls fd p)"
  by (cases p) (auto intro!: pieces)

lemma push_ops_piece [pieces]: "cs_piece i {} (push_ops p)"
  by (cases p) (auto intro!: pieces)

lemma conn_turn_ops_piece [pieces]: "cs_piece conn_thread {} (conn_turn_ops l)"
  by (cases l) (auto simp: conn_thread_def intro!: pieces)

lemma accept_turn_ops_piece [pieces]: "cs_piece accept_thread {} (accept_turn_ops a)"
  by (cases a) (auto simp: accept_turn_ops_def accept_thread_def handler_thread_def
      split: option.splits intro!: pieces)

lemma main_turn_ops_piece [pieces]: "cs_piece 0 {} (main_turn_ops t)"
  by (cases t) (auto simp: main_turn_ops_def intro!: pieces)

lemma run_ops_piece [pieces]: "cs_piece 0 {} (run_ops r)"
  by (auto simp: run_ops_def intro!: pieces)

lemma stop_ops_piece [pieces]: "hs \<subseteq> {Stop_m} \<Longrightarrow> cs_piece 0 hs (stop_ops r)"
  by (auto simp: stop_ops_def internal_client_stop_ops_def qt_stop_ops_def conn_thread_def
      accept_thread_def handler_thread_def intro!: pieces)

section \<open>No deadlock\<close>

text \<open>A signal is harmless where the main thread holds at most the mutex of its condition variable.\<close>

definition harmless_signal :: "nat option \<Rightarrow> cs_run \<Rightarrow> bool" where
  "harmless_signal signal r =
     (case signal of None \<Rightarrow> True | Some k \<Rightarrow> holding {} (take k (run_ops r)) \<subseteq> {Stop_m})"

lemma main_ops_ordered:
  "harmless_signal signal r \<Longrightarrow> ordered cs_rank cs_own 0 {} (main_ops signal r)"
proof (cases signal)
  case (Some k)
  assume "harmless_signal signal r"
  then have "cs_piece 0 (holding {} (take k (run_ops r))) (Io # stop_ops r)"
    using Some by (auto simp: harmless_signal_def intro: pieces)
  from interrupted_ordered [OF piece_ordered [OF run_ops_piece] this]
  show ?thesis by (simp add: main_ops_def signal_ops_def Some)
qed (simp add: main_ops_def piece_ordered run_ops_piece)

lemma cs_programs_ordered:
  assumes "harmless_signal signal r" and "i < length (cs_programs signal r)"
  shows "ordered cs_rank cs_own i {} (cs_programs signal r ! i)"
proof -
  consider "i = 0" | "i = accept_thread" | "i = conn_thread"
    | h where "i = handler_thread h" "h < length (run_handlers r)"
  proof -
    have "i = 0 \<or> i = 1 \<or> i = 2 \<or> (\<exists>h. i = 3 + h)" by presburger
    then show ?thesis
      using assms(2) that
      by (auto simp: cs_programs_def accept_thread_def conn_thread_def handler_thread_def)
  qed
  then show ?thesis
  proof cases
    case 1
    then show ?thesis using main_ops_ordered [OF assms(1)] by (simp add: cs_programs_def)
  next
    case 2
    have "cs_piece accept_thread {} (concat (map accept_turn_ops (run_accepts r)))"
      by (auto intro!: pieces)
    then show ?thesis using 2 by (auto simp: cs_programs_def accept_thread_def dest: piece_ordered)
  next
    case 3
    have "cs_piece conn_thread {} (concat (map conn_turn_ops (run_links r)))"
      by (auto intro!: pieces)
    then show ?thesis using 3 by (auto simp: cs_programs_def conn_thread_def numeral_2_eq_2 dest: piece_ordered)
  next
    case (4 h)
    then show ?thesis
      by (cases "run_handlers r ! h")
        (auto simp: cs_programs_def handler_thread_def numeral_3_eq_3 intro: piece_ordered handler_ops_piece)
  qed
qed

lemma cs_disciplined:
  "harmless_signal signal r \<Longrightarrow>
   disciplined cs_rank cs_own (start_threads (cs_programs signal r))"
  by (rule disciplined_start) (auto simp: cs_programs_ordered, simp add: cs_programs_def)

text \<open>One viewer, and one broadcast to a descriptor.\<close>

definition one_viewer :: "nat option \<Rightarrow> cs_run" where
  "one_viewer viewer =
     \<lparr>run_tls = True, run_listening = True,
      run_turns = [(case viewer of None \<Rightarrow> [] | Some fd \<Rightarrow> [(fd, In_session 2)], [], 1)],
      run_accepts = [([], Some 0)], run_links = [Linked [Cached]],
      run_handlers = [(7, Rounds [Request (Login_accepted (In_session 2) (In_session 2))])]\<rparr>"

text \<open>
  C2: whatever its clients and the DeviceServer do, the ClientServer does not deadlock on its mutexes
  and joins. As long as peers read what is sent to them, and what a thread receives ends (\<open>Io\<close>; \<open>stop\<close>
  shuts these sockets down), some thread can go on until all threads have ended, and every step uses
  up a part of the programs. This also holds with the handler of SIGINT in it, if that comes while
  the main thread holds no mutex but that of its condition variable.
\<close>

theorem client_server_never_deadlocks:
  assumes "harmless_signal signal r" and "\<forall>fd. reads fd"
    and "lock_run reads (start_threads (cs_programs signal r)) st"
  shows "(all_done st \<or> (\<exists>st'. lock_step reads st st')) \<and>
    (\<forall>st'. lock_step reads st st' \<longrightarrow> work_left st' < work_left st) \<and>
    (\<exists>st'. lock_run reads st st' \<and> all_done st')"
proof -
  have d: "disciplined cs_rank cs_own st"
    using disciplined_run [OF assms(3)] cs_disciplined [OF assms(1)] .
  show ?thesis
    using no_deadlock [OF d assms(2), of 4] runs_to_the_end [OF d assms(2), of 4]
    by (auto simp: cs_rank_less step_work)
qed

theorem client_server_never_deadlocks_witness:
  "\<exists>st. lock_run (\<lambda>fd. True) (start_threads (cs_programs (Some 3) (one_viewer (Some 7)))) st \<and> all_done st"
proof -
  have "harmless_signal (Some 3) (one_viewer (Some 7))" by code_simp
  from client_server_never_deadlocks [OF this _ lock_run.none, of "\<lambda>fd. True"] show ?thesis by simp
qed

section \<open>The signal handler\<close>

text \<open>What the main thread still has to do when the handler returns.\<close>

definition after_signal :: "nat \<Rightarrow> cs_run \<Rightarrow> cs_ops" where
  "after_signal k r = drop k (run_ops r)"

lemma held_start: "held (start_threads ps) i = {}"
  by (simp add: held_def start_threads_def)

lemma run_ops_balanced: "balanced {} (take k (run_ops r))"
proof -
  have "obeys cs_rank cs_own 0 {} (take k (run_ops r) @ drop k (run_ops r))"
    using run_ops_piece [of r] by (simp add: piece_def)
  then show ?thesis unfolding obeys_append by (blast intro: obeys_balanced)
qed

lemma other_programs_balanced:
  assumes "0 < i" and "i < length (cs_programs signal r)"
  shows "balanced {} (cs_programs signal r ! i)"
proof -
  have "ordered cs_rank cs_own i {} (cs_programs None r ! i)"
    using assms(2) by (intro cs_programs_ordered) (auto simp: harmless_signal_def cs_programs_def)
  moreover have "cs_programs signal r ! i = cs_programs None r ! i"
    using assms(1) by (cases i) (auto simp: cs_programs_def)
  ultimately show ?thesis unfolding ordered_def by (auto intro: obeys_balanced)
qed

text \<open>\<open>stop\<close> comes to a point where it takes \<open>m\<close>, and has given back by then all it took itself.\<close>

lemma stop_takes:
  assumes "run_listening r" and "m = Client_m \<or> m = Tls_m"
  shows "\<exists>p q. Io # stop_ops r = p @ Take m # q \<and>
    (\<forall>hs. m \<in> hs \<longrightarrow> balanced hs p \<and> m \<in> holding hs p)"
proof -
  define p where "p = Io # Io # internal_client_stop_ops @ [Io]"
  have stop: "\<exists>q. Io # stop_ops r = p @ Take Client_m # Io # Give Client_m # Take Tls_m # q"
    using assms(1) by (simp add: p_def stop_ops_def qt_stop_ops_def guarded_def)
  have keep: "balanced hs p \<and> holding hs p = hs - {Fd_m}" for hs
    by (auto simp: p_def internal_client_stop_ops_def guarded_def)
  from assms(2) show ?thesis
  proof
    assume "m = Client_m"
    then show ?thesis using stop keep by blast
  next
    assume m: "m = Tls_m"
    obtain q where "Io # stop_ops r = (p @ [Take Client_m, Io, Give Client_m]) @ Take Tls_m # q"
      using stop by auto
    moreover have "balanced hs (p @ [Take Client_m, Io, Give Client_m]) \<and>
        (Tls_m \<in> hs \<longrightarrow> Tls_m \<in> holding hs (p @ [Take Client_m, Io, Give Client_m]))" for hs
      using keep [of hs] by simp
    ultimately show ?thesis unfolding m by blast
  qed
qed

text \<open>
  C3: when SIGINT comes while the main thread of the ClientServer is sending a broadcast, that is,
  holds \<open>client_mutex_\<close> or \<open>tls_mutex_\<close>, the signal handler never returns, whatever the other threads
  and the peers do: \<open>stop\<close> takes these mutexes on the same thread.
\<close>

theorem sigint_in_broadcast_hangs:
  assumes "m \<in> holding {} (take k (run_ops r))" and "m = Client_m \<or> m = Tls_m" and "run_listening r"
    and "lock_run reads (start_threads (cs_programs (Some k) r)) st"
  shows "length (after_signal k r) < length (th_progs st ! 0)"
proof -
  obtain p q where stop: "Io # stop_ops r = p @ Take m # q"
    and p: "\<forall>hs. m \<in> hs \<longrightarrow> balanced hs p \<and> m \<in> holding hs p"
    using stop_takes [OF assms(3,2)] by blast
  let ?p = "take k (run_ops r) @ p" and ?q = "q @ after_signal k r"
  have "main_ops (Some k) r = ?p @ Take m # ?q"
    using stop by (simp add: main_ops_def signal_ops_def after_signal_def)
  moreover have "balanced {} ?p \<and> m \<in> holding {} ?p"
    using p assms(1) run_ops_balanced by simp
  moreover have "\<forall>j < length (cs_programs (Some k) r). j \<noteq> 0 \<longrightarrow> balanced {} (cs_programs (Some k) r ! j)"
    using other_programs_balanced by blast
  ultimately have "doomed 0 m ?q (start_threads (cs_programs (Some k) r))"
    unfolding doomed_def held_start by (auto simp: start_threads_def cs_programs_def)
  from doomed_run [OF assms(4) this] show ?thesis by (auto simp: doomed_def)
qed

text \<open>
  The signal comes after the header was sent. The connection thread ends, the handler of the signal
  goes on, and comes to the mutex that its own thread holds.
\<close>

definition signal_schedule :: "nat list" where
  "signal_schedule = replicate 10 0 @ replicate 12 2 @ replicate 8 0"

lemma one_viewer_hangs:
  "case schedule (\<lambda>fd. True) signal_schedule (start_threads (cs_programs (Some 10) (one_viewer (Some 7)))) of
     None \<Rightarrow> False
   | Some st \<Rightarrow> take 1 (th_progs st ! 0) = [Take Client_m] \<and> th_owner st Client_m = Some 0 \<and>
       th_progs st ! 2 = []"
  by code_simp

lemma one_viewer_run:
  "\<exists>st. lock_run (\<lambda>fd. True) (start_threads (cs_programs (Some 10) (one_viewer (Some 7)))) st \<and>
     take 1 (th_progs st ! 0) = [Take Client_m] \<and> th_owner st Client_m = Some 0"
  using one_viewer_hangs schedule_run by (fastforce split: option.splits)

theorem sigint_in_broadcast_hangs_witness:
  "\<exists>st. lock_run (\<lambda>fd. True) (start_threads (cs_programs (Some 10) (one_viewer (Some 7)))) st \<and>
     take 1 (th_progs st ! 0) = [Take Client_m] \<and> th_owner st Client_m = Some 0 \<and>
     length (after_signal 10 (one_viewer (Some 7))) < length (th_progs st ! 0)"
proof -
  have "Client_m \<in> holding {} (take 10 (run_ops (one_viewer (Some 7))))" by code_simp
  moreover have "run_listening (one_viewer (Some 7))" by (simp add: one_viewer_def)
  ultimately show ?thesis using one_viewer_run sigint_in_broadcast_hangs by blast
qed

text \<open>
  Also while the main thread is in \<open>getCameraList\<close>, with \<open>cache_mutex_\<close>, the signal can end in a deadlock:
  \<open>stop\<close> joins the connection thread, which waits for this mutex to enter a list it was sent, and a
  handler waits for it to answer a login.
\<close>

lemma sigint_in_getter_deadlocks:
  "case schedule (\<lambda>fd. True) (replicate 11 0 @ replicate 5 2 @ replicate 8 1 @ replicate 16 3)
      (start_threads (cs_programs (Some 5) (one_viewer (Some 7)))) of
     None \<Rightarrow> False
   | Some st \<Rightarrow> map (\<lambda>i. Option.is_none (advance (\<lambda>fd. True) i st)) [0..<4] = [True, True, True, True] \<and>
       map (\<lambda>xs. take 1 xs) (th_progs st) = [[Await 2], [], [Take Cache_m], [Take Cache_m]] \<and>
       th_owner st Cache_m = Some 0"
  by code_simp

section \<open>A viewer that does not read\<close>


text \<open>The connection thread can still end, but the accept loop and the handler cannot.\<close>

lemma one_viewer_stalls:
  "case schedule (\<lambda>fd. fd \<noteq> 7) (replicate 9 0 @ replicate 4 1)
      (start_threads (cs_programs None (one_viewer (Some 7)))) of
     None \<Rightarrow> False
   | Some st \<Rightarrow> th_progs st ! 0 = SendTo 7 # tl (th_progs st ! 0) \<and> th_owner st Client_m = Some 0 \<and>
       length (th_progs st) = 4 \<and> Take Client_m \<in> set (th_progs st ! 1) \<and>
       map_option (\<lambda>st'. th_progs st' ! 2) (schedule (\<lambda>fd. fd \<noteq> 7) (replicate 12 2) st) = Some []"
  by code_simp

end
