(* ===== verification/DeviceLocks.thy ===== *)
theory DeviceLocks
  imports Locks
begin

text \<open>
  The mutexes of the DeviceServer and who takes them when: the accept loop and the handlers of
  \<open>InternalServer\<close>, the monitor of \<open>DeviceManager\<close>, the beacon thread and the listeners of \<open>SubPiManager\<close>,
  the scanner, the RTSP loop, and the signal handler, which the main thread runs. As in \<open>ClientLocks\<close>
  a program is the sequence of operations along one path.
\<close>

section \<open>Mutexes and threads\<close>

text \<open>
  \<open>device_mutex_\<close>, \<open>send_mutex_\<close>, \<open>client_mutex_\<close> and \<open>finished_mutex_\<close> of \<open>InternalServer\<close>, and
  \<open>finished_mutex_\<close> of \<open>SubPiManager\<close>.
\<close>

datatype ds_mutex = Device_m | Motor_m | Link_m | Handlers_m | Listeners_m

type_synonym ds_ops = "ds_mutex lock_op list"

text \<open>Thread \<open>0\<close> is \<open>main\<close>; handlers and listeners come last, in the order of their start.\<close>

definition internal_thread :: nat where "internal_thread = 1"
definition rtsp_thread :: nat where "rtsp_thread = 2"
definition monitor_thread :: nat where "monitor_thread = 3"
definition beacon_thread :: nat where "beacon_thread = 4"
definition scan_thread :: nat where "scan_thread = 5"
definition worker_thread :: "nat \<Rightarrow> nat" where "worker_thread w = 6 + w"

section \<open>InternalServer\<close>

text \<open>A broadcast makes up to three \<open>sendExact\<close> on each connection of the list.\<close>

definition link_broadcast_ops :: "(nat \<times> nat) list \<Rightarrow> ds_ops" where
  "link_broadcast_ops rs = guarded Link_m (concat (map (\<lambda>(fd, n). replicate n (SendTo fd)) rs))"

text \<open>
  \<open>broadcastCameraList\<close> and \<open>broadcastDeviceStatus\<close> ask \<open>DeviceManager\<close> first; before \<open>start\<close> has set the
  providers they return at once (\<open>None\<close>). Together they are \<open>on_device_changed_\<close>.
\<close>

fun list_broadcast_ops :: "(nat \<times> nat) list option \<Rightarrow> ds_ops" where
  "list_broadcast_ops None = []"
| "list_broadcast_ops (Some rs) = guarded Device_m [Io] @ Io # link_broadcast_ops rs"

type_synonym changed = "(nat \<times> nat) list option \<times> (nat \<times> nat) list option"

definition changed_ops :: "changed \<Rightarrow> ds_ops" where
  "changed_ops = (\<lambda>(cameras, states). list_broadcast_ops cameras @ list_broadcast_ops states)"

text \<open>
  What a handler does with a packet: answer a request for a list, pass on a motor command (to the
  descriptor found, if any), or nothing. Its answers are sent under no mutex.
\<close>

datatype packet_path = Ignored | List_request nat | Motor_command "(nat \<times> nat) option"

fun packet_ops :: "nat \<Rightarrow> packet_path \<Rightarrow> ds_ops" where
  "packet_ops fd Ignored = [Io]"
| "packet_ops fd (List_request n) = Io # guarded Device_m [Io] @ replicate n (SendTo fd)"
| "packet_ops fd (Motor_command target) =
     Io # guarded Device_m [Io] @
     (case target of None \<Rightarrow> [] | Some (pi, n) \<Rightarrow> guarded Motor_m (replicate n (SendTo pi)))"

definition link_handler_ops :: "nat \<Rightarrow> nat \<times> nat \<Rightarrow> packet_path list \<Rightarrow> ds_ops" where
  "link_handler_ops fd = (\<lambda>(n1, n2) ps.
     guarded Device_m [Io] @ replicate n1 (SendTo fd) @ guarded Device_m [Io] @ replicate n2 (SendTo fd) @
     concat (map (packet_ops fd) ps) @ Io # guarded Link_m [Io] @ guarded Handlers_m [Io])"

text \<open>A turn of the accept loop joins the finished handlers, then accepts one client or none.\<close>

definition link_accept_ops :: "nat list \<times> nat option \<Rightarrow> ds_ops" where
  "link_accept_ops = (\<lambda>(finished, accepted).
     guarded Handlers_m [Io] @ map (\<lambda>w. Await (worker_thread w)) finished @ Io #
     (case accepted of None \<Rightarrow> [] | Some w \<Rightarrow> guarded Link_m [Io] @ [Spawn (worker_thread w)]))"

section \<open>DeviceManager, SubPiManager, OnvifScanner\<close>

text \<open>
  A report of a device: the table, then, where it changed, the relay path and the push, both after
  the mutex was given back.
\<close>

definition found_ops :: "changed option \<Rightarrow> ds_ops" where
  "found_ops c =
     guarded Device_m [Io] @ (case c of None \<Rightarrow> [] | Some pushes \<Rightarrow> Io # changed_ops pushes)"

text \<open>
  A turn of the monitor: nobody went offline, or some did. Of those none may be online any more when
  the result is entered (\<open>Some None\<close>). A push follows in any case.
\<close>

definition monitor_turn_ops :: "changed option option \<times> changed \<Rightarrow> ds_ops" where
  "monitor_turn_ops = (\<lambda>(offline, pushes).
     Io # guarded Device_m [Io] @ Io #
     (case offline of None \<Rightarrow> [] | Some removed \<Rightarrow> found_ops removed) @ changed_ops pushes)"

text \<open>
  A turn of the beacon thread. A Sub-Pi that was started is reported; then the finished listeners are
  joined, the old listener of this Sub-Pi too, and a new one is started.
\<close>

datatype beacon_path =
  Silent
| Known
| Unreachable
| Started "changed option" "nat list" "nat option" nat

fun beacon_turn_ops :: "beacon_path \<Rightarrow> ds_ops" where
  "beacon_turn_ops Silent = [Io]"
| "beacon_turn_ops Known = Io # guarded Device_m [Io]"
| "beacon_turn_ops Unreachable = Io # guarded Device_m [Io] @ [Io]"
| "beacon_turn_ops (Started c finished old new) =
     Io # guarded Device_m [Io] @ Io # found_ops c @
     guarded Listeners_m [Io] @ map (\<lambda>w. Await (worker_thread w)) finished @
     (case old of None \<Rightarrow> [] | Some w \<Rightarrow> [Await (worker_thread w)]) @ [Spawn (worker_thread new)]"

text \<open>A message of a Sub-Pi is dropped, broadcast, or entered into the table of states.\<close>

datatype message_path = Skipped | Event "(nat \<times> nat) list" | Status

fun message_ops :: "message_path \<Rightarrow> ds_ops" where
  "message_ops Skipped = [Io]"
| "message_ops (Event rs) = Io # link_broadcast_ops rs"
| "message_ops Status = Io # guarded Device_m [Io]"

definition listener_ops :: "message_path list \<Rightarrow> ds_ops" where
  "listener_ops ms = concat (map message_ops ms) @ guarded Listeners_m [Io]"

text \<open>A camera that answers: it is looked up, and after its queries each of its channels is reported.\<close>

definition camera_turn_ops :: "changed option list \<Rightarrow> ds_ops" where
  "camera_turn_ops channels = Io # guarded Device_m [Io] @ Io # concat (map found_ops channels)"

section \<open>The whole server\<close>

datatype worker_path = Handler nat "nat \<times> nat" "packet_path list" | Listener "message_path list"

fun worker_ops :: "worker_path \<Rightarrow> ds_ops" where
  "worker_ops (Handler fd welcome ps) = link_handler_ops fd welcome ps"
| "worker_ops (Listener ms) = listener_ops ms"

text \<open>One run of the server, by the paths of its threads; the main thread only sleeps.\<close>

record ds_run =
  dr_listening :: bool
  dr_sleeps :: nat
  dr_accepts :: "(nat list \<times> nat option) list"
  dr_monitor :: "(changed option option \<times> changed) list"
  dr_beacons :: "beacon_path list"
  dr_cameras :: "changed option list list"
  dr_workers :: "worker_path list"

definition ds_run_ops :: "ds_run \<Rightarrow> ds_ops" where
  "ds_run_ops r =
     Io # Spawn beacon_thread # Spawn scan_thread # Spawn monitor_thread # Spawn rtsp_thread #
     (if dr_listening r then [Spawn internal_thread] else []) @ replicate (dr_sleeps r) Io"

text \<open>Which workers are handlers and which are listeners.\<close>

definition handlers_of :: "ds_run \<Rightarrow> nat list" where
  "handlers_of r =
     [w \<leftarrow> [0..<length (dr_workers r)]. (case dr_workers r ! w of Handler _ _ _ \<Rightarrow> True | _ \<Rightarrow> False)]"

definition listeners_of :: "ds_run \<Rightarrow> nat list" where
  "listeners_of r =
     [w \<leftarrow> [0..<length (dr_workers r)]. (case dr_workers r ! w of Listener _ \<Rightarrow> True | _ \<Rightarrow> False)]"

text \<open>\<open>InternalServer::stop\<close>, \<open>RtspServer::stop\<close>, \<open>DeviceManager::stopDiscovery\<close>, in this order.\<close>

definition internal_stop_ops :: "ds_run \<Rightarrow> ds_ops" where
  "internal_stop_ops r =
     Io # guarded Link_m [Io] @ Await internal_thread #
     map (\<lambda>w. Await (worker_thread w)) (handlers_of r) @ guarded Link_m [Io]"

definition rtsp_stop_ops :: ds_ops where
  "rtsp_stop_ops = [Io, Await rtsp_thread, Io]"

definition subpi_stop_ops :: "ds_run \<Rightarrow> ds_ops" where
  "subpi_stop_ops r = map (\<lambda>w. Await (worker_thread w)) (listeners_of r) @ [Await beacon_thread]"

definition discovery_stop_ops :: "ds_run \<Rightarrow> ds_ops" where
  "discovery_stop_ops r = Io # subpi_stop_ops r @ [Await scan_thread, Await monitor_thread]"

definition ds_stop_ops :: "ds_run \<Rightarrow> ds_ops" where
  "ds_stop_ops r =
     Io # (if dr_listening r then internal_stop_ops r else []) @ rtsp_stop_ops @ discovery_stop_ops r"

text \<open>\<open>signalHandler\<close> runs on the main thread, after the first \<open>k\<close> operations of what it interrupts.\<close>

definition ds_signal_ops :: "nat \<Rightarrow> ds_run \<Rightarrow> ds_ops" where
  "ds_signal_ops k r = take k (ds_run_ops r) @ Io # ds_stop_ops r @ drop k (ds_run_ops r)"

definition ds_main_ops :: "nat option \<Rightarrow> ds_run \<Rightarrow> ds_ops" where
  "ds_main_ops signal r = (case signal of None \<Rightarrow> ds_run_ops r | Some k \<Rightarrow> ds_signal_ops k r)"

definition ds_programs :: "nat option \<Rightarrow> ds_run \<Rightarrow> ds_ops list" where
  "ds_programs signal r =
     ds_main_ops signal r # concat (map link_accept_ops (dr_accepts r)) # [Io] #
     concat (map monitor_turn_ops (dr_monitor r)) # concat (map beacon_turn_ops (dr_beacons r)) #
     concat (map camera_turn_ops (dr_cameras r)) # map worker_ops (dr_workers r)"

section \<open>No thread holds two mutexes\<close>

definition no_rank :: "ds_mutex \<Rightarrow> nat" where "no_rank m = 0"
definition no_own :: "ds_mutex \<Rightarrow> nat option" where "no_own m = None"

abbreviation ds_piece :: "nat \<Rightarrow> ds_mutex set \<Rightarrow> ds_ops \<Rightarrow> bool" where
  "ds_piece \<equiv> piece no_rank no_own"

lemma ds_guarded [pieces]: "ds_piece i {m} xs \<Longrightarrow> ds_piece i {} (guarded m xs)"
  by (rule piece_guarded) (auto simp: no_own_def)

lemma link_broadcast_ops_piece [pieces]: "ds_piece i {} (link_broadcast_ops rs)"
  by (auto simp: link_broadcast_ops_def intro!: pieces)

lemma list_broadcast_ops_piece [pieces]: "ds_piece i {} (list_broadcast_ops c)"
  by (cases c) (auto intro!: pieces)

lemma changed_ops_piece [pieces]: "ds_piece i {} (changed_ops c)"
  by (cases c) (auto simp: changed_ops_def intro!: pieces)

lemma found_ops_piece [pieces]: "ds_piece i {} (found_ops c)"
  by (cases c) (auto simp: found_ops_def intro!: pieces)

lemma packet_ops_piece [pieces]: "ds_piece i {} (packet_ops fd p)"
  by (cases p) (auto split: option.splits intro!: pieces)

lemma message_ops_piece [pieces]: "ds_piece i {} (message_ops p)"
  by (cases p) (auto intro!: pieces)

lemma worker_ops_piece [pieces]: "ds_piece i {} (worker_ops w)"
  by (cases w) (auto simp: link_handler_ops_def listener_ops_def split: prod.splits intro!: pieces)

lemma beacon_turn_ops_piece [pieces]: "ds_piece beacon_thread {} (beacon_turn_ops b)"
  by (cases b) (auto simp: beacon_thread_def worker_thread_def split: option.splits intro!: pieces)

lemma link_accept_ops_piece [pieces]: "ds_piece internal_thread {} (link_accept_ops a)"
  by (cases a) (auto simp: link_accept_ops_def internal_thread_def worker_thread_def
      split: option.splits intro!: pieces)

lemma monitor_turn_ops_piece [pieces]: "ds_piece i {} (monitor_turn_ops t)"
  by (cases t) (auto simp: monitor_turn_ops_def split: option.splits intro!: pieces)

lemma camera_turn_ops_piece [pieces]: "ds_piece i {} (camera_turn_ops t)"
  by (auto simp: camera_turn_ops_def intro!: pieces)

lemma ds_run_ops_piece [pieces]: "ds_piece i {} (ds_run_ops r)"
  by (auto simp: ds_run_ops_def intro!: pieces)

lemma ds_stop_ops_piece [pieces]: "ds_piece 0 {} (ds_stop_ops r)"
  by (auto simp: ds_stop_ops_def internal_stop_ops_def rtsp_stop_ops_def discovery_stop_ops_def
      subpi_stop_ops_def internal_thread_def rtsp_thread_def monitor_thread_def beacon_thread_def
      scan_thread_def worker_thread_def intro!: pieces)

text \<open>The main thread takes no mutex of its own, so the signal never finds it holding one.\<close>

lemma holding_nothing: "\<forall>m. Take m \<notin> set xs \<Longrightarrow> holding {} xs = {}"
  by (induction xs) (auto split: lock_op.splits)

lemma ds_main_ops_ordered: "ordered no_rank no_own 0 {} (ds_main_ops signal r)"
proof (cases signal)
  case (Some k)
  have "Take m \<notin> set (take k (ds_run_ops r))" for m
    by (auto simp: ds_run_ops_def dest!: in_set_takeD split: if_splits)
  then have "ds_piece 0 (holding {} (take k (ds_run_ops r))) (Io # ds_stop_ops r)"
    using holding_nothing [of "take k (ds_run_ops r)"] by (auto intro: pieces)
  from interrupted_ordered [OF piece_ordered [OF ds_run_ops_piece] this]
  show ?thesis by (simp add: ds_main_ops_def ds_signal_ops_def Some)
qed (simp add: ds_main_ops_def piece_ordered ds_run_ops_piece)

lemma ds_programs_ordered:
  assumes "i < length (ds_programs signal r)"
  shows "ordered no_rank no_own i {} (ds_programs signal r ! i)"
proof -
  consider "i = 0" | "i = internal_thread" | "i = rtsp_thread" | "i = monitor_thread"
    | "i = beacon_thread" | "i = scan_thread"
    | w where "i = worker_thread w" "w < length (dr_workers r)"
  proof -
    have "i = 0 \<or> i = 1 \<or> i = 2 \<or> i = 3 \<or> i = 4 \<or> i = 5 \<or> (\<exists>w. i = 6 + w)" by presburger
    then show ?thesis
      using assms that unfolding ds_programs_def internal_thread_def rtsp_thread_def
        monitor_thread_def beacon_thread_def scan_thread_def worker_thread_def by auto
  qed
  then show ?thesis
  proof cases
    case 1
    then show ?thesis using ds_main_ops_ordered by (simp add: ds_programs_def)
  next
    case 2
    have "ds_piece internal_thread {} (concat (map link_accept_ops (dr_accepts r)))"
      by (auto intro!: pieces)
    then show ?thesis using 2 by (auto simp: ds_programs_def internal_thread_def dest: piece_ordered)
  next
    case 3
    then show ?thesis by (simp add: ds_programs_def rtsp_thread_def)
  next
    case 4
    have "ds_piece i {} (concat (map monitor_turn_ops (dr_monitor r)))"
      by (auto intro!: pieces)
    then show ?thesis using 4 by (simp add: ds_programs_def monitor_thread_def piece_ordered)
  next
    case 5
    have "ds_piece beacon_thread {} (concat (map beacon_turn_ops (dr_beacons r)))"
      by (auto intro!: pieces)
    then show ?thesis using 5 by (auto simp: ds_programs_def beacon_thread_def dest: piece_ordered)
  next
    case 6
    have "ds_piece i {} (concat (map camera_turn_ops (dr_cameras r)))"
      by (auto intro!: pieces)
    then show ?thesis using 6 by (simp add: ds_programs_def scan_thread_def piece_ordered)
  next
    case (7 w)
    then have "ds_programs signal r ! i = worker_ops (dr_workers r ! w)"
      by (simp add: ds_programs_def worker_thread_def)
    then show ?thesis by (simp add: piece_ordered worker_ops_piece)
  qed
qed

lemma ds_disciplined: "disciplined no_rank no_own (start_threads (ds_programs signal r))"
  by (rule disciplined_start) (auto simp: ds_programs_ordered, simp add: ds_programs_def)

text \<open>A Sub-Pi that is found, with its listener, and a ClientServer that asks for the cameras.\<close>

definition small_run :: ds_run where
  "small_run =
     \<lparr>dr_listening = True, dr_sleeps = 2, dr_accepts = [([], Some 0)],
      dr_monitor = [(None, Some [(7, 2)], Some [(7, 2)])],
      dr_beacons = [Started (Some (Some [], Some [])) [] None 1, Known],
      dr_cameras = [], dr_workers = [Handler 7 (2, 2) [List_request 2], Listener [Event [(7, 2)]]]\<rparr>"


end
