(* ===== verification/Spec2Isabelle.thy ===== *)
theory Spec2Isabelle
  imports SocketWriters HandlerEnds SubPiPorts CameraQueries SessionOwners Dtls CameraText ClientLocks DeviceLocks
begin

text \<open>
  Two servers between Qt viewers and cameras. The DeviceServer finds Sub-Pis (by UDP beacons) and
  Hanwha cameras (by ONVIF probes and the ARP table), keeps a table of them, watches them, relays
  the streams of the Sub-Pis as RTSP paths and passes motor commands. The ClientServer is connected
  to it over TCP, caches what it pushes, and serves the viewers over TLS: accounts, logins, camera
  lists, events. Both are threads around shared tables, written in C++ on \<open>nlohmann::json\<close>, OpenSSL,
  SQLite and GStreamer.

  \<^bold>\<open>How the model reads.\<close> A class is a record of its members, a member function a definition that takes
  the record and returns it updated. \<open>std::string\<close> is a list of bytes, \<open>std::map\<close> and \<open>std::set\<close> are
  association lists in key order (\<open>StdMap\<close>), machine integers are words, \<open>double\<close> its 64 bits
  (\<open>Double\<close>). An exception is the left of a sum (\<open>exn\<close> in \<open>Json\<close>, with the library's numbers); where C++
  calls \<open>std::terminate\<close> the result is \<open>None\<close> or \<open>Terminates\<close>. A socket is a record of what was sent, what
  is still to be received and how the kernel splits both (\<open>sock\<close> in \<open>Protocol\<close>), the network a function
  from descriptors to sockets. A loop body of a thread is one definition (\<open>..._round\<close>), and the
  sequences and interleavings of rounds are step relations. Logging is left out.

  \<^bold>\<open>Theories, from the bottom.\<close>
  \<open>Prelude\<close>: types, \<open>rbind\<close>, string operations and the collections \<open>wire_simps\<close>, \<open>omap_simps\<close>, \<open>sock_simps\<close>,
  \<open>json_simps\<close>. \<open>StdMap\<close>: the locale \<open>ordered_map\<close>, interpreted on the association lists.
  \<open>Double\<close>, \<open>Dtoa\<close>: binary64 and \<open>dtoa_impl\<close> (Grisu2, \<open>to_chars\<close>) of \<open>common/json.hpp\<close>.
  \<open>Json\<close>: values, \<open>operator[]\<close>, \<open>push_back\<close>, \<open>value\<close> and \<open>from_json\<close>. \<open>JsonDump\<close>: \<open>serializer::dump\<close>,
  \<open>dump_escaped\<close>, \<open>dump_integer\<close>. \<open>JsonLexer\<close>, \<open>JsonParser\<close>: \<open>lexer\<close>, \<open>json_sax_dom_parser\<close>,
  \<open>sax_parse_internal\<close>, \<open>json::parse\<close>.
  \<open>Protocol\<close>: \<open>common/Common.h\<close> and \<open>common/NetUtil.h\<close>. \<open>Tls\<close>, \<open>Dtls\<close>: \<open>crypt/tls.hpp\<close>, \<open>crypt/dtls.hpp\<close>.
  \<open>ClientThreads\<close>: the accept loops and thread tables of both servers.
  ClientServer: \<open>QtCommServer\<close>, \<open>AuthManager\<close>, \<open>SystemMonitor\<close>, \<open>InternalClient\<close>, and \<open>ClientController\<close>, which
  binds them together (\<open>onQtMessage\<close>, \<open>main_round\<close>).
  DeviceServer: \<open>InternalServer\<close>, \<open>SubPiManager\<close>, \<open>OnvifScanner\<close>, \<open>DeviceManager\<close>, \<open>RtspServer\<close>, and
  \<open>DeviceController\<close>, which binds them together (callbacks, providers, \<open>dc_run\<close>, \<open>dc_stop\<close>).
\<close>

text \<open>
  \<^bold>\<open>What is shown.\<close>
  JSON. \<open>JsonText\<close>: the UTF-8 automaton accepts exactly well-formed text, the string buffer is never
  overrun, the integer loops write the decimal text. \<open>JsonRead\<close>, \<open>JsonRoundtrip\<close>: \<open>parse\<close> reads back what
  \<open>dump\<close> wrote, and when \<open>dump\<close> throws. \<open>JsonParsed\<close>: what \<open>parse\<close> can return and throw.
  Transport. \<open>Framing\<close>: \<open>recvExact\<close> and \<open>sendExact\<close> against any splitting, packets in both byte orders (locale
  \<open>framing\<close>, interpreted for the raw and the network order). \<open>Broadcast\<close>: the contract of the sending
  loops (locales \<open>sender\<close> and \<open>delivering\<close>), interpreted by every broadcast of both servers in \<open>QtServing\<close>,
  \<open>HandlerEnds\<close> and \<open>InternalServer\<close>.
  Threads. \<open>ClientThreads\<close>: the interleavings of accept loop and handlers (\<open>conns_step\<close>), the broadcast list,
  and the one assignment to a thread that was not joined. \<open>HandlerEnds\<close>: a handler ends after at most
  as many rounds as headers fit in what its client sent.
  TLS. \<open>SessionOwners\<close>: every \<open>SSL\<close> object is freed exactly once. \<open>Dtls\<close>: where the two engines agree.
  ClientServer. \<open>AuthManager\<close>: logins and the invariants of the account table. \<open>QtServing\<close>: what reaches
  \<open>on_message_\<close> and what reaches a client. \<open>Roles\<close>, \<open>ClientServing\<close>: the steps of the whole server (\<open>served\<close>),
  where roles come from, and which exceptions can end the process.
  DeviceServer. \<open>DeviceTable\<close>: the table refines the set of online ids (locale \<open>registration\<close> for the two
  discoverers). \<open>DeviceServing\<close>: the steps of the whole server (\<open>dev_step\<close>), and that its lists can always be
  written. \<open>Relays\<close>: relay paths against the table. \<open>SubPiPorts\<close>: no port is used twice. \<open>CameraQueries\<close>: the
  cameras the scanner gives up. \<open>CameraText\<close>: a camera whose URL is not UTF-8 ends the server.
  Both. \<open>ServerLink\<close>: welcome push, motor commands and pictures across the connection of the servers.
  \<open>SocketWriters\<close>: threads that send on one descriptor, byte by byte; with a mutex they refine turns of
  whole packets, and without one, as in the handler of \<open>InternalServer\<close>, they do not.
  \<open>Locks\<close>: threads as programs of mutexes, sends, starts and joins; an order on the mutexes excludes
  deadlock. \<open>ClientLocks\<close>, \<open>DeviceLocks\<close>: these programs for every thread of the two servers and for both
  \<open>main.cpp\<close>, whose signal handlers run \<open>stop\<close> on the main thread: no deadlock in the DeviceServer, none
  in the ClientServer unless SIGINT comes during a broadcast of its main thread, and what a viewer
  that stops reading does to all others.

  \<^bold>\<open>Bounds and termination.\<close> There is no fuel. The loops of lexer, parser, Grisu2, \<open>recvExact\<close> and \<open>sendExact\<close>
  are total functions with a measure (characters left, bytes missing). The \<open>SSL_read\<close> loop is partial;
  it returns under \<open>ssl_read_bounded\<close>, the documented behaviour of \<open>SSL_read\<close>, which an instance
  (\<open>link_ops\<close>) satisfies. The endless loops of the threads are not functions; their rounds are, and in
  the theories on locks any finite number of them is a program.
  Doubles in the round trip are assumed to have a text that reads back (\<open>json_floats_ok\<close>), which is
  what Grisu2 is known for and is evaluated where a witness uses one.

  \<^bold>\<open>Parameters.\<close> OpenSSL (\<open>ssl_ops\<close>, \<open>dtls_ops\<close>, \<open>ctx_env\<close>), SHA-256, what SQLite returns besides the data
  (\<open>sql_env\<close>), \<open>/proc\<close>, \<open>sysinfo\<close> and the thermal file (\<open>readings\<close>), what the health checks see
  (\<open>health_env\<close>), what shell commands print, the ARP table, and the results of \<open>socket\<close>, \<open>bind\<close>,
  \<open>connect\<close>, \<open>select\<close>. Each SQL statement is the operation on rows that it denotes.

  \<^bold>\<open>Not modelled.\<close> Of \<open>common/json.hpp\<close> what the servers do not reach: binary formats, JSON pointer and
  patch, iterators, \<open>ordered_json\<close>, pretty printing, callback parsers, and the templates that only
  select overloads. The inside of GStreamer: a relay path is its launch line. Time: delays, time-outs and the five second period are the choice
  of the next step. A round of a thread is one step, so races within a round are only considered in
  \<open>ClientThreads\<close>, \<open>SocketWriters\<close> and the theories on locks, where in turn the data is left out. A
  signal is modelled as \<open>stop\<close> on the interrupted thread; what the C++ library does when its own
  functions are interrupted is not. Memory exhaustion is not considered.
\<close>

end
